(* ===== verification/Prelude.thy ===== *)
theory Prelude
  imports Main "HOL-Library.Word" "HOL-Library.Multiset"
begin

text \<open>
  Shared vocabulary of the development: the types that stand for C++ integers and byte
  buffers, the outcome of a C++ call that may throw or read out of bounds, the conversion
  between \<^typ>\<open>char\<close> and bytes, and the generic lemmas on lists, folds and words that the
  component theories use.
\<close>

unbundle bit_operations_syntax

named_theorems outcome_simps \<open>evaluation of outcome-valued code\<close>
named_theorems codec_simps \<open>evaluation of readers and writers\<close>
named_theorems frame_simps \<open>parts of the state an operation leaves alone\<close>

type_synonym byte = "8 word"
type_synonym u16 = "16 word"
type_synonym u32 = "32 word"
type_synonym u64 = "64 word"
type_synonym buffer = "byte list"

section \<open>Outcomes of C++ calls\<close>

text \<open>
  \<open>Ret\<close> is a normal return, \<open>Throw\<close> a \<open>std::exception\<close> with its message, and \<open>UB\<close> marks
  an access that the C++ standard leaves undefined (\<open>std::vector::operator[]\<close> past the end).
\<close>

datatype 'a outcome = Ret 'a | Throw string | UB

fun bind_out :: "'a outcome \<Rightarrow> ('a \<Rightarrow> 'b outcome) \<Rightarrow> 'b outcome" where
  "bind_out (Ret x) f = f x"
| "bind_out (Throw e) f = Throw e"
| "bind_out UB f = UB"

definition throw_if :: "bool \<Rightarrow> string \<Rightarrow> unit outcome" where
  "throw_if c e = (if c then Throw e else Ret ())"

declare bind_out.simps [outcome_simps]

lemma throw_if_simps [simp, outcome_simps]:
  "throw_if True e = Throw e" "throw_if False e = Ret ()"
  by (simp_all add: throw_if_def)

lemma bind_out_eq_Ret:
  "bind_out m f = Ret y \<longleftrightarrow> (\<exists>x. m = Ret x \<and> f x = Ret y)"
  by (cases m) auto

lemma bind_out_eq_UB:
  "bind_out m f = UB \<longleftrightarrow> m = UB \<or> (\<exists>x. m = Ret x \<and> f x = UB)"
  by (cases m) auto

lemma throw_if_eq_Ret: "throw_if c e = Ret u \<longleftrightarrow> \<not> c"
  by (simp add: throw_if_def)

lemma throw_if_eq_UB [simp]: "throw_if c e \<noteq> UB"
  by (simp add: throw_if_def)

lemma bind_throw_if_eq_Ret:
  "bind_out (throw_if c e) f = Ret y \<longleftrightarrow> \<not> c \<and> f () = Ret y"
  by (simp add: throw_if_def)

lemmas outcome_inversion = bind_out_eq_Ret throw_if_eq_Ret bind_throw_if_eq_Ret

lemma bind_out_cong [fundef_cong]:
  "m = m' \<Longrightarrow> (\<And>x. m' = Ret x \<Longrightarrow> f x = g x) \<Longrightarrow> bind_out m f = bind_out m' g"
  by (cases m') auto

section \<open>Characters and bytes\<close>

text \<open>
  A \<open>std::string\<close> is a sequence of bytes; \<^typ>\<open>string\<close> models it with one \<^typ>\<open>char\<close> per
  byte. \<open>static_cast<uint8_t>(c)\<close> and the assignment of raw bytes to a string are the two
  conversions.
\<close>

definition byte_of_char :: "char \<Rightarrow> byte" where
  "byte_of_char c = of_nat (of_char c)"

definition char_of_byte :: "byte \<Rightarrow> char" where
  "char_of_byte b = char_of (unat b)"

definition bytes_of_string :: "string \<Rightarrow> buffer" where
  "bytes_of_string s = map byte_of_char s"

definition string_of_bytes :: "buffer \<Rightarrow> string" where
  "string_of_bytes bs = map char_of_byte bs"

lemma of_char_less_256: "(of_char c :: nat) < 256"
proof -
  have "(of_char c :: nat) = of_char c mod 256" by simp
  then show ?thesis by (metis mod_less_divisor zero_less_numeral)
qed

lemma unat_byte_of_char: "unat (byte_of_char c) = of_char c"
  using of_char_less_256 [of c]
  by (simp add: byte_of_char_def unat_of_nat)

lemma char_of_byte_of_char [simp]: "char_of_byte (byte_of_char c) = c"
  by (simp add: char_of_byte_def unat_byte_of_char)

lemma byte_of_char_of_byte [simp]: "byte_of_char (char_of_byte b) = b"
proof -
  have "unat b < 256" using unsigned_less [of b] by simp
  then show ?thesis by (simp add: byte_of_char_def char_of_byte_def)
qed

lemma string_of_bytes_of_string [simp]: "string_of_bytes (bytes_of_string s) = s"
  by (simp add: string_of_bytes_def bytes_of_string_def o_def)

lemma bytes_of_string_of_bytes [simp]: "bytes_of_string (string_of_bytes bs) = bs"
  by (simp add: string_of_bytes_def bytes_of_string_def o_def)

lemma length_bytes_of_string [simp]: "length (bytes_of_string s) = length s"
  by (simp add: bytes_of_string_def)

lemma length_string_of_bytes [simp]: "length (string_of_bytes bs) = length bs"
  by (simp add: string_of_bytes_def)

lemma bytes_of_string_simps [simp]:
  "bytes_of_string [] = []"
  "bytes_of_string (c # s) = byte_of_char c # bytes_of_string s"
  "bytes_of_string (s @ t) = bytes_of_string s @ bytes_of_string t"
  by (simp_all add: bytes_of_string_def)

lemma string_of_bytes_eq_Nil [simp]: "string_of_bytes bs = [] \<longleftrightarrow> bs = []"
  by (simp add: string_of_bytes_def)

section \<open>Words read as natural numbers\<close>

lemma unat_drop_bit: "unat (drop_bit n (w :: 'a::len word)) = unat w div 2 ^ n"
  by (metis drop_bit_eq_div unat_drop_bit_eq)

lemma drop_bit_eq_iff_unat: "drop_bit n (w :: 'a::len word) = k \<longleftrightarrow> unat w div 2 ^ n = unat k"
  by (simp only: word_unat_eq_iff unat_drop_bit)

lemma unat_and_mask: "unat (w AND mask n :: 'a::len word) = unat w mod 2 ^ n"
  by (metis take_bit_eq_mask take_bit_eq_mod unsigned_take_bit_eq)

lemma unat_byte_less [simp]: "unat (b :: byte) < 256"
  using unsigned_less [of b] by simp

lemma unat_u16_less [simp]: "unat (w :: u16) < 65536"
  using unsigned_less [of w] by simp

lemma unat_of_nat_byte: "n < 256 \<Longrightarrow> unat (of_nat n :: byte) = n"
  by (simp add: unat_of_nat)

lemma unat_of_nat_u16: "n < 65536 \<Longrightarrow> unat (of_nat n :: u16) = n"
  by (simp add: unat_of_nat)

lemma unat_of_nat_u32: "n < 4294967296 \<Longrightarrow> unat (of_nat n :: u32) = n"
  by (simp add: unat_of_nat)

lemmas unat_of_nats = unat_of_nat_byte unat_of_nat_u16 unat_of_nat_u32

lemma of_nat_unat_byte: "of_nat (unat (b :: byte)) = b"
  by simp

lemma or_eq_add_disjoint:
  fixes a b :: "'a::len word"
  shows "unat b < 2 ^ n \<Longrightarrow> push_bit n a OR b = push_bit n a + b"
proof (rule disjunctive_add [symmetric])
  fix i
  assume "unat b < 2 ^ n"
  then have "take_bit n b = b"
    by (metis take_bit_nat_eq_self unsigned_take_bit_eq word_unat_eq_iff)
  then show "\<not> bit (push_bit n a) i \<or> \<not> bit b i"
    by (metis bit_push_bit_iff bit_take_bit_iff not_less)
qed

end
