(* ===== verification/Utils.thy ===== *)
theory Utils
  imports Prelude
begin

text \<open>
  The helpers of \<open>src/common/Utils.hpp\<close>: UTF-8 validation, the timeout test and the
  parsing of configuration values. The main result is that the byte-level validator
  accepts exactly the non-empty strings that are the UTF-8 encoding of a sequence of
  Unicode scalar values.
\<close>

section \<open>UTF-8 validation\<close>

text \<open>The class of a lead byte: the length of the sequence and the payload bits of the byte.\<close>

definition utf8_lead :: "byte \<Rightarrow> (nat \<times> u32) option" where
  "utf8_lead lead =
     (if drop_bit 5 lead = 0x06 then Some (2, ucast (lead AND 0x1F))
      else if drop_bit 4 lead = 0x0E then Some (3, ucast (lead AND 0x0F))
      else if drop_bit 3 lead = 0x1E then Some (4, ucast (lead AND 0x07))
      else None)"

text \<open>The inner loop over the continuation bytes.\<close>

fun utf8_conts :: "u32 \<Rightarrow> byte list \<Rightarrow> u32 option" where
  "utf8_conts code_point [] = Some code_point"
| "utf8_conts code_point (cont # cs) =
     (if drop_bit 6 cont \<noteq> 0x02 then None
      else utf8_conts (push_bit 6 code_point OR ucast (cont AND 0x3F)) cs)"

text \<open>The outer loop; its argument is the part of the buffer from the index on.\<close>

fun utf8_loop :: "byte list \<Rightarrow> bool" where
  "utf8_loop [] = True"
| "utf8_loop (lead # rest) =
     (if lead < 0x80 then utf8_loop rest
      else case utf8_lead lead of
        None \<Rightarrow> False
      | Some (seq_len, code_point) \<Rightarrow>
          if seq_len > Suc (length rest) then False
          else case utf8_conts code_point (take (seq_len - 1) rest) of
            None \<Rightarrow> False
          | Some code_point' \<Rightarrow>
              if (seq_len = 2 \<and> code_point' < 0x80)
                 \<or> (seq_len = 3 \<and> code_point' < 0x800)
                 \<or> (seq_len = 4 \<and> code_point' < 0x10000) then False
              else if code_point' \<ge> 0xD800 \<and> code_point' \<le> 0xDFFF then False
              else if code_point' > 0x10FFFF then False
              else utf8_loop (drop (seq_len - 1) rest))"

definition is_valid_utf8 :: "string \<Rightarrow> bool" where
  "is_valid_utf8 s =
     (let bytes = bytes_of_string s in if length bytes = 0 then False else utf8_loop bytes)"

section \<open>The standard's encoding\<close>

text \<open>
  Unicode scalar values and their UTF-8 encoding (RFC 3629), the reference the validator is
  compared with.
\<close>

definition scalar_value :: "nat \<Rightarrow> bool" where
  "scalar_value cp \<longleftrightarrow> cp < 0xD800 \<or> (0xE000 \<le> cp \<and> cp \<le> 0x10FFFF)"

definition utf8_encode :: "nat \<Rightarrow> byte list" where
  "utf8_encode cp =
     (if cp < 0x80 then [of_nat cp]
      else if cp < 0x800 then [of_nat (0xC0 + cp div 64), of_nat (0x80 + cp mod 64)]
      else if cp < 0x10000 then
        [of_nat (0xE0 + cp div 4096), of_nat (0x80 + cp div 64 mod 64), of_nat (0x80 + cp mod 64)]
      else
        [of_nat (0xF0 + cp div 262144), of_nat (0x80 + cp div 4096 mod 64),
         of_nat (0x80 + cp div 64 mod 64), of_nat (0x80 + cp mod 64)])"

section \<open>Timeouts and configuration values\<close>

text \<open>
  \<open>is_timeout(last, now, interval)\<close>; time points and durations are integers in the same unit.
\<close>

definition is_timeout :: "int \<Rightarrow> int \<Rightarrow> int \<Rightarrow> bool" where
  "is_timeout last_t now interval \<longleftrightarrow> now - last_t \<ge> interval"

text \<open>\<open>std::stoi\<close> in base 10 and the C locale: value and number of characters consumed.\<close>

definition is_space :: "char \<Rightarrow> bool" where
  "is_space c \<longleftrightarrow> (of_char c :: nat) = 32 \<or> (9 \<le> (of_char c :: nat) \<and> (of_char c :: nat) \<le> 13)"

definition is_digit :: "char \<Rightarrow> bool" where
  "is_digit c \<longleftrightarrow> 48 \<le> (of_char c :: nat) \<and> (of_char c :: nat) \<le> 57"

definition decimal_value :: "string \<Rightarrow> nat" where
  "decimal_value ds = foldl (\<lambda>a c. 10 * a + (of_char c - 48)) 0 ds"

definition stoi :: "string \<Rightarrow> (int \<times> nat) outcome" where
  "stoi s =
     (let ws = takeWhile is_space s;
          s1 = dropWhile is_space s;
          sgn = takeWhile (\<lambda>c. c = CHR ''-'' \<or> c = CHR ''+'') (take 1 s1);
          ds = takeWhile is_digit (drop (length sgn) s1);
          v = (if sgn = ''-'' then - int (decimal_value ds) else int (decimal_value ds))
      in if ds = [] then Throw ''invalid_argument''
         else if v < - 2147483648 \<or> v > 2147483647 then Throw ''out_of_range''
         else Ret (v, length ws + length sgn + length ds))"

definition parse_int :: "string \<Rightarrow> int option" where
  "parse_int s =
     (case stoi s of
        Ret (v, pos) \<Rightarrow> if pos \<noteq> length s then None else Some v
      | Throw _ \<Rightarrow> None
      | UB \<Rightarrow> None)"

text \<open>\<open>parse_uint32\<close> stores the \<open>int\<close> of \<open>std::stoi\<close> in a \<open>uint32_t\<close>.\<close>

definition parse_uint32 :: "string \<Rightarrow> u32 option" where
  "parse_uint32 s =
     (case stoi s of
        Ret (v, pos) \<Rightarrow> if pos \<noteq> length s then None else Some (word_of_int v)
      | Throw _ \<Rightarrow> None
      | UB \<Rightarrow> None)"

definition parse_bool :: "string \<Rightarrow> bool option" where
  "parse_bool s = (if s = ''true'' then Some True else if s = ''false'' then Some False else None)"

text \<open>\<open>std::to_string\<close> of an unsigned number.\<close>

fun to_string :: "nat \<Rightarrow> string" where
  "to_string n = (if n < 10 then [char_of (48 + n)] else to_string (n div 10) @ [char_of (48 + n mod 10)])"

declare to_string.simps [simp del]

text \<open>
  \<open>generate_client_id\<close>: the static counter is passed and returned; nothing else in the program
  uses it.
\<close>

definition generate_client_id :: "u64 \<Rightarrow> string \<times> u64" where
  "generate_client_id counter =
     (let counter' = (if counter = 0xFFFFFFFFFFFFFFFF then 0 else counter)
      in (''JianmClient_'' @ to_string (unat counter'), counter' + 1))"

section \<open>The validator at the level of numbers\<close>

lemma ucast_and_mask:
  "ucast (b AND mask n :: byte) = (of_nat (unat b mod 2 ^ n) :: u32)"
  by (metis of_nat_unat unat_and_mask)

lemma utf8_lead_unat:
  "utf8_lead b =
     (if unat b div 32 = 6 then Some (2, of_nat (unat b mod 32))
      else if unat b div 16 = 14 then Some (3, of_nat (unat b mod 16))
      else if unat b div 8 = 30 then Some (4, of_nat (unat b mod 8))
      else None)"
  using ucast_and_mask [of b 5] ucast_and_mask [of b 4] ucast_and_mask [of b 3]
  by (simp add: utf8_lead_def drop_bit_eq_iff_unat mask_eq_exp_minus_1)

lemma utf8_shift:
  assumes "n < 2 ^ 26"
  shows "push_bit 6 (of_nat n :: u32) OR ucast (c AND 0x3F :: byte) = of_nat (n * 64 + unat c mod 64)"
proof -
  have c: "ucast (c AND 0x3F :: byte) = (of_nat (unat c mod 64) :: u32)"
    using ucast_and_mask [of c 6] by (simp add: mask_eq_exp_minus_1)
  have m: "unat c mod 64 < 64" by simp
  have "unat (of_nat (unat c mod 64) :: u32) = unat c mod 64"
    using m by (intro unat_of_nat_u32) simp
  then have "push_bit 6 (of_nat n :: u32) OR of_nat (unat c mod 64) =
      push_bit 6 (of_nat n) + of_nat (unat c mod 64)"
    using m by (intro or_eq_add_disjoint) simp
  then show ?thesis
    by (simp add: c push_bit_eq_mult)
qed

lemma utf8_conts_unat:
  "n < 2 ^ 26 \<Longrightarrow> utf8_conts (of_nat n) (c # cs) =
     (if unat c div 64 = 2 then utf8_conts (of_nat (n * 64 + unat c mod 64)) cs else None)"
  by (simp add: drop_bit_eq_iff_unat utf8_shift)

declare utf8_conts.simps(2) [simp del]

lemma u32_less_iff: "n < 4294967296 \<Longrightarrow> (of_nat n :: u32) < k \<longleftrightarrow> n < unat k"
  "n < 4294967296 \<Longrightarrow> k \<le> (of_nat n :: u32) \<longleftrightarrow> unat k \<le> n"
  "n < 4294967296 \<Longrightarrow> (of_nat n :: u32) \<le> k \<longleftrightarrow> n \<le> unat k"
  "n < 4294967296 \<Longrightarrow> k < (of_nat n :: u32) \<longleftrightarrow> unat k < n"
  by (simp_all add: word_less_nat_alt word_le_nat_alt unat_of_nat_u32)

section \<open>Evaluating the loop on one encoded scalar value\<close>

lemma digit64: "y < 64 \<Longrightarrow> (a * 64 + y) div 64 = a" "y < 64 \<Longrightarrow> (a * 64 + y) mod 64 = (y::nat)"
  by simp_all

lemma byte_of_unat: "unat (b::byte) = n \<Longrightarrow> of_nat n = b"
  by auto

lemma split_lead:
  fixes b :: byte
  shows "unat b div 32 = 6 \<Longrightarrow> \<exists>x<32. unat b = 192 + x"
    "unat b div 16 = 14 \<Longrightarrow> \<exists>x<16. unat b = 224 + x"
    "unat b div 8 = 30 \<Longrightarrow> \<exists>x<8. unat b = 240 + x"
    "unat b div 64 = 2 \<Longrightarrow> \<exists>x<64. unat b = 128 + x"
  by presburger+

lemma utf8_encode_2:
  assumes "unat b = 192 + x" "unat c = 128 + y" "y < 64" "x < 32" "128 \<le> x * 64 + y"
  shows "utf8_encode (x * 64 + y) = [b, c]"
  using assms byte_of_unat [OF assms(1)] byte_of_unat [OF assms(2)]
  by (simp add: utf8_encode_def digit64)

lemma utf8_encode_3:
  assumes "unat b = 224 + x" "unat c = 128 + y" "unat d = 128 + z" "y < 64" "z < 64" "x < 16"
    "2048 \<le> (x * 64 + y) * 64 + z"
  shows "utf8_encode ((x * 64 + y) * 64 + z) = [b, c, d]"
proof -
  let ?cp = "(x * 64 + y) * 64 + z"
  have "?cp div 4096 = ?cp div 64 div 64" by (simp add: div_mult2_eq)
  then have "?cp div 4096 = x" by (simp only: digit64 assms)
  moreover have "?cp < 65536" using assms by simp
  ultimately show ?thesis
    using assms(7) byte_of_unat [OF assms(1)] byte_of_unat [OF assms(2)] byte_of_unat [OF assms(3)]
    unfolding utf8_encode_def by (simp only: digit64 assms(4,5)) simp
qed

lemma utf8_encode_4:
  assumes "unat b = 240 + x" "unat c = 128 + y" "unat d = 128 + z" "unat e = 128 + w"
    "y < 64" "z < 64" "w < 64" "x < 8" "65536 \<le> ((x * 64 + y) * 64 + z) * 64 + w"
  shows "utf8_encode (((x * 64 + y) * 64 + z) * 64 + w) = [b, c, d, e]"
proof -
  let ?cp = "((x * 64 + y) * 64 + z) * 64 + w"
  have "?cp div 4096 = ?cp div 64 div 64" "?cp div 262144 = ?cp div 64 div 64 div 64"
    by (simp_all add: div_mult2_eq)
  then have "?cp div 4096 = x * 64 + y" "?cp div 262144 = x" by (simp_all only: digit64 assms)
  then show ?thesis
    using assms(9) byte_of_unat [OF assms(1)] byte_of_unat [OF assms(2)] byte_of_unat [OF assms(3)]
      byte_of_unat [OF assms(4)]
    unfolding utf8_encode_def by (simp only: digit64 assms(5-7)) simp
qed

lemma digit: "x < m \<Longrightarrow> (k * m + x) div m = k \<and> (k * m + x) mod m = (x::nat)"
  by simp

lemmas lead_digit2 = digit [of _ 32 6, simplified]
lemmas lead_digit3 = digit [of _ 16 14, simplified] digit [of _ 32 7, simplified]
lemmas lead_digit4 = digit [of _ 8 30, simplified] digit [of _ 16 15, simplified] digit [of _ 32 7, simplified]
lemmas cont_digit = digit [of _ 64 2, simplified]

lemma utf8_loop_1: "unat b < 128 \<Longrightarrow> utf8_loop (b # rest) = utf8_loop rest"
  by (simp add: word_less_nat_alt)

lemma utf8_loop_2:
  assumes "unat b = 192 + x" "unat c = 128 + y" "y < 64" "x < 32"
  shows "utf8_loop (b # c # rest) \<longleftrightarrow> 128 \<le> x * 64 + y \<and> utf8_loop rest"
proof -
  have l: "utf8_lead b = Some (2, of_nat x)" "\<not> b < 0x80"
    using assms lead_digit2 by (simp_all add: utf8_lead_unat word_less_nat_alt)
  have "utf8_conts (of_nat x) [c] = Some (of_nat (x * 64 + y))"
    using assms cont_digit by (simp add: utf8_conts_unat)
  moreover have "x * 64 + y < 2048" using assms by simp
  ultimately show ?thesis
    using l by (simp add: u32_less_iff del: of_nat_add of_nat_mult)
qed

lemma utf8_loop_3:
  assumes "unat b = 224 + x" "unat c = 128 + y" "unat d = 128 + z" "y < 64" "z < 64" "x < 16"
  shows "utf8_loop (b # c # d # rest) \<longleftrightarrow>
    2048 \<le> (x * 64 + y) * 64 + z \<and> scalar_value ((x * 64 + y) * 64 + z) \<and> utf8_loop rest"
proof -
  have l: "utf8_lead b = Some (3, of_nat x)" "\<not> b < 0x80"
    using assms lead_digit3 by (simp_all add: utf8_lead_unat word_less_nat_alt)
  have "utf8_conts (of_nat x) [c, d] = Some (of_nat ((x * 64 + y) * 64 + z))"
    using assms cont_digit by (simp add: utf8_conts_unat del: of_nat_add of_nat_mult)
  moreover have "(x * 64 + y) * 64 + z < 65536" using assms by simp
  ultimately show ?thesis
    using l by (simp add: u32_less_iff scalar_value_def numeral_2_eq_2 [symmetric] del: of_nat_add of_nat_mult) linarith
qed

lemma utf8_loop_4:
  assumes "unat b = 240 + x" "unat c = 128 + y" "unat d = 128 + z" "unat e = 128 + w"
    "y < 64" "z < 64" "w < 64" "x < 8"
  shows "utf8_loop (b # c # d # e # rest) \<longleftrightarrow>
    65536 \<le> ((x * 64 + y) * 64 + z) * 64 + w \<and> scalar_value (((x * 64 + y) * 64 + z) * 64 + w) \<and> utf8_loop rest"
proof -
  have l: "utf8_lead b = Some (4, of_nat x)" "\<not> b < 0x80"
    using assms lead_digit4 by (simp_all add: utf8_lead_unat word_less_nat_alt)
  have "utf8_conts (of_nat x) [c, d, e] = Some (of_nat (((x * 64 + y) * 64 + z) * 64 + w))"
    using assms cont_digit by (simp add: utf8_conts_unat del: of_nat_add of_nat_mult)
  moreover have "((x * 64 + y) * 64 + z) * 64 + w < 2097152" using assms by simp
  ultimately show ?thesis
    using l by (simp add: u32_less_iff scalar_value_def numeral_3_eq_3 [symmetric] del: of_nat_add of_nat_mult)
qed

section \<open>The validator accepts exactly UTF-8\<close>

definition utf8_text :: "byte list \<Rightarrow> bool" where
  "utf8_text bs \<longleftrightarrow> (\<exists>cps. (\<forall>cp \<in> set cps. scalar_value cp) \<and> bs = concat (map utf8_encode cps))"

lemma utf8_text_Nil: "utf8_text []"
  unfolding utf8_text_def by (rule exI [of _ "[]"]) simp

lemma utf8_text_cons:
  "scalar_value cp \<Longrightarrow> utf8_text bs \<Longrightarrow> utf8_text (utf8_encode cp @ bs)"
  unfolding utf8_text_def
proof (elim exE conjE)
  fix cps
  assume "scalar_value cp" "\<forall>cp \<in> set cps. scalar_value cp" "bs = concat (map utf8_encode cps)"
  then show "\<exists>cps. (\<forall>cp \<in> set cps. scalar_value cp) \<and> utf8_encode cp @ bs = concat (map utf8_encode cps)"
    by (intro exI [of _ "cp # cps"]) simp
qed

lemma utf8_loop_encode:
  assumes "scalar_value cp"
  shows "utf8_loop (utf8_encode cp @ rest) = utf8_loop rest"
proof -
  define x where "x = cp div 64"
  define x2 where "x2 = x div 64"
  define x3 where "x3 = x2 div 64"
  have cp: "cp = x * 64 + cp mod 64" "x = x2 * 64 + x mod 64" "x2 = x3 * 64 + x2 mod 64"
    by (simp_all add: x_def x2_def x3_def)
  have d: "cp div 4096 = x2" "cp div 262144 = x3"
    by (simp_all add: x_def x2_def x3_def div_mult2_eq [symmetric])
  have le: "cp \<le> 0x10FFFF" using assms by (auto simp: scalar_value_def)
  consider "cp < 128" | "128 \<le> cp" "cp < 2048" | "2048 \<le> cp" "cp < 65536" | "65536 \<le> cp"
    by linarith
  then show ?thesis
  proof cases
    case 1
    then show ?thesis by (simp add: utf8_encode_def utf8_loop_1 unat_of_nat_byte del: utf8_loop.simps)
  next
    case 2
    then have "x < 32" by (simp add: x_def)
    with 2 show ?thesis
      using utf8_loop_2 [of "of_nat (192 + x)" x "of_nat (128 + cp mod 64)" "cp mod 64" rest] cp(1)
      by (simp add: utf8_encode_def x_def [symmetric] unat_of_nat_byte del: utf8_loop.simps of_nat_add)
  next
    case 3
    then have "x2 < 16" by (simp add: x_def x2_def)
    with 3 show ?thesis
      using utf8_loop_3 [of "of_nat (224 + x2)" x2 "of_nat (128 + x mod 64)" "x mod 64"
          "of_nat (128 + cp mod 64)" "cp mod 64" rest] cp(1,2) assms
      by (simp add: utf8_encode_def d x_def [symmetric] unat_of_nat_byte del: utf8_loop.simps of_nat_add)
  next
    case 4
    with le have "x3 < 8" by (simp add: x_def x2_def x3_def)
    with 4 show ?thesis
      using utf8_loop_4 [of "of_nat (240 + x3)" x3 "of_nat (128 + x2 mod 64)" "x2 mod 64"
          "of_nat (128 + x mod 64)" "x mod 64" "of_nat (128 + cp mod 64)" "cp mod 64" rest] cp assms
      by (simp add: utf8_encode_def d x_def [symmetric] unat_of_nat_byte del: utf8_loop.simps of_nat_add)
  qed
qed

lemma utf8_loop_complete: "utf8_text bs \<Longrightarrow> utf8_loop bs"
proof -
  assume "utf8_text bs"
  then obtain cps where "\<forall>cp \<in> set cps. scalar_value cp" and bs: "bs = concat (map utf8_encode cps)"
    by (auto simp: utf8_text_def)
  then have "utf8_loop (concat (map utf8_encode cps))"
    by (induction cps arbitrary: bs) (simp_all add: utf8_loop_encode)
  then show ?thesis by (simp add: bs)
qed
lemma utf8_conts_bytes:
  "utf8_conts cp cs = Some r \<Longrightarrow> c \<in> set cs \<Longrightarrow> unat c div 64 = 2"
  by (induction cs arbitrary: cp)
    (auto simp: utf8_conts.simps(2) drop_bit_eq_iff_unat split: if_splits)

lemma utf8_loop_lead:
  assumes "utf8_loop (b # rest)" "\<not> unat b < 128"
  obtains n cp where "utf8_lead b = Some (n, cp)" "n \<le> Suc (length rest)"
    "\<And>c. c \<in> set (take (n - 1) rest) \<Longrightarrow> unat c div 64 = 2"
proof -
  have nb: "\<not> b < 0x80" using assms(2) by (simp add: word_less_nat_alt)
  then obtain n cp where l: "utf8_lead b = Some (n, cp)"
    using assms(1) by (cases "utf8_lead b") auto
  have le: "n \<le> Suc (length rest)"
    using assms(1) nb l by (simp split: if_splits)
  then obtain cp' where "utf8_conts cp (take (n - 1) rest) = Some cp'"
    using assms(1) nb l by (cases "utf8_conts cp (take (n - 1) rest)") auto
  then show ?thesis using that l le utf8_conts_bytes by blast
qed

lemma two_more: "3 \<le> Suc (length xs) \<Longrightarrow> \<exists>c d r. xs = c # d # r"
  by (cases xs; cases "tl xs") auto

lemma three_more: "4 \<le> Suc (length xs) \<Longrightarrow> \<exists>c d e r. xs = c # d # e # r"
  by (cases xs; cases "tl xs"; cases "tl (tl xs)") auto

lemma utf8_seq_2:
  assumes "utf8_loop (b # c # r)" "unat b div 32 = 6" "unat c div 64 = 2"
  shows "\<exists>cp. scalar_value cp \<and> utf8_encode cp = [b, c] \<and> utf8_loop r"
proof -
  obtain x y where b: "unat b = 192 + x" "unat c = 128 + y" "y < 64" "x < 32"
    using split_lead(1) [OF assms(2)] split_lead(4) [OF assms(3)] by blast
  then have "128 \<le> x * 64 + y \<and> utf8_loop r" using assms(1) utf8_loop_2 by blast
  moreover have "scalar_value (x * 64 + y)" using b by (simp add: scalar_value_def)
  ultimately show ?thesis using utf8_encode_2 [OF b] by blast
qed

lemma utf8_seq_3:
  assumes "utf8_loop (b # c # d # r)" "unat b div 16 = 14" "unat c div 64 = 2" "unat d div 64 = 2"
  shows "\<exists>cp. scalar_value cp \<and> utf8_encode cp = [b, c, d] \<and> utf8_loop r"
proof -
  obtain x y z where b: "unat b = 224 + x" "unat c = 128 + y" "unat d = 128 + z" "y < 64" "z < 64" "x < 16"
    using split_lead(2) [OF assms(2)] split_lead(4) [OF assms(3)] split_lead(4) [OF assms(4)] by blast
  then show ?thesis using assms(1) utf8_loop_3 [OF b] utf8_encode_3 [OF b] by blast
qed

lemma utf8_seq_4:
  assumes "utf8_loop (b # c # d # e # r)" "unat b div 8 = 30" "unat c div 64 = 2" "unat d div 64 = 2"
    "unat e div 64 = 2"
  shows "\<exists>cp. scalar_value cp \<and> utf8_encode cp = [b, c, d, e] \<and> utf8_loop r"
proof -
  obtain x y z w where b: "unat b = 240 + x" "unat c = 128 + y" "unat d = 128 + z" "unat e = 128 + w"
    "y < 64" "z < 64" "w < 64" "x < 8"
    using split_lead(3) [OF assms(2)] split_lead(4) [OF assms(3)] split_lead(4) [OF assms(4)]
      split_lead(4) [OF assms(5)] by blast
  then show ?thesis using assms(1) utf8_loop_4 [OF b] utf8_encode_4 [OF b] by blast
qed

lemma utf8_loop_first:
  assumes "utf8_loop (b # rest)"
  shows "\<exists>cp r. scalar_value cp \<and> b # rest = utf8_encode cp @ r \<and> utf8_loop r \<and> length r \<le> length rest"
proof (cases "unat b < 128")
  case True
  then have "utf8_loop rest" "b # rest = utf8_encode (unat b) @ rest" "scalar_value (unat b)"
    using assms utf8_loop_1 by (auto simp: utf8_encode_def scalar_value_def simp del: utf8_loop.simps)
  then show ?thesis by blast
next
  case False
  with assms obtain n cp where n: "utf8_lead b = Some (n, cp)" "n \<le> Suc (length rest)"
    and cs: "\<And>c. c \<in> set (take (n - 1) rest) \<Longrightarrow> unat c div 64 = 2"
    using utf8_loop_lead by blast
  from n(1) consider "n = 2" "unat b div 32 = 6" | "n = 3" "unat b div 16 = 14" | "n = 4" "unat b div 8 = 30"
    by (auto simp: utf8_lead_unat split: if_splits)
  then show ?thesis
  proof cases
    case 1
    with n(2) obtain c r where r: "rest = c # r" by (cases rest) auto
    with 1 assms cs obtain cp where "scalar_value cp" "utf8_encode cp = [b, c]" "utf8_loop r"
      using utf8_seq_2 [of b c r] by auto
    then show ?thesis by (intro exI [of _ cp] exI [of _ r]) (simp add: r)
  next
    case 2
    with n(2) obtain c d r where r: "rest = c # d # r" using two_more by blast
    with 2 assms cs obtain cp where "scalar_value cp" "utf8_encode cp = [b, c, d]" "utf8_loop r"
      using utf8_seq_3 [of b c d r] by auto
    then show ?thesis by (intro exI [of _ cp] exI [of _ r]) (simp add: r)
  next
    case 3
    with n(2) obtain c d e r where r: "rest = c # d # e # r" using three_more by blast
    with 3 assms cs obtain cp where "scalar_value cp" "utf8_encode cp = [b, c, d, e]" "utf8_loop r"
      using utf8_seq_4 [of b c d e r] by (auto simp: numeral_3_eq_3)
    then show ?thesis by (intro exI [of _ cp] exI [of _ r]) (simp add: r)
  qed
qed

lemma utf8_loop_sound: "utf8_loop bs \<Longrightarrow> utf8_text bs"
proof (induction "length bs" arbitrary: bs rule: less_induct)
  case less
  show ?case
  proof (cases bs)
    case Nil
    then show ?thesis by (simp add: utf8_text_Nil)
  next
    case (Cons b rest)
    with less.prems obtain cp r where "scalar_value cp" "bs = utf8_encode cp @ r" "utf8_loop r"
      "length r \<le> length rest"
      using utf8_loop_first by blast
    moreover have "length bs = Suc (length rest)" by (simp add: Cons)
    ultimately have "length r < length bs" "scalar_value cp" "bs = utf8_encode cp @ r" "utf8_loop r"
      by simp_all
    then show ?thesis using less.hyps [of r] by (simp add: utf8_text_cons)
  qed
qed

lemma utf8_loop_iff: "utf8_loop bs \<longleftrightarrow> utf8_text bs"
  using utf8_loop_sound utf8_loop_complete by blast

text \<open>
  C39. The byte-level validator of \<open>src/common/Utils.hpp\<close> accepts a string exactly when it
  is not empty and its bytes are the UTF-8 encoding (RFC 3629) of a sequence of Unicode
  scalar values: no overlong form, no surrogate, nothing above U+10FFFF, no truncation.
\<close>

theorem is_valid_utf8_iff:
  "is_valid_utf8 s \<longleftrightarrow> s \<noteq> [] \<and>
     (\<exists>cps. (\<forall>cp \<in> set cps. scalar_value cp) \<and> bytes_of_string s = concat (map utf8_encode cps))"
  by (simp add: is_valid_utf8_def Let_def utf8_loop_iff utf8_text_def bytes_of_string_def)

text \<open>The two sides meet on a string with a two-byte character.\<close>

theorem is_valid_utf8_witness:
  "is_valid_utf8 [CHR ''h'', char_of_byte 0xC3, char_of_byte 0xA9]"
proof -
  let ?s = "[CHR ''h'', char_of_byte 0xC3, char_of_byte 0xA9]"
  have "byte_of_char (CHR ''h'') = 0x68" by (simp add: byte_of_char_def)
  then have "(\<forall>cp \<in> set [0x68, 0xE9]. scalar_value cp) \<and> bytes_of_string ?s = concat (map utf8_encode [0x68, 0xE9])"
    by (simp add: scalar_value_def utf8_encode_def)
  then show ?thesis using is_valid_utf8_iff [of ?s] by blast
qed

section \<open>Decimal numbers\<close>

lemma of_char_digit: "d < 10 \<Longrightarrow> (of_char (char_of (48 + d) :: char) :: nat) = 48 + d"
  by simp

lemma decimal_value_snoc: "decimal_value (ds @ [c]) = 10 * decimal_value ds + (of_char c - 48)"
  by (simp add: decimal_value_def)

lemma decimal_value_to_string: "decimal_value (to_string n) = n"
proof (induction n rule: to_string.induct)
  case (1 n)
  show ?case
  proof (cases "n < 10")
    case True
    then show ?thesis by (simp add: to_string.simps [of n] decimal_value_def)
  next
    case False
    then show ?thesis using 1 by (simp add: to_string.simps [of n] decimal_value_snoc)
  qed
qed

lemma to_string_digits: "c \<in> set (to_string n) \<Longrightarrow> is_digit c"
proof (induction n rule: to_string.induct)
  case (1 n)
  then show ?case
    by (cases "n < 10") (auto simp: to_string.simps [of n] is_digit_def)
qed

lemma to_string_not_Nil: "to_string n \<noteq> []"
  by (simp add: to_string.simps [of n])

lemma digit_not_space: "is_digit c \<Longrightarrow> \<not> is_space c"
  by (simp add: is_digit_def is_space_def)

lemma digit_not_sign: "is_digit c \<Longrightarrow> c \<noteq> CHR ''-'' \<and> c \<noteq> CHR ''+''"
  by (auto simp: is_digit_def)

lemma stoi_to_string:
  "stoi (to_string n) =
     (if n \<le> 2147483647 then Ret (int n, length (to_string n)) else Throw ''out_of_range'')"
proof -
  obtain c cs where s: "to_string n = c # cs" using to_string_not_Nil by (cases "to_string n") auto
  have d: "\<forall>x \<in> set (to_string n). is_digit x" using to_string_digits by blast
  then have c: "is_digit c" by (simp add: s)
  then have "takeWhile is_space (to_string n) = []" "dropWhile is_space (to_string n) = to_string n"
    "takeWhile (\<lambda>c. c = CHR ''-'' \<or> c = CHR ''+'') (take 1 (to_string n)) = []"
    using digit_not_space digit_not_sign by (auto simp: s)
  note prefix = this
  have tw: "takeWhile is_digit (to_string n) = to_string n"
    using d by (simp add: takeWhile_eq_all_conv)
  show ?thesis
    unfolding stoi_def Let_def prefix
    by (simp add: decimal_value_to_string to_string_not_Nil tw)
qed

lemma to_string_inject: "to_string m = to_string n \<longleftrightarrow> m = n"
  by (metis decimal_value_to_string)

lemma generate_client_id_distinct:
  "fst (generate_client_id c) = fst (generate_client_id d) \<longleftrightarrow>
     c = d \<or> {c, d} = {0, 0xFFFFFFFFFFFFFFFF}"
  by (auto simp: generate_client_id_def Let_def to_string_inject doubleton_eq_iff unat_eq_zero dest: word_unat_eq_iff [THEN iffD2])

end
