(* ===== verification/Packet_Model.thy ===== *)
theory Packet_Model
  imports Prelude
begin

text \<open>
  The data of \<open>include/jianm/model\<close>: quality-of-service levels, control packet types and
  bodies, messages, subscriptions and sessions. Record fields carry a short prefix because
  Isabelle's field names are global.
\<close>

section \<open>Quality of service\<close>

datatype Qos = AtMostOnce | AtLeastOnce | ExactlyOnce

text \<open>The enumerator's value, and \<open>static_cast<Qos>\<close> of a byte that a guard has checked or checks next.\<close>

fun qos_val :: "Qos \<Rightarrow> byte" where
  "qos_val AtMostOnce = 0"
| "qos_val AtLeastOnce = 1"
| "qos_val ExactlyOnce = 2"

definition qos_of :: "byte \<Rightarrow> Qos" where
  "qos_of b = (if b = 0 then AtMostOnce else if b = 1 then AtLeastOnce else ExactlyOnce)"

lemma qos_val_inj [simp]: "qos_val a = qos_val b \<longleftrightarrow> a = b"
  by (cases a; cases b) simp_all

text \<open>The enumeration is compared through its underlying \<open>uint8_t\<close>.\<close>

instantiation Qos :: linorder
begin

definition less_eq_Qos :: "Qos \<Rightarrow> Qos \<Rightarrow> bool" where
  "less_eq_Qos a b \<longleftrightarrow> qos_val a \<le> qos_val b"

definition less_Qos :: "Qos \<Rightarrow> Qos \<Rightarrow> bool" where
  "less_Qos a b \<longleftrightarrow> qos_val a < qos_val b"

instance
proof
  fix x y z :: Qos
  show "x < y \<longleftrightarrow> x \<le> y \<and> \<not> y \<le> x"
    unfolding less_eq_Qos_def less_Qos_def by (rule less_le_not_le)
  show "x \<le> x" by (simp add: less_eq_Qos_def)
  show "x \<le> y \<Longrightarrow> y \<le> z \<Longrightarrow> x \<le> z" by (simp add: less_eq_Qos_def)
  show "x \<le> y \<Longrightarrow> y \<le> x \<Longrightarrow> x = y"
    by (simp add: less_eq_Qos_def)
  show "x \<le> y \<or> y \<le> x" by (auto simp: less_eq_Qos_def)
qed

end

section \<open>Control packets\<close>

datatype PacketType =
    Connect | Connack | Publish | Puback | Pubrec | Pubrel | Pubcomp
  | Subscribe | Suback | Unsubscribe | Unsuback | Pingreq | Pingresp | Disconnect

fun packet_type_val :: "PacketType \<Rightarrow> nat" where
  "packet_type_val Connect = 1"
| "packet_type_val Connack = 2"
| "packet_type_val Publish = 3"
| "packet_type_val Puback = 4"
| "packet_type_val Pubrec = 5"
| "packet_type_val Pubrel = 6"
| "packet_type_val Pubcomp = 7"
| "packet_type_val Subscribe = 8"
| "packet_type_val Suback = 9"
| "packet_type_val Unsubscribe = 10"
| "packet_type_val Unsuback = 11"
| "packet_type_val Pingreq = 12"
| "packet_type_val Pingresp = 13"
| "packet_type_val Disconnect = 14"

text \<open>\<open>static_cast<PacketType>\<close>: \<open>None\<close> for the two numbers without an enumerator.\<close>

definition packet_type_of :: "nat \<Rightarrow> PacketType option" where
  "packet_type_of n =
     find (\<lambda>t. packet_type_val t = n)
       [Connect, Connack, Publish, Puback, Pubrec, Pubrel, Pubcomp,
        Subscribe, Suback, Unsubscribe, Unsuback, Pingreq, Pingresp, Disconnect]"

record ConnectPacket =
  cp_level :: byte
  cp_protocol :: string
  cp_client_id :: string
  cp_username :: string
  cp_password :: string
  cp_will_topic :: string
  cp_will_payload :: string
  cp_will_qos :: Qos
  cp_will_retain :: bool
  cp_has_will :: bool
  cp_clean_session :: bool
  cp_keepalive :: u16
  cp_byte :: byte

text \<open>The bit-fields of \<open>ConnectFlags\<close>, least significant bit first.\<close>

definition flag_reserved :: "byte \<Rightarrow> bool" where "flag_reserved b = bit b 0"
definition flag_clean_session :: "byte \<Rightarrow> bool" where "flag_clean_session b = bit b 1"
definition flag_will :: "byte \<Rightarrow> bool" where "flag_will b = bit b 2"
definition flag_will_qos :: "byte \<Rightarrow> byte" where "flag_will_qos b = take_bit 2 (drop_bit 3 b)"
definition flag_will_retain :: "byte \<Rightarrow> bool" where "flag_will_retain b = bit b 5"
definition flag_password :: "byte \<Rightarrow> bool" where "flag_password b = bit b 6"
definition flag_username :: "byte \<Rightarrow> bool" where "flag_username b = bit b 7"

datatype ConnackReturnCode =
  accepted | bad_protocol_version | id_rejected | server_unavailable | bad_username_password | not_authorized

fun return_code_val :: "ConnackReturnCode \<Rightarrow> byte" where
  "return_code_val accepted = 0"
| "return_code_val bad_protocol_version = 1"
| "return_code_val id_rejected = 2"
| "return_code_val server_unavailable = 3"
| "return_code_val bad_username_password = 4"
| "return_code_val not_authorized = 5"

record ConnackPacket =
  ca_session_present :: bool
  ca_return_code :: ConnackReturnCode

record PublishPacket =
  pub_topic :: string
  pub_payload :: string
  pub_qos :: Qos
  pub_retain :: bool
  pub_dup :: bool
  pub_packet_id :: u16
  pub_source_client :: string

record SubscribeEntry =
  se_filter :: string
  se_qos :: Qos

record SubscribePacket =
  sub_packet_id :: u16
  sub_entries :: "SubscribeEntry list"

record SubackPacket =
  sa_packet_id :: u16
  sa_granted :: "byte list"

record UnsubscribePacket =
  unsub_packet_id :: u16
  unsub_topics :: "string list"

record AckPacket =
  ack_packet_id :: u16

datatype PacketBody =
    ConnectBody ConnectPacket
  | ConnackBody ConnackPacket
  | PublishBody PublishPacket
  | SubscribeBody SubscribePacket
  | SubackBody SubackPacket
  | UnsubscribeBody UnsubscribePacket
  | AckBody AckPacket
  | EmptyBody

record Packet =
  pkt_type :: PacketType
  pkt_body :: PacketBody

text \<open>The bit-fields of the fixed header byte (union \<open>Header\<close>), least significant bit first.\<close>

definition header_retain :: "byte \<Rightarrow> bool" where "header_retain b = bit b 0"
definition header_qos :: "byte \<Rightarrow> byte" where "header_qos b = take_bit 2 (drop_bit 1 b)"
definition header_dup :: "byte \<Rightarrow> bool" where "header_dup b = bit b 3"
definition header_type :: "byte \<Rightarrow> nat" where "header_type b = unat (drop_bit 4 b)"

definition make_header :: "nat \<Rightarrow> bool \<Rightarrow> byte \<Rightarrow> bool \<Rightarrow> byte" where
  "make_header ty dup qos retain =
     push_bit 4 (of_nat ty) OR push_bit 3 (of_bool dup) OR push_bit 1 (take_bit 2 qos) OR of_bool retain"

section \<open>Messages, subscriptions, sessions\<close>

record Message =
  m_topic :: string
  m_payload :: string
  m_qos :: Qos
  m_retain :: bool
  m_source_client :: string

record Subscription =
  sb_filter :: string
  sb_qos :: Qos

record Session =
  s_client_id :: string
  s_clean_session :: bool
  s_subscriptions :: "Subscription list"

section \<open>Laws of the enumerations and bit-fields\<close>

lemma qos_of_qos_val [simp]: "qos_of (qos_val q) = q"
  by (cases q) (simp_all add: qos_of_def)

lemma byte_less_3: "(b :: byte) < 3 \<longleftrightarrow> b = 0 \<or> b = 1 \<or> b = 2"
proof -
  have "unat b < 3 \<longleftrightarrow> unat b = 0 \<or> unat b = 1 \<or> unat b = 2" by linarith
  then show ?thesis by (simp add: word_less_nat_alt word_unat_eq_iff)
qed

lemma qos_val_qos_of: "b < 3 \<Longrightarrow> qos_val (qos_of b) = b"
  by (auto simp: byte_less_3 qos_of_def)

lemma qos_val_less: "qos_val q < 3"
  by (cases q) (simp_all add: byte_less_3)

lemma take_bit_qos_val [simp]: "take_bit 2 (qos_val q) = qos_val q"
  by (cases q) simp_all

lemma Qos_less_iff [simp]:
  "AtMostOnce < q \<longleftrightarrow> q \<noteq> AtMostOnce"
  "\<not> q < AtMostOnce"
  "AtMostOnce \<le> q"
  "q \<le> ExactlyOnce"
  by (cases q; simp add: less_Qos_def less_eq_Qos_def word_less_nat_alt word_le_nat_alt)+

lemma packet_type_of_val [simp]: "packet_type_of (packet_type_val t) = Some t"
  by (cases t) (simp_all add: packet_type_of_def)

lemma packet_type_of_Some: "packet_type_of n = Some t \<Longrightarrow> packet_type_val t = n"
  unfolding packet_type_of_def find_Some_iff by blast

lemma packet_type_val_less: "packet_type_val t < 16"
  by (cases t) simp_all

lemma make_header_type: "ty < 16 \<Longrightarrow> header_type (make_header ty dup qos retain) = ty"
proof -
  assume ty: "ty < 16"
  have "drop_bit 4 (make_header ty dup qos retain) = take_bit 4 (of_nat ty)"
    by (rule bit_word_eqI) (auto simp: make_header_def bit_simps simp del: push_bit_Suc)
  then show ?thesis
    using ty by (simp add: header_type_def unsigned_take_bit_eq unat_of_nat_byte take_bit_nat_eq_self)
qed

lemma make_header_dup: "header_dup (make_header ty dup qos retain) = dup"
  by (simp add: header_dup_def make_header_def bit_simps del: push_bit_Suc)

lemma make_header_retain: "header_retain (make_header ty dup qos retain) = retain"
  by (simp add: header_retain_def make_header_def bit_simps del: push_bit_Suc)

lemma make_header_qos: "header_qos (make_header ty dup qos retain) = take_bit 2 qos"
  by (rule bit_word_eqI) (auto simp: header_qos_def make_header_def bit_simps simp del: push_bit_Suc)

end
