(* ===== verification/Topic.thy ===== *)
theory Topic
  imports Packet_Model
begin

text \<open>
  Topic names and topic filters, \<open>include/jianm/model/Topic.hpp\<close>. A topic is split into
  levels at \<open>/\<close>; filters are validated and matched on the levels.
\<close>

section \<open>Definitions\<close>

text \<open>The loop of \<open>splitTopic\<close>; its argument is the part of the topic from \<open>start\<close> on.\<close>

function splitTopic_loop :: "string \<Rightarrow> string list" where
  "splitTopic_loop s =
     (case dropWhile (\<lambda>c. c \<noteq> CHR ''/'') s of
        [] \<Rightarrow> [s]
      | _ # rest \<Rightarrow> takeWhile (\<lambda>c. c \<noteq> CHR ''/'') s # splitTopic_loop rest)"
  by pat_completeness auto
termination
proof (relation "measure length")
  fix s x rest
  assume "dropWhile (\<lambda>c. c \<noteq> CHR ''/'') s = x # rest"
  then have "Suc (length rest) \<le> length s" by (metis length_Cons length_dropWhile_le)
  then show "(rest, s) \<in> measure length" by simp
qed simp

declare splitTopic_loop.simps [simp del]

definition splitTopic :: "string \<Rightarrow> string list" where
  "splitTopic topic = (if topic = [] then [''''] else splitTopic_loop topic)"

definition isTopicNameInvalid :: "string \<Rightarrow> bool" where
  "isTopicNameInvalid topic =
     (if topic = [] then True else list_ex (\<lambda>c. c = CHR ''+'' \<or> c = CHR ''#'') topic)"

text \<open>The loop of \<open>isTopicFilterInvalid\<close> over the tokens from index \<open>i\<close> on.\<close>

fun filter_loop :: "string list \<Rightarrow> bool" where
  "filter_loop [] = False"
| "filter_loop (t # toks) =
     (if t = ''#'' then (if toks \<noteq> [] then True else filter_loop toks)
      else if t = ''+'' then filter_loop toks
      else if list_ex (\<lambda>c. c = CHR ''+'' \<or> c = CHR ''#'') t then True
      else filter_loop toks)"

definition isTopicFilterInvalid :: "string \<Rightarrow> bool" where
  "isTopicFilterInvalid filter_s = (if filter_s = [] then True else filter_loop (splitTopic filter_s))"

text \<open>\<open>matchTokens(filters, topics, fi, ti)\<close> on the suffixes from \<open>fi\<close> and \<open>ti\<close> on.\<close>

fun matchTokens :: "string list \<Rightarrow> string list \<Rightarrow> bool" where
  "matchTokens [] topics = (topics = [])"
| "matchTokens (f # filters) topics =
     (if f = ''#'' then True
      else if f = ''+'' then
        (case topics of [] \<Rightarrow> False | _ # topics' \<Rightarrow> matchTokens filters topics')
      else
        (case topics of [] \<Rightarrow> False
         | t # topics' \<Rightarrow> if f \<noteq> t then False else matchTokens filters topics'))"

definition isTopicMatchesFilter :: "string \<Rightarrow> string \<Rightarrow> bool" where
  "isTopicMatchesFilter filter_s topic = matchTokens (splitTopic filter_s) (splitTopic topic)"

text \<open>
  The specification the two are compared with: levels joined by \<open>/\<close>, and MQTT's reading of
  a filter, where \<open>+\<close> stands for one level and a final \<open>#\<close> for any number of levels.
\<close>

fun join_levels :: "string list \<Rightarrow> string" where
  "join_levels [] = []"
| "join_levels [t] = t"
| "join_levels (t # u # ts) = t @ ''/'' @ join_levels (u # ts)"

definition level_matches :: "string \<Rightarrow> string \<Rightarrow> bool" where
  "level_matches f t \<longleftrightarrow> f = ''+'' \<or> f = t"

definition mqtt_matches :: "string list \<Rightarrow> string list \<Rightarrow> bool" where
  "mqtt_matches fs ts \<longleftrightarrow>
     (if fs \<noteq> [] \<and> last fs = ''#''
      then length (butlast fs) \<le> length ts \<and> list_all2 level_matches (butlast fs) (take (length (butlast fs)) ts)
      else list_all2 level_matches fs ts)"

definition plain_level :: "string \<Rightarrow> bool" where
  "plain_level t \<longleftrightarrow> (\<forall>c \<in> set t. c \<noteq> CHR ''+'' \<and> c \<noteq> CHR ''#'')"

definition valid_levels :: "string list \<Rightarrow> bool" where
  "valid_levels fs \<longleftrightarrow>
     (\<forall>f \<in> set (butlast fs). f = ''+'' \<or> plain_level f) \<and>
     (fs \<noteq> [] \<longrightarrow> last fs = ''#'' \<or> last fs = ''+'' \<or> plain_level (last fs))"

section \<open>Splitting\<close>

lemma splitTopic_loop_not_Nil [simp]: "splitTopic_loop s \<noteq> []"
  by (subst splitTopic_loop.simps) (simp split: list.split)

lemma splitTopic_not_Nil [simp]: "splitTopic s \<noteq> []"
  by (simp add: splitTopic_def)

lemma join_levels_Cons: "ts \<noteq> [] \<Longrightarrow> join_levels (t # ts) = t @ ''/'' @ join_levels ts"
  by (cases ts) simp_all

lemma splitTopic_loop_plain: "CHR ''/'' \<notin> set t \<Longrightarrow> splitTopic_loop t = [t]"
proof -
  assume "CHR ''/'' \<notin> set t"
  then have d: "dropWhile (\<lambda>c. c \<noteq> CHR ''/'') t = []" by (auto simp: dropWhile_eq_Nil_conv)
  show ?thesis by (subst splitTopic_loop.simps) (simp only: d list.case)
qed

lemma splitTopic_loop_slash:
  "CHR ''/'' \<notin> set t \<Longrightarrow> splitTopic_loop (t @ CHR ''/'' # rest) = t # splitTopic_loop rest"
proof -
  assume t: "CHR ''/'' \<notin> set t"
  then have "\<forall>c \<in> set t. c \<noteq> CHR ''/''" by blast
  then have "dropWhile (\<lambda>c. c \<noteq> CHR ''/'') (t @ CHR ''/'' # rest) = CHR ''/'' # rest"
    "takeWhile (\<lambda>c. c \<noteq> CHR ''/'') (t @ CHR ''/'' # rest) = t"
    by (simp_all add: dropWhile_append2 takeWhile_append2)
  then show ?thesis by (subst splitTopic_loop.simps) simp
qed

lemma slash_induct [case_names plain slash]:
  assumes plain: "\<And>s. CHR ''/'' \<notin> set s \<Longrightarrow> P s"
    and slash: "\<And>t rest. CHR ''/'' \<notin> set t \<Longrightarrow> P rest \<Longrightarrow> P (t @ CHR ''/'' # rest)"
  shows "P s"
proof (induction "length s" arbitrary: s rule: less_induct)
  case less
  show ?case
  proof (cases "CHR ''/'' \<in> set s")
    case True
    then obtain t rest where s: "s = t @ CHR ''/'' # rest" "CHR ''/'' \<notin> set t"
      using split_list_first by metis
    then have "P rest" by (intro less) simp
    then show ?thesis using s slash by simp
  next
    case False
    then show ?thesis by (rule plain)
  qed
qed

lemma join_splitTopic_loop: "join_levels (splitTopic_loop s) = s"
  by (induction s rule: slash_induct)
    (simp_all add: splitTopic_loop_plain splitTopic_loop_slash join_levels_Cons)

lemma splitTopic_loop_levels: "t \<in> set (splitTopic_loop s) \<Longrightarrow> CHR ''/'' \<notin> set t \<and> set t \<subseteq> set s"
  by (induction s rule: slash_induct) (auto simp: splitTopic_loop_plain splitTopic_loop_slash)

lemma splitTopic_loop_join:
  "ts \<noteq> [] \<Longrightarrow> \<forall>t \<in> set ts. CHR ''/'' \<notin> set t \<Longrightarrow> splitTopic_loop (join_levels ts) = ts"
proof (induction ts rule: join_levels.induct)
  case (3 t u ts)
  then show ?case using splitTopic_loop_slash [of t "join_levels (u # ts)"] by simp
qed (simp_all add: splitTopic_loop_plain)

text \<open>
  Splitting a topic into levels is faithful: joining the levels with \<open>/\<close> gives the
  topic back, no level contains a \<open>/\<close>, and any non-empty list of levels without a \<open>/\<close> is
  what its joined form splits into.
\<close>

lemma splitTopic_levels:
  "join_levels (splitTopic s) = s
   \<and> (\<forall>t. t \<in> set (splitTopic s) \<longrightarrow> CHR ''/'' \<notin> set t)
   \<and> (ts \<noteq> [] \<and> (\<forall>t. t \<in> set ts \<longrightarrow> CHR ''/'' \<notin> set t) \<longrightarrow> splitTopic (join_levels ts) = ts)"
proof -
  have e: "splitTopic s = splitTopic_loop s" for s
    by (simp add: splitTopic_def splitTopic_loop_plain)
  show ?thesis unfolding e
    using join_splitTopic_loop splitTopic_loop_levels splitTopic_loop_join by blast
qed

lemma splitTopic_levels_instance:
  "splitTopic (join_levels [''a'', '''', ''b'']) = [''a'', '''', ''b'']"
  using splitTopic_levels [of "''a//b''" "[''a'', '''', ''b'']"] by simp

section \<open>Validation\<close>

lemma list_ex_wild: "list_ex (\<lambda>c. c = CHR ''+'' \<or> c = CHR ''#'') t \<longleftrightarrow> \<not> plain_level t"
  by (auto simp: plain_level_def list_ex_iff)

lemma not_plain_level [simp]: "\<not> plain_level ''#''" "\<not> plain_level ''+''"
  by (simp_all add: plain_level_def)

lemma filter_loop_iff: "filter_loop fs \<longleftrightarrow> \<not> valid_levels fs"
proof (induction fs)
  case Nil
  then show ?case by (simp add: valid_levels_def)
next
  case (Cons t fs)
  then show ?case by (cases fs) (auto simp: valid_levels_def list_ex_wild)
qed

lemma isTopicFilterInvalid_iff:
  "isTopicFilterInvalid f \<longleftrightarrow> f = [] \<or> \<not> valid_levels (splitTopic f)"
  by (simp add: isTopicFilterInvalid_def filter_loop_iff)

lemma isTopicNameInvalid_iff: "isTopicNameInvalid t \<longleftrightarrow> t = [] \<or> \<not> plain_level t"
  by (simp add: isTopicNameInvalid_def list_ex_wild)

lemma splitTopic_eq_loop: "splitTopic s = splitTopic_loop s"
  by (simp add: splitTopic_def splitTopic_loop_plain)

lemma topic_name_levels:
  "\<not> isTopicNameInvalid topic \<Longrightarrow> t \<in> set (splitTopic topic) \<Longrightarrow> plain_level t"
  using splitTopic_loop_levels [of t topic]
  by (auto simp: isTopicNameInvalid_iff plain_level_def splitTopic_eq_loop)

section \<open>Matching\<close>

lemma matchTokens_no_hash: "''#'' \<notin> set fs \<Longrightarrow> matchTokens fs ts \<longleftrightarrow> list_all2 level_matches fs ts"
proof (induction fs ts rule: matchTokens.induct)
  case (2 f filters topics)
  then show ?case by (cases topics) (auto simp: level_matches_def)
qed simp

lemma matchTokens_hash:
  "''#'' \<notin> set fs \<Longrightarrow> matchTokens (fs @ [''#'']) ts \<longleftrightarrow>
     length fs \<le> length ts \<and> list_all2 level_matches fs (take (length fs) ts)"
proof (induction fs arbitrary: ts)
  case (Cons f fs)
  then show ?case by (cases ts) (auto simp: level_matches_def)
qed simp

lemma valid_levels_hash:
  assumes "valid_levels fs"
  shows "''#'' \<notin> set (butlast fs)"
  using assms by (auto simp: valid_levels_def)

lemma matchTokens_iff: "valid_levels fs \<Longrightarrow> matchTokens fs ts \<longleftrightarrow> mqtt_matches fs ts"
proof (cases "fs \<noteq> [] \<and> last fs = ''#''")
  case True
  assume v: "valid_levels fs"
  from True have "fs = butlast fs @ [''#'']" by (metis append_butlast_last_id)
  then show ?thesis
    using matchTokens_hash [OF valid_levels_hash [OF v], of ts] True by (simp add: mqtt_matches_def)
next
  case False
  assume v: "valid_levels fs"
  then have "''#'' \<notin> set fs"
  proof (cases fs rule: rev_cases)
    case (snoc ys y)
    then show ?thesis using valid_levels_hash [OF v] False by auto
  qed simp
  then show ?thesis using matchTokens_no_hash False by (auto simp: mqtt_matches_def)
qed

text \<open>
  C23. A filter that passes validation has \<open>#\<close> only as its last level and no wildcard inside
  a level, and then \<open>isTopicMatchesFilter\<close> is MQTT's matching: \<open>+\<close> matches exactly one
  level, a final \<open>#\<close> the parent and any number of further levels, any other level itself.
\<close>

theorem isTopicMatchesFilter_correct:
  assumes "\<not> isTopicFilterInvalid f"
  shows "valid_levels (splitTopic f)
    \<and> (isTopicMatchesFilter f topic \<longleftrightarrow> mqtt_matches (splitTopic f) (splitTopic topic))"
  using assms by (simp add: isTopicFilterInvalid_iff isTopicMatchesFilter_def matchTokens_iff)

theorem isTopicMatchesFilter_witness:
  "\<not> isTopicFilterInvalid ''a/+/#'' \<and> mqtt_matches (splitTopic ''a/+/#'') (splitTopic ''a/b'')"
proof -
  have v: "\<not> isTopicFilterInvalid ''a/+/#''"
    by (simp add: isTopicFilterInvalid_def splitTopic_def splitTopic_loop.simps)
  moreover have "isTopicMatchesFilter ''a/+/#'' ''a/b''"
    by (simp add: isTopicMatchesFilter_def splitTopic_def splitTopic_loop.simps)
  ultimately show ?thesis using isTopicMatchesFilter_correct [OF v] by blast
qed

end
