(* ===== verification/TopicTree.thy ===== *)
theory TopicTree
  imports Topic
begin

text \<open>
  The subscription index, \<open>src/broker/TopicTree.hpp\<close> and \<open>.cpp\<close>: a trie over topic levels
  whose nodes carry the subscribers of the filter that ends there. A session is named by its
  address; \<open>weak_ptr::lock\<close> of an expired session never equals a live session, so comparing
  the locked pointers of \<open>add\<close> and \<open>remove\<close> is comparing addresses (addresses are not reused
  in the model). Child maps are only ever searched, never iterated.
\<close>

section \<open>Definitions\<close>

type_synonym session_ref = nat

record Match =
  mt_session :: session_ref
  mt_filter :: string
  mt_qos :: Qos

datatype Node = Node (children: "string \<Rightarrow> Node option") (subscribers: "Match list")

definition empty_node :: Node where
  "empty_node = Node (\<lambda>_. None) []"

definition same_sub :: "session_ref \<Rightarrow> string \<Rightarrow> Match \<Rightarrow> bool" where
  "same_sub s f m \<longleftrightarrow> mt_session m = s \<and> mt_filter m = f"

text \<open>The end of \<open>add\<close>: update the QoS of the same (session, filter), or append a subscriber.\<close>

fun upsert :: "session_ref \<Rightarrow> string \<Rightarrow> Qos \<Rightarrow> Match list \<Rightarrow> Match list" where
  "upsert s f q [] = [\<lparr>mt_session = s, mt_filter = f, mt_qos = q\<rparr>]"
| "upsert s f q (m # ms) =
     (if same_sub s f m then m\<lparr>mt_qos := q\<rparr> # ms else m # upsert s f q ms)"

text \<open>The descent of \<open>add\<close>, which creates missing nodes, and of \<open>remove\<close>, which does not.\<close>

fun tree_add :: "string list \<Rightarrow> session_ref \<Rightarrow> string \<Rightarrow> Qos \<Rightarrow> Node \<Rightarrow> Node" where
  "tree_add [] s f q (Node ch subs) = Node ch (upsert s f q subs)"
| "tree_add (token # tokens) s f q (Node ch subs) =
     (let node = (case ch token of None \<Rightarrow> empty_node | Some n \<Rightarrow> n)
      in Node (ch(token \<mapsto> tree_add tokens s f q node)) subs)"

fun tree_remove :: "string list \<Rightarrow> session_ref \<Rightarrow> string \<Rightarrow> Node \<Rightarrow> Node" where
  "tree_remove [] s f (Node ch subs) =
     Node ch (filter (\<lambda>m. \<not> same_sub s f m) subs)"
| "tree_remove (token # tokens) s f (Node ch subs) =
     (case ch token of
        None \<Rightarrow> Node ch subs
      | Some n \<Rightarrow> Node (ch(token \<mapsto> tree_remove tokens s f n)) subs)"

definition topic_add :: "Node \<Rightarrow> session_ref \<Rightarrow> string \<Rightarrow> Qos \<Rightarrow> Node" where
  "topic_add root s f q = tree_add (splitTopic f) s f q root"

definition topic_remove :: "Node \<Rightarrow> session_ref \<Rightarrow> string \<Rightarrow> Node" where
  "topic_remove root s f = tree_remove (splitTopic f) s f root"

definition child_subscribers :: "(string \<Rightarrow> Node option) \<Rightarrow> string \<Rightarrow> Match list" where
  "child_subscribers ch token = (case ch token of None \<Rightarrow> [] | Some n \<Rightarrow> subscribers n)"

text \<open>\<open>collect(node, tokens, idx, out)\<close> on the tokens from \<open>idx\<close> on; the result is what it appends to \<open>out\<close>.\<close>

fun collect :: "Node \<Rightarrow> string list \<Rightarrow> Match list" where
  "collect (Node ch subs) [] = subs @ child_subscribers ch ''#''"
| "collect (Node ch subs) (token # tokens) =
     child_subscribers ch ''#''
     @ (case ch ''+'' of None \<Rightarrow> [] | Some n \<Rightarrow> collect n tokens)
     @ (case ch token of None \<Rightarrow> [] | Some n \<Rightarrow> collect n tokens)"

definition topic_match :: "Node \<Rightarrow> string \<Rightarrow> Match list" where
  "topic_match root topic = collect root (splitTopic topic)"

text \<open>
  The abstraction: the subscribers stored under a path of levels, and the subscriptions of a
  tree as a partial function from (session, filter) to the granted QoS.
\<close>

fun subs_at :: "Node \<Rightarrow> string list \<Rightarrow> Match list" where
  "subs_at (Node ch subs) [] = subs"
| "subs_at (Node ch subs) (token # tokens) =
     (case ch token of None \<Rightarrow> [] | Some n \<Rightarrow> subs_at n tokens)"

definition match_key :: "Match \<Rightarrow> session_ref \<times> string" where
  "match_key m = (mt_session m, mt_filter m)"

fun lookup_key :: "Match list \<Rightarrow> session_ref \<times> string \<Rightarrow> Qos option" where
  "lookup_key [] k = None"
| "lookup_key (m # ms) k = (if match_key m = k then Some (mt_qos m) else lookup_key ms k)"

definition subscription :: "Node \<Rightarrow> session_ref \<Rightarrow> string \<Rightarrow> Qos option" where
  "subscription root s f = lookup_key (subs_at root (splitTopic f)) (s, f)"

text \<open>
  The invariant: a subscriber is stored under the levels of its own filter, each (session,
  filter) at most once, and only validated filters are stored.
\<close>

definition tree_inv :: "Node \<Rightarrow> bool" where
  "tree_inv root \<longleftrightarrow>
     (\<forall>p. distinct (map match_key (subs_at root p)) \<and>
          (\<forall>m \<in> set (subs_at root p). splitTopic (mt_filter m) = p \<and> valid_levels p))"

section \<open>Paths\<close>

lemma subs_at_empty [simp]: "subs_at empty_node p = []"
  by (cases p) (simp_all add: empty_node_def)

lemma subs_at_tree_add:
  "subs_at (tree_add p s f q n) p' = (if p' = p then upsert s f q (subs_at n p) else subs_at n p')"
proof (induction p s f q n arbitrary: p' rule: tree_add.induct)
  case (1 s f q ch subs)
  then show ?case by (cases p') auto
next
  case (2 token tokens s f q ch subs)
  then show ?case by (cases p') (auto simp: Let_def split: option.splits)
qed

lemma subs_at_tree_remove:
  "subs_at (tree_remove p s f n) p' =
     (if p' = p then filter (\<lambda>m. \<not> same_sub s f m) (subs_at n p) else subs_at n p')"
proof (induction p s f n arbitrary: p' rule: tree_remove.induct)
  case (1 s f ch subs)
  then show ?case by (cases p') auto
next
  case (2 token tokens s f ch subs)
  then show ?case by (cases p') (auto split: option.splits)
qed

lemma keys_upsert:
  "map match_key (upsert s f q ms) =
     (if (s, f) \<in> set (map match_key ms) then map match_key ms else map match_key ms @ [(s, f)])"
  by (induction ms) (auto simp: match_key_def same_sub_def)

lemma lookup_upsert: "lookup_key (upsert s f q ms) k = (if k = (s, f) then Some q else lookup_key ms k)"
  by (induction ms) (auto simp: match_key_def same_sub_def)

lemma lookup_remove:
  "lookup_key (filter (\<lambda>m. \<not> same_sub s f m) ms) k =
     (if k = (s, f) then None else lookup_key ms k)"
  by (induction ms) (auto simp: match_key_def same_sub_def)

lemma upsert_filters: "m \<in> set (upsert s f q ms) \<Longrightarrow> mt_filter m = f \<or> mt_filter m \<in> mt_filter ` set ms"
  by (induction ms) (auto split: if_splits)

lemma Match_eqI:
  "mt_session a = mt_session b \<Longrightarrow> mt_filter a = mt_filter b \<Longrightarrow> mt_qos a = mt_qos b \<Longrightarrow> (a :: Match) = b"
  by (simp add: Match.equality)

lemma lookup_key_iff:
  "distinct (map match_key ms) \<Longrightarrow> lookup_key ms k = Some q \<longleftrightarrow> (\<exists>m \<in> set ms. match_key m = k \<and> mt_qos m = q)"
  by (induction ms) (auto simp: image_iff)

section \<open>The invariant\<close>

lemma tree_inv_empty: "tree_inv empty_node"
  by (simp add: tree_inv_def)

lemma tree_inv_add: "tree_inv n \<Longrightarrow> \<not> isTopicFilterInvalid f \<Longrightarrow> tree_inv (topic_add n s f q)"
proof -
  assume inv: "tree_inv n" and f: "\<not> isTopicFilterInvalid f"
  have "distinct (map match_key (upsert s f q (subs_at n (splitTopic f))))"
    using inv by (simp add: keys_upsert tree_inv_def)
  moreover have "splitTopic (mt_filter m) = splitTopic f \<and> valid_levels (splitTopic f)"
    if "m \<in> set (upsert s f q (subs_at n (splitTopic f)))" for m
    using upsert_filters [OF that] inv f by (auto simp: tree_inv_def isTopicFilterInvalid_iff)
  ultimately show ?thesis
    using inv by (auto simp: tree_inv_def topic_add_def subs_at_tree_add)
qed

lemma tree_inv_remove: "tree_inv n \<Longrightarrow> tree_inv (topic_remove n s f)"
  by (auto simp: tree_inv_def topic_remove_def subs_at_tree_remove distinct_map_filter)

lemma subscription_empty: "subscription empty_node s f = None"
  by (simp add: subscription_def)

lemma subscription_add:
  "subscription (topic_add n s f q) s' f' = (if s' = s \<and> f' = f then Some q else subscription n s' f')"
  by (auto simp: subscription_def topic_add_def subs_at_tree_add lookup_upsert)

lemma subscription_remove:
  "subscription (topic_remove n s f) s' f' = (if s' = s \<and> f' = f then None else subscription n s' f')"
  by (simp add: subscription_def topic_remove_def subs_at_tree_remove lookup_remove)

section \<open>Collecting\<close>

text \<open>
  The paths that \<open>collect\<close> visits for given topic levels, in its order. Collecting is
  concatenating what is stored under them.
\<close>

fun match_paths :: "string list \<Rightarrow> string list list" where
  "match_paths [] = [[], [''#'']]"
| "match_paths (t # ts) = [[''#'']] @ map (Cons ''+'') (match_paths ts) @ map (Cons t) (match_paths ts)"

lemma subs_at_Nil [simp]: "subs_at n [] = subscribers n"
  by (cases n) simp

lemma child_subscribers_subs_at: "child_subscribers ch t = subs_at (Node ch subs) [t]"
  by (simp add: child_subscribers_def split: option.split)

lemma collect_paths: "collect n ts = concat (map (subs_at n) (match_paths ts))"
proof (induction n ts rule: collect.induct)
  case (1 ch subs)
  then show ?case by (simp add: child_subscribers_subs_at [of ch _ subs])
next
  case (2 ch subs token tokens)
  have "(case ch t of None \<Rightarrow> [] | Some n \<Rightarrow> collect n tokens) =
      concat (map (subs_at (Node ch subs)) (map (Cons t) (match_paths tokens)))"
    if "t = ''+'' \<or> t = token" for t
    using that 2 by (cases "ch t") (auto simp: o_def)
  from this [of "''+''"] this [of token] show ?case
    by (simp add: child_subscribers_subs_at [of ch _ subs])
qed

definition hash_last :: "string list \<Rightarrow> bool" where
  "hash_last p \<longleftrightarrow> ''#'' \<notin> set (butlast p)"

lemma hash_last_Cons: "hash_last (x # p) \<longleftrightarrow> p = [] \<or> (x \<noteq> ''#'' \<and> hash_last p)"
  by (auto simp: hash_last_def)

lemma match_paths_iff:
  "\<forall>t \<in> set ts. plain_level t \<Longrightarrow> p \<in> set (match_paths ts) \<longleftrightarrow> matchTokens p ts \<and> hash_last p"
proof (induction ts arbitrary: p)
  case Nil
  then show ?case by (cases p) (auto simp: hash_last_Cons hash_last_def)
next
  case (Cons t ts)
  then have t: "t \<noteq> ''#''" "t \<noteq> ''+''" "\<forall>t \<in> set ts. plain_level t" by auto
  show ?case
  proof (cases p)
    case Nil
    then show ?thesis by auto
  next
    case (Cons x xs)
    then show ?thesis using t Cons.IH [OF t(3), of xs] by (auto simp: hash_last_Cons)
  qed
qed

lemma match_paths_distinct: "\<forall>t \<in> set ts. plain_level t \<Longrightarrow> distinct (match_paths ts)"
proof (induction ts)
  case (Cons t ts)
  then have "t \<noteq> ''#''" "t \<noteq> ''+''" by auto
  with Cons show ?case by (auto simp: distinct_map)
qed simp

lemma distinct_concat_keys:
  assumes "distinct ps" "\<And>p. p \<in> set ps \<Longrightarrow> distinct (map k (g p))"
    "\<And>p m. p \<in> set ps \<Longrightarrow> m \<in> set (g p) \<Longrightarrow> h (k m) = p"
  shows "distinct (map k (concat (map g ps)))"
  using assms
proof (induction ps)
  case (Cons p ps)
  have "k ` set (g p) \<inter> k ` set (concat (map g ps)) = {}"
  proof (rule ccontr)
    assume "\<not> ?thesis"
    then obtain m m' p' where "m \<in> set (g p)" "p' \<in> set ps" "m' \<in> set (g p')" "k m = k m'"
      by auto
    then show False using Cons.prems by (metis distinct.simps(2) list.set_intros)
  qed
  moreover have "distinct (map k (concat (map g ps)))" using Cons by simp
  ultimately show ?case using Cons.prems(2) [of p] by (simp add: image_Un [symmetric])
qed simp

section \<open>Correctness of the match\<close>

lemma match_distinct:
  assumes "tree_inv n" "\<not> isTopicNameInvalid topic"
  shows "distinct (map match_key (topic_match n topic))"
  unfolding topic_match_def collect_paths
proof (rule distinct_concat_keys [where h = "\<lambda>(s, f). splitTopic f"])
  show "distinct (match_paths (splitTopic topic))"
    using match_paths_distinct topic_name_levels [OF assms(2)] by blast
qed (use assms(1) in \<open>auto simp: tree_inv_def match_key_def\<close>)

lemma match_member:
  assumes "tree_inv n" "\<not> isTopicNameInvalid topic"
  shows "m \<in> set (topic_match n topic) \<longleftrightarrow>
    subscription n (mt_session m) (mt_filter m) = Some (mt_qos m) \<and> isTopicMatchesFilter (mt_filter m) topic"
proof -
  have plain: "\<forall>t \<in> set (splitTopic topic). plain_level t"
    using topic_name_levels [OF assms(2)] by blast
  have at: "m \<in> set (subs_at n p) \<Longrightarrow> p = splitTopic (mt_filter m) \<and> hash_last p" for p
    using assms(1) valid_levels_hash by (auto simp: tree_inv_def hash_last_def)
  have "m \<in> set (subs_at n (splitTopic (mt_filter m))) \<longleftrightarrow>
      subscription n (mt_session m) (mt_filter m) = Some (mt_qos m)"
    using assms(1) lookup_key_iff [of "subs_at n (splitTopic (mt_filter m))" "(mt_session m, mt_filter m)" "mt_qos m"]
    by (auto simp: tree_inv_def subscription_def match_key_def dest: Match_eqI)
  moreover have "m \<in> set (topic_match n topic) \<longleftrightarrow>
      m \<in> set (subs_at n (splitTopic (mt_filter m))) \<and> isTopicMatchesFilter (mt_filter m) topic"
    using at match_paths_iff [OF plain]
    by (auto simp: topic_match_def collect_paths isTopicMatchesFilter_def)
  ultimately show ?thesis by simp
qed

section \<open>The index as an interface\<close>

text \<open>
  What the router, the subscribe handlers and the session manager rely on: an index of
  subscriptions with a granted QoS per (session, filter), and a match that returns exactly
  the granted subscriptions whose filter matches, each once.
\<close>

locale subscription_index =
  fixes empty :: 't
    and add :: "'t \<Rightarrow> session_ref \<Rightarrow> string \<Rightarrow> Qos \<Rightarrow> 't"
    and remove :: "'t \<Rightarrow> session_ref \<Rightarrow> string \<Rightarrow> 't"
    and matching :: "'t \<Rightarrow> string \<Rightarrow> Match list"
    and invar :: "'t \<Rightarrow> bool"
    and granted :: "'t \<Rightarrow> session_ref \<Rightarrow> string \<Rightarrow> Qos option"
  assumes invar_empty: "invar empty"
    and invar_add: "invar t \<Longrightarrow> \<not> isTopicFilterInvalid f \<Longrightarrow> invar (add t s f q)"
    and invar_remove: "invar t \<Longrightarrow> invar (remove t s f)"
    and granted_empty: "granted empty s f = None"
    and granted_add: "granted (add t s f q) s' f' = (if s' = s \<and> f' = f then Some q else granted t s' f')"
    and granted_remove: "granted (remove t s f) s' f' = (if s' = s \<and> f' = f then None else granted t s' f')"
    and matching_iff: "invar t \<Longrightarrow> \<not> isTopicNameInvalid topic \<Longrightarrow>
      m \<in> set (matching t topic) \<longleftrightarrow>
        granted t (mt_session m) (mt_filter m) = Some (mt_qos m) \<and> isTopicMatchesFilter (mt_filter m) topic"
    and matching_distinct: "invar t \<Longrightarrow> \<not> isTopicNameInvalid topic \<Longrightarrow>
      distinct (map match_key (matching t topic))"
begin

lemma matching_empty: "\<not> isTopicNameInvalid topic \<Longrightarrow> matching empty topic = []"
  using matching_iff [OF invar_empty] by (metis granted_empty list.set_intros(1) list.exhaust option.distinct(1))

lemma matching_add:
  assumes "invar t" "\<not> isTopicFilterInvalid f" "\<not> isTopicNameInvalid topic"
  shows "set (matching (add t s f q) topic) =
    {m \<in> set (matching t topic). match_key m \<noteq> (s, f)} \<union>
    (if isTopicMatchesFilter f topic then {\<lparr>mt_session = s, mt_filter = f, mt_qos = q\<rparr>} else {})"
  using matching_iff [OF invar_add [OF assms(1,2)] assms(3)] matching_iff [OF assms(1,3)]
  by (auto simp: granted_add match_key_def intro: Match_eqI split: if_splits)

lemma matching_remove:
  assumes "invar t" "\<not> isTopicNameInvalid topic"
  shows "set (matching (remove t s f) topic) = {m \<in> set (matching t topic). match_key m \<noteq> (s, f)}"
  using matching_iff [OF invar_remove [OF assms(1)] assms(2)] matching_iff [OF assms]
  by (auto simp: granted_remove match_key_def split: if_splits)

lemma granted_remove_all:
  "granted (foldl (\<lambda>t f. remove t s f) t fs) s' f' =
     (if s' = s \<and> f' \<in> set fs then None else granted t s' f')"
  by (induction fs arbitrary: t) (auto simp: granted_remove)

lemma invar_remove_all: "invar t \<Longrightarrow> invar (foldl (\<lambda>t f. remove t s f) t fs)"
  by (induction fs arbitrary: t) (auto simp: invar_remove)

end

interpretation tree: subscription_index empty_node topic_add topic_remove topic_match tree_inv subscription
  by unfold_locales
    (simp_all add: tree_inv_empty tree_inv_add tree_inv_remove subscription_empty subscription_add
      subscription_remove match_member match_distinct)

section \<open>Properties\<close>

text \<open>
  C6. For a valid topic name, \<open>TopicTree::match\<close> returns exactly the stored subscriptions
  whose filter matches the topic, with the QoS they were granted, and each of them once.
\<close>

theorem topic_match_exact:
  assumes "tree_inv n" and "\<not> isTopicNameInvalid topic"
  shows "distinct (map match_key (topic_match n topic))
    \<and> set (topic_match n topic) =
        {m. subscription n (mt_session m) (mt_filter m) = Some (mt_qos m)
            \<and> isTopicMatchesFilter (mt_filter m) topic}"
  using tree.matching_distinct [OF assms] tree.matching_iff [OF assms] by auto

text \<open>A tree with three subscriptions, used by the witnesses.\<close>

definition sample_tree :: Node where
  "sample_tree = topic_add (topic_add (topic_add empty_node 1 ''a/#'' AtLeastOnce) 2 ''+/b'' ExactlyOnce) 1 ''c'' AtMostOnce"

lemma sample_filters: "\<not> isTopicFilterInvalid ''a/#''" "\<not> isTopicFilterInvalid ''+/b''" "\<not> isTopicFilterInvalid ''c''"
  by (simp_all add: isTopicFilterInvalid_def splitTopic_def splitTopic_loop.simps)

lemma sample_tree_inv: "tree_inv sample_tree"
  unfolding sample_tree_def by (intro tree_inv_add tree_inv_empty sample_filters)

theorem topic_match_exact_witness:
  "\<lparr>mt_session = 2, mt_filter = ''+/b'', mt_qos = ExactlyOnce\<rparr> \<in> set (topic_match sample_tree ''a/b'')"
proof -
  have t: "\<not> isTopicNameInvalid ''a/b''" by (simp add: isTopicNameInvalid_def)
  have "isTopicMatchesFilter ''+/b'' ''a/b''"
    by (simp add: isTopicMatchesFilter_def splitTopic_def splitTopic_loop.simps)
  moreover have "subscription sample_tree 2 ''+/b'' = Some ExactlyOnce"
    by (simp add: sample_tree_def subscription_add)
  ultimately show ?thesis using topic_match_exact [OF sample_tree_inv t] by simp
qed

text \<open>
  Subscribing replaces the entry of the same (session, filter) and leaves every other
  entry; unsubscribing removes exactly that entry. Seen through \<open>match\<close>: after \<open>add\<close> the
  new subscription is found for the topics its filter matches, after \<open>remove\<close> it is found
  for none.
\<close>

lemma topic_tree_update:
  assumes "tree_inv n" and "\<not> isTopicFilterInvalid f" and "\<not> isTopicNameInvalid topic"
  shows "tree_inv (topic_add n s f q) \<and> tree_inv (topic_remove n s f)
    \<and> set (topic_match (topic_add n s f q) topic) =
        {m \<in> set (topic_match n topic). match_key m \<noteq> (s, f)}
        \<union> (if isTopicMatchesFilter f topic then {\<lparr>mt_session = s, mt_filter = f, mt_qos = q\<rparr>} else {})
    \<and> set (topic_match (topic_remove n s f) topic) = {m \<in> set (topic_match n topic). match_key m \<noteq> (s, f)}"
  using tree.invar_add [OF assms(1,2)] tree.invar_remove [OF assms(1)] tree.matching_add [OF assms]
    tree.matching_remove [OF assms(1,3)] by blast

lemma topic_tree_update_instance:
  "set (topic_match (topic_remove sample_tree 2 ''+/b'') ''a/b'') = {\<lparr>mt_session = 1, mt_filter = ''a/#'', mt_qos = AtLeastOnce\<rparr>}"
proof -
  have "\<not> isTopicNameInvalid ''a/b''" by (simp add: isTopicNameInvalid_def)
  note u = topic_tree_update [OF sample_tree_inv sample_filters(2) this, of 2]
  have "set (topic_match sample_tree ''a/b'') =
     {\<lparr>mt_session = 1, mt_filter = ''a/#'', mt_qos = AtLeastOnce\<rparr>,
      \<lparr>mt_session = 2, mt_filter = ''+/b'', mt_qos = ExactlyOnce\<rparr>}"
    by (simp add: sample_tree_def topic_match_def topic_add_def splitTopic_def splitTopic_loop.simps
        empty_node_def child_subscribers_def same_sub_def insert_commute)
  with u show ?thesis by (auto simp: match_key_def)
qed

end
