(* ===== verification/RetainStore.thy ===== *)
theory RetainStore
  imports Packet_Model
begin

text \<open>
  The retained messages, \<open>src/broker/RetainStore.hpp\<close> and \<open>.cpp\<close>: a vector of messages and
  an index from topic to position. Accesses past the end of the vector are undefined in C++
  and are the outcome \<^const>\<open>UB\<close>; the invariant excludes them.
\<close>

section \<open>Definitions\<close>

record RetainStore =
  rs_messages :: "Message list"
  rs_idx :: "string \<Rightarrow> nat option"

definition retain_empty :: RetainStore where
  "retain_empty = \<lparr>rs_messages = [], rs_idx = (\<lambda>_. None)\<rparr>"

definition retain_store :: "RetainStore \<Rightarrow> string \<Rightarrow> Message \<Rightarrow> RetainStore outcome" where
  "retain_store st topic msg =
     (case rs_idx st topic of
        Some i \<Rightarrow>
          if i < length (rs_messages st)
          then Ret (st\<lparr>rs_messages := (rs_messages st)[i := msg]\<rparr>)
          else UB
      | None \<Rightarrow>
          Ret (st\<lparr>rs_idx := (rs_idx st)(topic \<mapsto> length (rs_messages st)),
                  rs_messages := rs_messages st @ [msg]\<rparr>))"

text \<open>The loop that rebuilds the index; its list is the vector from position \<open>i\<close> on.\<close>

fun rebuild_idx :: "nat \<Rightarrow> Message list \<Rightarrow> (string \<Rightarrow> nat option) \<Rightarrow> (string \<Rightarrow> nat option)" where
  "rebuild_idx i [] idx = idx"
| "rebuild_idx i (m # ms) idx = rebuild_idx (Suc i) ms (idx(m_topic m \<mapsto> i))"

definition retain_clear :: "RetainStore \<Rightarrow> string \<Rightarrow> RetainStore outcome" where
  "retain_clear st topic =
     (case rs_idx st topic of
        None \<Rightarrow> Ret st
      | Some pos \<Rightarrow>
          if pos < length (rs_messages st) then
            let messages = take pos (rs_messages st) @ drop (Suc pos) (rs_messages st)
            in Ret \<lparr>rs_messages = messages,
                    rs_idx = rebuild_idx pos (drop pos messages) ((rs_idx st)(topic := None))\<rparr>
          else UB)"

definition retain_all :: "RetainStore \<Rightarrow> Message list" where
  "retain_all st = rs_messages st"

text \<open>The invariant and the map from topics to messages that the vector and index represent.\<close>

definition retain_inv :: "RetainStore \<Rightarrow> bool" where
  "retain_inv st \<longleftrightarrow>
     distinct (map m_topic (rs_messages st)) \<and> rs_idx st = rebuild_idx 0 (rs_messages st) (\<lambda>_. None)"

definition retained :: "RetainStore \<Rightarrow> string \<Rightarrow> Message option" where
  "retained st t = find (\<lambda>m. m_topic m = t) (rs_messages st)"

section \<open>The index\<close>

lemma rebuild_idx_append: "rebuild_idx i (A @ B) idx = rebuild_idx (i + length A) B (rebuild_idx i A idx)"
  by (induction A arbitrary: i idx) simp_all

lemma rebuild_idx_topics: "map m_topic ms = map m_topic ms' \<Longrightarrow> rebuild_idx i ms idx = rebuild_idx i ms' idx"
proof (induction ms arbitrary: ms' i idx)
  case (Cons m ms)
  then obtain m' ms'' where ms': "ms' = m' # ms''" "m_topic m = m_topic m'" "map m_topic ms = map m_topic ms''"
    by (cases ms') simp_all
  show ?case unfolding ms'(1) rebuild_idx.simps ms'(2) by (rule Cons.IH [OF ms'(3)])
qed simp

lemma rebuild_idx_outside: "t \<notin> m_topic ` set ms \<Longrightarrow> rebuild_idx i ms idx t = idx t"
  by (induction ms arbitrary: i idx) auto

lemma rebuild_idx_inside:
  "t \<in> m_topic ` set ms \<Longrightarrow> rebuild_idx i ms idx t = rebuild_idx i ms idx' t"
proof (induction ms arbitrary: i idx idx')
  case (Cons m ms)
  show ?case
  proof (cases "t \<in> m_topic ` set ms")
    case True
    then show ?thesis unfolding rebuild_idx.simps by (rule Cons.IH)
  next
    case False
    then show ?thesis using Cons.prems by (simp add: rebuild_idx_outside)
  qed
qed simp

lemma rebuild_idx_cong:
  "(\<And>t. t \<notin> m_topic ` set ms \<Longrightarrow> idx t = idx' t) \<Longrightarrow> rebuild_idx i ms idx = rebuild_idx i ms idx'"
proof
  fix t
  assume "\<And>t. t \<notin> m_topic ` set ms \<Longrightarrow> idx t = idx' t"
  then show "rebuild_idx i ms idx t = rebuild_idx i ms idx' t"
    by (cases "t \<in> m_topic ` set ms") (simp_all add: rebuild_idx_outside rebuild_idx_inside [of t ms i idx idx'])
qed

lemma rebuild_idx_Some:
  "rebuild_idx i ms idx t = Some k \<Longrightarrow> idx t = None \<Longrightarrow>
   \<exists>A x B. ms = A @ x # B \<and> k = i + length A \<and> m_topic x = t"
proof (induction ms arbitrary: i idx)
  case (Cons m ms)
  show ?case
  proof (cases "m_topic m = t \<and> t \<notin> m_topic ` set ms")
    case True
    then have "k = i" using Cons.prems by (simp add: rebuild_idx_outside)
    with True show ?thesis by (intro exI [of _ "[]"]) simp
  next
    case False
    then have "rebuild_idx (Suc i) ms idx t = Some k"
      using Cons.prems(1) rebuild_idx_inside [of t ms "Suc i" "idx(m_topic m \<mapsto> i)" idx]
      by (cases "t \<in> m_topic ` set ms") (simp_all add: rebuild_idx_outside)
    then obtain A x B where "ms = A @ x # B" "k = Suc i + length A" "m_topic x = t"
      using Cons.IH Cons.prems(2) by blast
    then show ?thesis by (intro exI [of _ "m # A"] exI [of _ x] exI [of _ B]) simp
  qed
qed simp

lemma retain_split:
  assumes "retain_inv st" "rs_idx st topic = Some pos"
  obtains A x B where "rs_messages st = A @ x # B" "pos = length A" "m_topic x = topic"
  using assms rebuild_idx_Some [of 0 "rs_messages st" "\<lambda>_. None" topic pos]
  by (auto simp: retain_inv_def)

lemma find_topic_iff:
  "distinct (map m_topic ms) \<Longrightarrow> find (\<lambda>m. m_topic m = t) ms = Some m \<longleftrightarrow> m \<in> set ms \<and> m_topic m = t"
  by (induction ms) (auto simp: image_iff)

lemma retained_iff:
  "retain_inv st \<Longrightarrow> retained st t = Some m \<longleftrightarrow> m \<in> set (rs_messages st) \<and> m_topic m = t"
  by (simp add: retained_def find_topic_iff retain_inv_def)

lemma retained_eqI:
  assumes "retain_inv st" "\<And>t m. m \<in> set (rs_messages st) \<and> m_topic m = t \<longleftrightarrow> f t = Some m"
  shows "retained st = f"
proof
  fix t
  have "retained st t = Some m \<longleftrightarrow> f t = Some m" for m
    using assms retained_iff by simp
  then show "retained st t = f t" by (metis option.exhaust)
qed

section \<open>Storing\<close>

lemma retain_inv_empty: "retain_inv retain_empty"
  by (simp add: retain_inv_def retain_empty_def)

lemma retained_empty: "retained retain_empty t = None"
  by (simp add: retained_def retain_empty_def)

lemma rebuild_idx_total: "(\<And>t. idx t \<noteq> None) \<Longrightarrow> rebuild_idx i ms idx topic \<noteq> None"
  by (induction ms arbitrary: i idx) simp_all

lemma retain_idx_None:
  assumes "retain_inv st" "rs_idx st topic = None"
  shows "topic \<notin> m_topic ` set (rs_messages st)"
proof
  assume "topic \<in> m_topic ` set (rs_messages st)"
  then have "rs_idx st topic = rebuild_idx 0 (rs_messages st) (\<lambda>_. Some 0) topic"
    using assms(1) by (simp add: retain_inv_def rebuild_idx_inside)
  moreover have "rebuild_idx 0 (rs_messages st) (\<lambda>_. Some 0) topic \<noteq> None"
    by (rule rebuild_idx_total) simp
  ultimately show False using assms(2) by metis
qed

lemma retain_store_new:
  assumes "retain_inv st" "rs_idx st topic = None" "m_topic msg = topic"
  defines "st' \<equiv> st\<lparr>rs_idx := (rs_idx st)(topic \<mapsto> length (rs_messages st)), rs_messages := rs_messages st @ [msg]\<rparr>"
  shows "retain_inv st' \<and> retained st' = (retained st)(topic \<mapsto> msg)"
proof -
  note fresh = retain_idx_None [OF assms(1,2)]
  then have fresh': "m \<in> set (rs_messages st) \<Longrightarrow> m_topic m \<noteq> topic" for m by blast
  have inv: "retain_inv st'"
    using assms(1,3) fresh by (auto simp: retain_inv_def st'_def rebuild_idx_append)
  moreover have "retained st' = (retained st)(topic \<mapsto> msg)"
    by (rule retained_eqI [OF inv]) (use assms(1,3) fresh' in \<open>auto simp: st'_def retained_iff\<close>)
  ultimately show ?thesis by simp
qed

lemma retain_store_replace:
  assumes "retain_inv st" "rs_idx st topic = Some i" "m_topic msg = topic"
  defines "st' \<equiv> st\<lparr>rs_messages := (rs_messages st)[i := msg]\<rparr>"
  shows "i < length (rs_messages st) \<and> retain_inv st' \<and> retained st' = (retained st)(topic \<mapsto> msg)"
proof -
  obtain A x B where L: "rs_messages st = A @ x # B" "i = length A" "m_topic x = topic"
    using retain_split [OF assms(1,2)] .
  then have L': "rs_messages st' = A @ msg # B" by (simp add: st'_def)
  have topics: "map m_topic (rs_messages st') = map m_topic (rs_messages st)"
    using L L' assms(3) by simp
  have inv: "retain_inv st'"
    using assms(1) topics rebuild_idx_topics [OF topics] by (simp add: retain_inv_def st'_def)
  have "topic \<notin> m_topic ` set (A @ B)" using assms(1) L by (auto simp: retain_inv_def)
  then have "m \<in> set A \<union> set B \<Longrightarrow> m_topic m \<noteq> topic" for m by auto
  then have "retained st' = (retained st)(topic \<mapsto> msg)"
    by (intro retained_eqI [OF inv]) (use L L' assms(1,3) in \<open>auto simp: retained_iff\<close>)
  with L inv show ?thesis by simp
qed

lemma retain_store_correct:
  assumes "retain_inv st" "m_topic msg = topic"
  shows "\<exists>st'. retain_store st topic msg = Ret st' \<and> retain_inv st' \<and> retained st' = (retained st)(topic \<mapsto> msg)"
  using retain_store_new [OF assms(1) _ assms(2)] retain_store_replace [OF assms(1) _ assms(2)]
  by (cases "rs_idx st topic") (simp_all add: retain_store_def)

section \<open>Clearing\<close>

lemma retain_clear_some:
  assumes "retain_inv st" "rs_idx st topic = Some pos"
  obtains st' where "retain_clear st topic = Ret st'" "retain_inv st'" "retained st' = (retained st)(topic := None)"
proof -
  obtain A x B where L: "rs_messages st = A @ x # B" "pos = length A" "m_topic x = topic"
    using retain_split [OF assms] .
  let ?st' = "\<lparr>rs_messages = A @ B, rs_idx = rebuild_idx pos B ((rs_idx st)(topic := None))\<rparr>"
  have fresh: "topic \<notin> m_topic ` set (A @ B)" using assms(1) L by (auto simp: retain_inv_def)
  then have fresh': "m \<in> set A \<union> set B \<Longrightarrow> m_topic m \<noteq> topic" for m by auto
  have "rebuild_idx pos B ((rs_idx st)(topic := None)) = rebuild_idx pos B (rebuild_idx 0 A (\<lambda>_. None))"
  proof (rule rebuild_idx_cong)
    fix t assume "t \<notin> m_topic ` set B"
    then show "((rs_idx st)(topic := None)) t = rebuild_idx 0 A (\<lambda>_. None) t"
      using assms(1) L fresh
      by (auto simp: retain_inv_def rebuild_idx_append rebuild_idx_outside image_Un)
  qed
  then have inv: "retain_inv ?st'"
    using assms(1) L by (auto simp: retain_inv_def rebuild_idx_append)
  moreover have "retained ?st' = (retained st)(topic := None)"
    by (rule retained_eqI [OF inv]) (use L fresh' assms(1) in \<open>auto simp: retained_iff\<close>)
  moreover have "retain_clear st topic = Ret ?st'"
    using assms(2) L by (simp add: retain_clear_def Let_def)
  ultimately show ?thesis using that by blast
qed

lemma retain_clear_correct:
  assumes "retain_inv st"
  shows "\<exists>st'. retain_clear st topic = Ret st' \<and> retain_inv st' \<and> retained st' = (retained st)(topic := None)"
proof (cases "rs_idx st topic")
  case None
  then have "retained st topic = None"
    using retain_idx_None [OF assms] retained_iff [OF assms] by (metis imageI option.exhaust)
  then have "retained st = (retained st)(topic := None)" by auto
  with None show ?thesis using assms by (simp add: retain_clear_def)
next
  case (Some pos)
  then show ?thesis using retain_clear_some [OF assms] by metis
qed

section \<open>The interface\<close>

text \<open>What the publish, subscribe and close handlers rely on: a map from topics to messages.\<close>

locale retained_map =
  fixes empty :: 'r
    and store :: "'r \<Rightarrow> string \<Rightarrow> Message \<Rightarrow> 'r outcome"
    and clear :: "'r \<Rightarrow> string \<Rightarrow> 'r outcome"
    and all :: "'r \<Rightarrow> Message list"
    and invar :: "'r \<Rightarrow> bool"
    and content :: "'r \<Rightarrow> string \<Rightarrow> Message option"
  assumes invar_empty: "invar empty"
    and content_empty: "content empty t = None"
    and store_law: "invar r \<Longrightarrow> m_topic msg = t \<Longrightarrow>
      \<exists>r'. store r t msg = Ret r' \<and> invar r' \<and> content r' = (content r)(t \<mapsto> msg)"
    and clear_law: "invar r \<Longrightarrow> \<exists>r'. clear r t = Ret r' \<and> invar r' \<and> content r' = (content r)(t := None)"
    and all_law: "invar r \<Longrightarrow>
      distinct (map m_topic (all r)) \<and> (content r t = Some m \<longleftrightarrow> m \<in> set (all r) \<and> m_topic m = t)"
begin

lemma store_then_clear:
  assumes "invar r" "m_topic msg = t"
  shows "\<exists>r' r''. store r t msg = Ret r' \<and> clear r' t = Ret r'' \<and> content r'' = (content r)(t := None)"
proof -
  obtain r' where r': "store r t msg = Ret r'" "invar r'" "content r' = (content r)(t \<mapsto> msg)"
    using store_law [OF assms] by blast
  obtain r'' where "clear r' t = Ret r''" "content r'' = (content r')(t := None)"
    using clear_law [OF r'(2)] by blast
  with r' show ?thesis by auto
qed

lemma all_of_store:
  assumes "invar r" "m_topic msg = t" "store r t msg = Ret r'"
  shows "set (all r') = insert msg {m \<in> set (all r). m_topic m \<noteq> t}"
proof -
  have r': "invar r'" "content r' = (content r)(t \<mapsto> msg)" using store_law [OF assms(1,2)] assms(3) by auto
  have "m \<in> set (all r') \<longleftrightarrow> content r' (m_topic m) = Some m" for m using all_law [OF r'(1)] by blast
  moreover have "m \<in> set (all r) \<longleftrightarrow> content r (m_topic m) = Some m" for m using all_law [OF assms(1)] by blast
  ultimately show ?thesis using r'(2) assms(2) by (auto split: if_splits)
qed

end

interpretation retain: retained_map retain_empty retain_store retain_clear retain_all retain_inv retained
proof unfold_locales
  fix r t m
  assume inv: "retain_inv r"
  then have "distinct (map m_topic (rs_messages r))" by (simp add: retain_inv_def)
  with inv show "distinct (map m_topic (retain_all r)) \<and>
      (retained r t = Some m \<longleftrightarrow> m \<in> set (retain_all r) \<and> m_topic m = t)"
    by (simp add: retain_all_def retained_iff)
qed (simp_all add: retain_inv_empty retained_empty retain_store_correct retain_clear_correct)

section \<open>Properties\<close>

text \<open>
  C21. The vector-and-index store refines a map from topics to messages: under the invariant
  no access is out of range, \<open>store\<close> of a message under its own topic is map update,
  \<open>clear\<close> is map deletion, the invariant is kept, and \<open>all\<close> lists every retained message
  exactly once.
\<close>

theorem retain_store_refines_map:
  assumes "retain_inv st" and "m_topic msg = topic"
  shows "(\<exists>st'. retain_store st topic msg = Ret st' \<and> retain_inv st' \<and> retained st' = (retained st)(topic \<mapsto> msg))
    \<and> (\<exists>st'. retain_clear st t = Ret st' \<and> retain_inv st' \<and> retained st' = (retained st)(t := None))
    \<and> distinct (map m_topic (retain_all st))
    \<and> set (retain_all st) = ran (retained st)"
proof -
  have "set (retain_all st) = ran (retained st)"
    using retain.all_law [OF assms(1)] by (auto simp: ran_def)
  then show ?thesis
    using retain.store_law [OF assms] retain.clear_law [OF assms(1)] retain.all_law [OF assms(1)] by blast
qed

definition sample_message :: Message where
  "sample_message = \<lparr>m_topic = ''a/b'', m_payload = ''on'', m_qos = AtLeastOnce, m_retain = True, m_source_client = ''c1''\<rparr>"

theorem retain_store_refines_map_witness:
  "\<exists>st'. retain_store retain_empty ''a/b'' sample_message = Ret st' \<and> retained st' ''a/b'' = Some sample_message"
proof -
  have "m_topic sample_message = ''a/b''" by (simp add: sample_message_def)
  then obtain st' where "retain_store retain_empty ''a/b'' sample_message = Ret st'"
    "retained st' = (retained retain_empty)(''a/b'' \<mapsto> sample_message)"
    using retain_store_refines_map [OF retain_inv_empty] by blast
  then show ?thesis by simp
qed

definition foreign_message :: "string \<Rightarrow> Message" where
  "foreign_message t = \<lparr>m_topic = t, m_payload = ''x'', m_qos = AtMostOnce, m_retain = True, m_source_client = ''c1''\<rparr>"

text \<open>
  The hypothesis that a message is stored under its own topic matters: storing a message
  under another topic leaves an index entry that a later \<open>clear\<close> does not repair, and the
  next \<open>store\<close> under that topic writes past the end of the vector.
\<close>

lemma retain_store_foreign_topic:
  "bind_out (retain_store retain_empty ''a'' (foreign_message ''a''))
     (\<lambda>st. bind_out (retain_store st ''b'' (foreign_message ''z''))
     (\<lambda>st. bind_out (retain_clear st ''a'')
     (\<lambda>st. retain_store st ''b'' (foreign_message ''b'')))) = UB"
  by (simp add: retain_store_def retain_clear_def retain_empty_def foreign_message_def Let_def)

end
