(* ===== verification/Effects.thy ===== *)
theory Effects
  imports Prelude
begin

text \<open>
  Stateful code with exceptions. A program maps the state before to its result and the state
  after; a C++ exception keeps the changes made before it was thrown, and \<open>Undef\<close> marks
  undefined behaviour. Weakest preconditions, computed by rewriting over the constructors of
  programs, are the proof rule of the component theories.
\<close>

datatype ('a, 's) res = Ok 'a 's | Exn string 's | Undef

type_synonym ('a, 's) prog = "'s \<Rightarrow> ('a, 's) res"

named_theorems prog_simps \<open>evaluation of programs\<close>

definition returnP :: "'a \<Rightarrow> ('a, 's) prog" where
  "returnP x = (\<lambda>s. Ok x s)"

definition throwP :: "string \<Rightarrow> ('a, 's) prog" where
  "throwP e = (\<lambda>s. Exn e s)"

definition undefP :: "('a, 's) prog" where
  "undefP = (\<lambda>s. Undef)"

definition bindP :: "('a, 's) prog \<Rightarrow> ('a \<Rightarrow> ('b, 's) prog) \<Rightarrow> ('b, 's) prog" where
  "bindP m f = (\<lambda>s. case m s of Ok x s' \<Rightarrow> f x s' | Exn e s' \<Rightarrow> Exn e s' | Undef \<Rightarrow> Undef)"

definition seqP :: "('a, 's) prog \<Rightarrow> ('b, 's) prog \<Rightarrow> ('b, 's) prog" where
  "seqP m n = bindP m (\<lambda>_. n)"

definition getP :: "('s \<Rightarrow> 'a) \<Rightarrow> ('a, 's) prog" where
  "getP f = (\<lambda>s. Ok (f s) s)"

definition modP :: "('s \<Rightarrow> 's) \<Rightarrow> (unit, 's) prog" where
  "modP f = (\<lambda>s. Ok () (f s))"

definition whenP :: "bool \<Rightarrow> (unit, 's) prog \<Rightarrow> (unit, 's) prog" where
  "whenP c m = (if c then m else returnP ())"

definition catchP :: "('a, 's) prog \<Rightarrow> (string \<Rightarrow> ('a, 's) prog) \<Rightarrow> ('a, 's) prog" where
  "catchP m h = (\<lambda>s. case m s of Ok x s' \<Rightarrow> Ok x s' | Exn e s' \<Rightarrow> h e s' | Undef \<Rightarrow> Undef)"

fun forP :: "'a list \<Rightarrow> ('a \<Rightarrow> (unit, 's) prog) \<Rightarrow> (unit, 's) prog" where
  "forP [] f = returnP ()"
| "forP (x # xs) f = seqP (f x) (forP xs f)"

text \<open>A call on a component of the state that may throw or be undefined.\<close>

definition liftP :: "('s \<Rightarrow> 'a outcome) \<Rightarrow> ('a, 's) prog" where
  "liftP f = (\<lambda>s. case f s of Ret x \<Rightarrow> Ok x s | Throw e \<Rightarrow> Exn e s | UB \<Rightarrow> Undef)"

lemma prog_apply [simp, prog_simps]:
  "returnP x s = Ok x s" "throwP e s = Exn e s" "undefP s = Undef"
  "getP f s = Ok (f s) s" "modP g s = Ok () (g s)"
  by (simp_all add: returnP_def throwP_def undefP_def getP_def modP_def)

lemma bindP_apply [prog_simps]: "bindP m f s = (case m s of Ok x s' \<Rightarrow> f x s' | Exn e s' \<Rightarrow> Exn e s' | Undef \<Rightarrow> Undef)"
  by (simp add: bindP_def)

lemma seqP_apply [prog_simps]: "seqP m n s = (case m s of Ok x s' \<Rightarrow> n s' | Exn e s' \<Rightarrow> Exn e s' | Undef \<Rightarrow> Undef)"
  by (simp add: seqP_def bindP_apply)

lemma catchP_apply [prog_simps]: "catchP m h s = (case m s of Ok x s' \<Rightarrow> Ok x s' | Exn e s' \<Rightarrow> h e s' | Undef \<Rightarrow> Undef)"
  by (simp add: catchP_def)

lemma bindP_cases:
  "m s = Ok x s' \<Longrightarrow> bindP m f s = f x s'"
  "m s = Exn e s' \<Longrightarrow> bindP m f s = Exn e s'"
  "m s = Undef \<Longrightarrow> bindP m f s = Undef"
  by (simp_all add: bindP_apply)

lemma seqP_cases:
  "m s = Ok x s' \<Longrightarrow> seqP m n s = n s'"
  "m s = Exn e s' \<Longrightarrow> seqP m n s = Exn e s'"
  "m s = Undef \<Longrightarrow> seqP m n s = Undef"
  by (simp_all add: seqP_apply)

lemma bindP_prim [simp, prog_simps]:
  "bindP (getP g) f s = f (g s) s" "bindP (modP h) k s = k () (h s)" "bindP (returnP x) f s = f x s"
  "bindP (throwP e) f s = Exn e s"
  "seqP (modP h) n s = n (h s)" "seqP (returnP x) n s = n s" "seqP (throwP e) n s = Exn e s"
  by (simp_all add: bindP_apply seqP_def)

lemma whenP_simps [simp, prog_simps]: "whenP True m = m" "whenP False m = returnP ()"
  by (simp_all add: whenP_def)

lemma catchP_cases:
  "m s = Ok x s' \<Longrightarrow> catchP m h s = Ok x s'"
  "m s = Exn e s' \<Longrightarrow> catchP m h s = h e s'"
  "m s = Undef \<Longrightarrow> catchP m h s = Undef"
  by (simp_all add: catchP_def)

lemma forP_append: "forP (xs @ ys) f s = seqP (forP xs f) (forP ys f) s"
  by (induction xs arbitrary: s) (auto simp: seqP_def bindP_apply split: res.splits)

section \<open>Weakest preconditions\<close>

text \<open>
  \<open>wp m Q E s\<close>: from \<open>s\<close> the program has no undefined behaviour, a normal return satisfies \<open>Q\<close>
  and an exception satisfies \<open>E\<close>. With \<open>E\<close> false it says that the program returns normally.
\<close>

definition wp :: "('a, 's) prog \<Rightarrow> ('a \<Rightarrow> 's \<Rightarrow> bool) \<Rightarrow> (string \<Rightarrow> 's \<Rightarrow> bool) \<Rightarrow> 's \<Rightarrow> bool" where
  "wp m Q E s = (case m s of Ok x s' \<Rightarrow> Q x s' | Exn e s' \<Rightarrow> E e s' | Undef \<Rightarrow> False)"

abbreviation never :: "string \<Rightarrow> 's \<Rightarrow> bool" where
  "never \<equiv> \<lambda>_ _. False"

named_theorems wp_simps \<open>weakest preconditions of the program constructors\<close>

lemma wp_prim [simp, wp_simps]:
  "wp (returnP x) Q E = Q x" "wp (throwP e) Q E = E e" "wp undefP Q E = (\<lambda>_. False)"
  "wp (getP g) Q E = (\<lambda>s. Q (g s) s)" "wp (modP h) P E = (\<lambda>s. P () (h s))"
  by (simp_all add: wp_def fun_eq_iff)

lemma wp_bindP [simp, wp_simps]: "wp (bindP m f) Q E = wp m (\<lambda>x. wp (f x) Q E) E"
  by (simp add: wp_def bindP_apply fun_eq_iff split: res.split)

lemma wp_seqP [simp, wp_simps]: "wp (seqP m n) Q E = wp m (\<lambda>_. wp n Q E) E"
  by (simp add: seqP_def)

lemma wp_whenP [wp_simps]: "wp (whenP c m) Q E = (if c then wp m Q E else Q ())"
  by (simp add: whenP_def)

lemma wp_if [wp_simps]: "wp (if c then m else n) Q E = (if c then wp m Q E else wp n Q E)"
  by simp

lemma wp_catchP [simp, wp_simps]: "wp (catchP m h) Q E = wp m Q (\<lambda>e. wp (h e) Q E)"
  by (simp add: wp_def catchP_apply fun_eq_iff split: res.split)

lemma wp_liftP [wp_simps]:
  "wp (liftP f) Q E = (\<lambda>s. case f s of Ret x \<Rightarrow> Q x s | Throw e \<Rightarrow> E e s | UB \<Rightarrow> False)"
  by (simp add: wp_def liftP_def fun_eq_iff split: outcome.split)

lemma wp_mono:
  assumes "wp m Q E s" and "\<And>x s'. Q x s' \<Longrightarrow> Q' x s'" and "\<And>e s'. E e s' \<Longrightarrow> E' e s'"
  shows "wp m Q' E' s"
  using assms by (auto simp: wp_def split: res.splits)

lemma wp_forP:
  assumes "I s" and "\<And>x s. x \<in> set xs \<Longrightarrow> I s \<Longrightarrow> wp (f x) (\<lambda>_. I) E s" and "\<And>s. I s \<Longrightarrow> Q () s"
  shows "wp (forP xs f) Q E s"
  using assms
proof (induction xs arbitrary: s)
  case (Cons x xs)
  have rest: "wp (forP xs f) Q E s'" if "I s'" for s'
    using Cons.prems(2,3) that by (intro Cons.IH) auto
  have "wp (f x) (\<lambda>_. I) E s" using Cons.prems by simp
  then have "wp (f x) (\<lambda>_. wp (forP xs f) Q E) E s"
    by (rule wp_mono) (use rest in auto)
  then show ?case by simp
qed simp

lemma wp_Ok: "wp m Q never s \<Longrightarrow> \<exists>x s'. m s = Ok x s' \<and> Q x s'"
  by (auto simp: wp_def split: res.splits)

lemma wp_Ok_unit: "wp m (\<lambda>_. Q) never s \<Longrightarrow> \<exists>s'. m s = Ok () s' \<and> Q s'"
  using wp_Ok [of m "\<lambda>_. Q" s] by simp

lemma wp_OkI: "m s = Ok x s' \<Longrightarrow> Q x s' \<Longrightarrow> wp m Q E s"
  by (simp add: wp_def)

lemma wp_OkD: "wp m Q E s \<Longrightarrow> m s = Ok x s' \<Longrightarrow> Q x s'"
  by (simp add: wp_def)

lemma wp_conj: "wp m Q E s \<Longrightarrow> wp m Q' E' s \<Longrightarrow> wp m (\<lambda>x s. Q x s \<and> Q' x s) (\<lambda>e s. E e s \<and> E' e s) s"
  by (simp add: wp_def split: res.splits)


text \<open>The liberal variant, for code whose undefined behaviour is the subject of a separate statement.\<close>

definition wlp :: "('a, 's) prog \<Rightarrow> ('a \<Rightarrow> 's \<Rightarrow> bool) \<Rightarrow> (string \<Rightarrow> 's \<Rightarrow> bool) \<Rightarrow> 's \<Rightarrow> bool" where
  "wlp m Q E s = (case m s of Ok x s' \<Rightarrow> Q x s' | Exn e s' \<Rightarrow> E e s' | Undef \<Rightarrow> True)"

lemma wlp_prim [simp]:
  "wlp (returnP x) Q E = Q x" "wlp (throwP e) Q E = E e" "wlp undefP Q E = (\<lambda>_. True)"
  "wlp (getP g) Q E = (\<lambda>s. Q (g s) s)" "wlp (modP h) P E = (\<lambda>s. P () (h s))"
  by (simp_all add: wlp_def fun_eq_iff)

lemma wlp_bindP [simp]: "wlp (bindP m f) Q E = wlp m (\<lambda>x. wlp (f x) Q E) E"
  by (simp add: wlp_def bindP_apply fun_eq_iff split: res.split)

lemma wlp_seqP [simp]: "wlp (seqP m n) Q E = wlp m (\<lambda>_. wlp n Q E) E"
  by (simp add: seqP_def)

lemma wlp_catchP [simp]: "wlp (catchP m h) Q E = wlp m Q (\<lambda>e. wlp (h e) Q E)"
  by (simp add: wlp_def catchP_apply fun_eq_iff split: res.split)

lemma wlp_True [simp]: "wlp m (\<lambda>_ _. True) (\<lambda>_ _. True) = (\<lambda>_. True)"
  by (simp add: wlp_def fun_eq_iff split: res.split)

lemma wlp_mono:
  assumes "wlp m Q E s" and "\<And>x s'. Q x s' \<Longrightarrow> Q' x s'" and "\<And>e s'. E e s' \<Longrightarrow> E' e s'"
  shows "wlp m Q' E' s"
  using assms by (auto simp: wlp_def split: res.splits)

lemma wp_imp_wlp: "wp m Q E s \<Longrightarrow> (\<And>e s'. E e s' \<Longrightarrow> E' e s') \<Longrightarrow> wlp m Q E' s"
  by (auto simp: wp_def wlp_def split: res.splits)

lemma wlp_forP:
  assumes "I s" and "\<And>x s. x \<in> set xs \<Longrightarrow> I s \<Longrightarrow> wlp (f x) (\<lambda>_. I) E s" and "\<And>s. I s \<Longrightarrow> Q () s"
  shows "wlp (forP xs f) Q E s"
  using assms
proof (induction xs arbitrary: s)
  case (Cons x xs)
  have rest: "wlp (forP xs f) Q E s'" if "I s'" for s'
    using Cons.prems(2,3) that by (intro Cons.IH) auto
  have "wlp (f x) (\<lambda>_. I) E s" using Cons.prems by simp
  then have "wlp (f x) (\<lambda>_. wlp (forP xs f) Q E) E s"
    by (rule wlp_mono) (use rest in auto)
  then show ?case by simp
qed simp

lemma wlp_OkD: "wlp m Q E s \<Longrightarrow> m s = Ok x s' \<Longrightarrow> Q x s'"
  by (simp add: wlp_def)

section \<open>Frames\<close>

text \<open>
  \<open>keeps f m\<close>: the program leaves the observation \<open>f\<close> of the state as it is, also when it throws. The
  rules follow the constructors of programs, so a frame is proved by unfolding the program.
\<close>

definition keeps :: "('s \<Rightarrow> 'v) \<Rightarrow> ('a, 's) prog \<Rightarrow> bool" where
  "keeps f m \<longleftrightarrow> (\<forall>s. wlp m (\<lambda>_ s'. f s' = f s) (\<lambda>_ s'. f s' = f s) s)"

named_theorems keeps_rules \<open>programs that leave an observation of the state alone\<close>

lemma keeps_prim [keeps_rules, intro!]:
  "keeps f (returnP x)" "keeps f (throwP e)" "keeps f undefP" "keeps f (getP g)"
  "(\<And>s. f (h s) = f s) \<Longrightarrow> keeps f (modP h)"
  by (simp_all add: keeps_def)

lemma keeps_liftP [keeps_rules, intro!]: "keeps f (liftP g)"
  by (simp add: keeps_def wlp_def liftP_def split: outcome.split)

lemma keeps_bindP [keeps_rules, intro!]:
  assumes "keeps f m" "\<And>x. keeps f (k x)"
  shows "keeps f (bindP m k)"
  using assms by (fastforce simp: keeps_def wlp_def bindP_apply split: res.splits)

lemma keeps_seqP [keeps_rules, intro!]: "keeps f m \<Longrightarrow> keeps f n \<Longrightarrow> keeps f (seqP m n)"
  unfolding seqP_def by (rule keeps_bindP)

lemma keeps_catchP [keeps_rules, intro!]:
  assumes "keeps f m" "\<And>e. keeps f (h e)"
  shows "keeps f (catchP m h)"
  using assms by (fastforce simp: keeps_def wlp_def catchP_apply split: res.splits)

lemma keeps_whenP [keeps_rules, intro!]: "keeps f m \<Longrightarrow> keeps f (whenP c m)"
  by (cases c) auto

lemma keeps_forP [keeps_rules, intro!]: "(\<And>x. keeps f (m x)) \<Longrightarrow> keeps f (forP xs m)"
  by (induction xs) auto

lemma keepsD: "keeps f m \<Longrightarrow> m s = Ok x s' \<Longrightarrow> f s' = f s" "keeps f m \<Longrightarrow> m s = Exn e s' \<Longrightarrow> f s' = f s"
  by (auto simp: keeps_def wlp_def dest: spec [of _ s])

end
