(* ===== verification/Outbox.thy ===== *)
theory Outbox
  imports TopicTree Effects "HOL-Library.AList"
begin

text \<open>
  The offline queues, \<open>src/broker/Outbox.hpp\<close> and \<open>.cpp\<close>: per session (by address) a bounded
  queue of messages that is drained when the client reconnects. The \<open>unordered_map\<close> is an
  association list with distinct keys.
\<close>

section \<open>Definitions\<close>

record OutboxMessage =
  om_msg :: Message
  om_granted_qos :: Qos
  om_retained :: bool

type_synonym Outbox = "(session_ref \<times> OutboxMessage list) list"

definition MaxQueueSize :: nat where
  "MaxQueueSize = 1000"

definition outbox_queue :: "Outbox \<Rightarrow> session_ref \<Rightarrow> OutboxMessage list" where
  "outbox_queue ob s = (case map_of ob s of None \<Rightarrow> [] | Some q \<Rightarrow> q)"

definition outbox_enqueue :: "Outbox \<Rightarrow> session_ref \<Rightarrow> Message \<Rightarrow> Qos \<Rightarrow> bool \<Rightarrow> Outbox" where
  "outbox_enqueue ob s msg granted_qos retained_flag =
     (if granted_qos = AtMostOnce then ob
      else
        let q = outbox_queue ob s;
            q = (if length q \<ge> MaxQueueSize then tl q else q)
        in AList.update s (q @ [\<lparr>om_msg = msg, om_granted_qos = granted_qos, om_retained = retained_flag\<rparr>]) ob)"

text \<open>
  \<open>drain(session, deliver)\<close>: the callback runs on every queued message in order, then the
  queue is erased. The callback works on a state that holds the outbox; \<open>get\<close> and \<open>upd\<close> reach it.
\<close>

definition outbox_drain ::
  "('s \<Rightarrow> Outbox) \<Rightarrow> ((Outbox \<Rightarrow> Outbox) \<Rightarrow> 's \<Rightarrow> 's) \<Rightarrow> (Message \<Rightarrow> Qos \<Rightarrow> bool \<Rightarrow> (unit, 's) prog)
   \<Rightarrow> session_ref \<Rightarrow> (nat, 's) prog" where
  "outbox_drain get upd deliver s =
     bindP (getP (\<lambda>st. map_of (get st) s)) (\<lambda>it.
     case it of
       None \<Rightarrow> returnP 0
     | Some q \<Rightarrow>
         seqP (forP q (\<lambda>m. deliver (om_msg m) (om_granted_qos m) (om_retained m)))
         (seqP (modP (upd (AList.delete s))) (returnP (length q))))"

definition outbox_clear :: "Outbox \<Rightarrow> session_ref \<Rightarrow> Outbox" where
  "outbox_clear ob s = AList.delete s ob"

definition outbox_size :: "Outbox \<Rightarrow> session_ref \<Rightarrow> nat" where
  "outbox_size ob s = (case map_of ob s of None \<Rightarrow> 0 | Some q \<Rightarrow> length q)"

definition outbox_totalSize :: "Outbox \<Rightarrow> nat" where
  "outbox_totalSize ob = foldl (\<lambda>total (_, q). total + length q) 0 ob"

definition outbox_inv :: "Outbox \<Rightarrow> bool" where
  "outbox_inv ob \<longleftrightarrow> distinct (map fst ob) \<and> (\<forall>(s, q) \<in> set ob. length q \<le> MaxQueueSize)"

text \<open>The last \<open>n\<close> elements of a list, the specification of a head-dropping bounded queue.\<close>

definition last_n :: "nat \<Rightarrow> 'a list \<Rightarrow> 'a list" where
  "last_n n xs = drop (length xs - n) xs"

section \<open>Lemmas\<close>

lemma last_n_snoc:
  assumes "0 < n"
  shows "last_n n (xs @ [x]) = (if length (last_n n xs) \<ge> n then tl (last_n n xs) else last_n n xs) @ [x]"
proof (cases "length xs < n")
  case True
  then show ?thesis by (simp add: last_n_def)
next
  case False
  then have "length (last_n n xs) = n" by (simp add: last_n_def)
  moreover have "drop (Suc (length xs) - n) xs = tl (drop (length xs - n) xs)"
    using False assms by (metis Suc_diff_le drop_Suc not_less tl_drop)
  ultimately show ?thesis using False assms by (simp add: last_n_def)
qed

lemma length_last_n: "length (last_n n xs) \<le> n"
  by (simp add: last_n_def)

lemma queue_enqueue:
  "outbox_queue (outbox_enqueue ob s msg g r) s' =
     (if s' = s \<and> g \<noteq> AtMostOnce
      then (if length (outbox_queue ob s) \<ge> MaxQueueSize then tl (outbox_queue ob s) else outbox_queue ob s)
           @ [\<lparr>om_msg = msg, om_granted_qos = g, om_retained = r\<rparr>]
      else outbox_queue ob s')"
  by (simp add: outbox_enqueue_def outbox_queue_def Let_def update_conv')

lemma queue_clear: "outbox_queue (outbox_clear ob s) s' = (if s' = s then [] else outbox_queue ob s')"
  by (simp add: outbox_queue_def outbox_clear_def delete_conv')

lemma queue_length: "outbox_inv ob \<Longrightarrow> length (outbox_queue ob s) \<le> MaxQueueSize"
  by (auto simp: outbox_inv_def outbox_queue_def dest!: map_of_SomeD split: option.split)

lemma outbox_inv_empty: "outbox_inv []"
  by (simp add: outbox_inv_def)

lemma outbox_inv_update: "outbox_inv ob \<Longrightarrow> length q \<le> MaxQueueSize \<Longrightarrow> outbox_inv (AList.update s q ob)"
  by (induction ob) (auto simp: outbox_inv_def distinct_update update_keys)

lemma outbox_inv_enqueue: "outbox_inv ob \<Longrightarrow> outbox_inv (outbox_enqueue ob s msg g r)"
  using queue_length [of ob s]
  by (auto simp: outbox_enqueue_def Let_def MaxQueueSize_def intro!: outbox_inv_update)

lemma outbox_inv_clear: "outbox_inv ob \<Longrightarrow> outbox_inv (outbox_clear ob s)"
  by (auto simp: outbox_inv_def outbox_clear_def AList.delete_eq distinct_map_filter)

lemma outbox_size_queue: "outbox_size ob s = length (outbox_queue ob s)"
  by (simp add: outbox_size_def outbox_queue_def split: option.split)

lemma totalSize_sum: "outbox_totalSize ob = sum_list (map (length \<circ> snd) ob)"
proof -
  have "foldl (\<lambda>total (_, q). total + length q) a ob = a + sum_list (map (length \<circ> snd) ob)" for a
    by (induction ob arbitrary: a) auto
  then show ?thesis by (simp add: outbox_totalSize_def)
qed

section \<open>The interface\<close>

text \<open>
  What the router and the connect handler rely on: per session a queue with a capacity that
  drops its oldest element, refuses QoS 0, and can be emptied.
\<close>

type_synonym enqueue_args = "session_ref \<times> OutboxMessage"

locale offline_queue =
  fixes empty :: 'o
    and enqueue :: "'o \<Rightarrow> session_ref \<Rightarrow> Message \<Rightarrow> Qos \<Rightarrow> bool \<Rightarrow> 'o"
    and clear :: "'o \<Rightarrow> session_ref \<Rightarrow> 'o"
    and queue :: "'o \<Rightarrow> session_ref \<Rightarrow> OutboxMessage list"
    and capacity :: nat
  assumes capacity_pos: "0 < capacity"
    and queue_of_empty: "queue empty s = []"
    and queue_of_enqueue: "queue (enqueue ob s msg g r) s' =
      (if s' = s \<and> g \<noteq> AtMostOnce
       then (if length (queue ob s) \<ge> capacity then tl (queue ob s) else queue ob s)
            @ [\<lparr>om_msg = msg, om_granted_qos = g, om_retained = r\<rparr>]
       else queue ob s')"
    and queue_of_clear: "queue (clear ob s) s' = (if s' = s then [] else queue ob s')"
begin

lemma queue_run:
  fixes xs :: "enqueue_args list"
  shows "queue (foldl (\<lambda>ob (s, x). enqueue ob s (om_msg x) (om_granted_qos x) (om_retained x)) empty xs) s =
     last_n capacity (map snd (filter (\<lambda>(s', x). s' = s \<and> om_granted_qos x \<noteq> AtMostOnce) xs))"
proof (induction xs rule: rev_induct)
  case Nil
  then show ?case by (simp add: queue_of_empty last_n_def)
next
  case (snoc x xs)
  obtain s' y where x: "x = (s', y)" by (cases x)
  have y: "\<lparr>om_msg = om_msg y, om_granted_qos = om_granted_qos y, om_retained = om_retained y\<rparr> = y"
    by simp
  show ?case
  proof (cases "s' = s \<and> om_granted_qos y \<noteq> AtMostOnce")
    case True
    with snoc show ?thesis by (simp add: x y queue_of_enqueue last_n_snoc [OF capacity_pos])
  next
    case False
    with snoc show ?thesis by (auto simp: x queue_of_enqueue)
  qed
qed

lemma queue_bounded:
  fixes xs :: "enqueue_args list"
  shows "length (queue (foldl (\<lambda>ob (s, x). enqueue ob s (om_msg x) (om_granted_qos x) (om_retained x)) empty xs) s) \<le> capacity"
  by (simp add: queue_run length_last_n)

end

interpretation outbox: offline_queue "[]" outbox_enqueue outbox_clear outbox_queue MaxQueueSize
  by unfold_locales (simp_all add: MaxQueueSize_def queue_enqueue queue_clear, simp add: outbox_queue_def)

section \<open>Properties\<close>

text \<open>
  C22. After any sequence of \<open>enqueue\<close> calls, the queue of a session holds the most recent
  1000 messages queued for that session with QoS 1 or 2, in the order they came; QoS 0
  messages and messages for other sessions leave it alone.
\<close>

theorem outbox_keeps_latest:
  fixes xs :: "enqueue_args list"
  shows "outbox_queue
     (foldl (\<lambda>ob (s, x). outbox_enqueue ob s (om_msg x) (om_granted_qos x) (om_retained x)) [] xs) s =
   last_n 1000 (map snd (filter (\<lambda>(s', x). s' = s \<and> om_granted_qos x \<noteq> AtMostOnce) xs))"
  using outbox.queue_run by (simp add: MaxQueueSize_def)

text \<open>
  \<open>enqueue\<close> and \<open>clear\<close> keep every queue within the bound and the keys distinct, and the
  reported sizes are those of the queues.
\<close>

lemma outbox_invariant:
  assumes "outbox_inv ob"
  shows "outbox_inv (outbox_enqueue ob s msg g r) \<and> outbox_inv (outbox_clear ob s)
    \<and> outbox_size ob s = length (outbox_queue ob s) \<and> outbox_size ob s \<le> 1000
    \<and> outbox_totalSize ob = (\<Sum>s \<in> fst ` set ob. outbox_size ob s)"
proof -
  have d: "distinct (map fst ob)" using assms by (simp add: outbox_inv_def)
  then have "(\<Sum>s \<in> fst ` set ob. outbox_size ob s) = sum_list (map (outbox_size ob) (map fst ob))"
    by (metis image_set sum_list_distinct_conv_sum_set)
  also have "\<dots> = sum_list (map (length \<circ> snd) ob)"
  proof -
    have "outbox_size ob a = length q" if "(a, q) \<in> set ob" for a q
      using that d by (simp add: outbox_size_def)
    then have "map (outbox_size ob \<circ> fst) ob = map (length \<circ> snd) ob" by simp
    then show ?thesis by (simp only: map_map)
  qed
  finally show ?thesis
    using assms queue_length [OF assms, of s]
    by (simp add: outbox_inv_enqueue outbox_inv_clear outbox_size_queue totalSize_sum MaxQueueSize_def)
qed

text \<open>
  Draining hands every queued message of the session to the callback exactly once, in
  queue order, reports their number, and leaves the session's queue empty and the other
  queues as they were. The callback is any function that leaves the outbox alone; the state
  is any state that carries an outbox.
\<close>

lemma outbox_drain_delivers:
  fixes st :: "Outbox \<times> 'a" and f :: "Message \<Rightarrow> Qos \<Rightarrow> bool \<Rightarrow> 'a \<Rightarrow> 'a"
  shows "outbox_drain fst (\<lambda>g (ob, log). (g ob, log)) (\<lambda>m q r. modP (\<lambda>(ob, log). (ob, f m q r log))) s st =
     Ok (length (outbox_queue (fst st) s))
      (outbox_clear (fst st) s,
       fold (\<lambda>m. f (om_msg m) (om_granted_qos m) (om_retained m)) (outbox_queue (fst st) s) (snd st))"
proof -
  obtain ob log where st: "st = (ob, log)" by (cases st)
  have "forP q (\<lambda>m. modP (\<lambda>(ob, log). (ob, f (om_msg m) (om_granted_qos m) (om_retained m) log))) (ob, log) =
      Ok () (ob, fold (\<lambda>m. f (om_msg m) (om_granted_qos m) (om_retained m)) q log)"
    for q :: "OutboxMessage list"
    by (induction q arbitrary: log) simp_all
  moreover have "AList.delete s ob = ob" if "map_of ob s = None"
    using that by (simp add: map_of_eq_None_iff)
  ultimately show ?thesis
    by (simp add: st outbox_drain_def outbox_queue_def outbox_clear_def seqP_apply split: option.split)
qed

end
