(* ===== verification/Codec.thy ===== *)
theory Codec
  imports Packet_Model Utils
begin

text \<open>
  The MQTT 3.1.1 codec, \<open>src/protocol/Codec.hpp\<close> and \<open>Codec.cpp\<close>. A buffer is a list of
  bytes; reading functions take the index and return it advanced; writing functions return
  the number of bytes they report and the extended buffer. \<open>std::vector::operator[]\<close> past the
  end is the outcome \<^const>\<open>UB\<close>; every \<open>throw\<close> of the source is a \<^const>\<open>Throw\<close> with its
  message. Indices and sizes (\<open>size_t\<close>) are natural numbers; the one subtraction that can
  wrap around and the one \<open>int\<close> that can overflow are written out. The bit-fields are laid
  out least significant bit first, as the ABIs the project builds on do.
\<close>

section \<open>Remaining length\<close>

definition MAX_REMAINING_SIZE :: nat where
  "MAX_REMAINING_SIZE = 4"

text \<open>The do-while loop of \<open>encodeRemainingLength\<close>.\<close>

function encode_length_loop :: "nat \<Rightarrow> nat \<Rightarrow> buffer \<Rightarrow> nat \<times> buffer" where
  "encode_length_loop len bytes buf =
     (let encoded_byte = (of_nat (len mod 128) :: byte);
          len' = len div 128;
          encoded_byte' = (if len' > 0 then encoded_byte OR 0x80 else encoded_byte);
          buf' = buf @ [encoded_byte'];
          bytes' = Suc bytes
      in if len' > 0 \<and> bytes' < MAX_REMAINING_SIZE
         then encode_length_loop len' bytes' buf' else (bytes', buf'))"
  by pat_completeness auto
termination
  by (relation "measure fst") auto

declare encode_length_loop.simps [simp del]

definition encodeRemainingLength :: "buffer \<Rightarrow> nat \<Rightarrow> nat \<times> buffer" where
  "encodeRemainingLength buf len =
     (if length buf \<noteq> 1 then (0, buf) else encode_length_loop len 0 buf)"

text \<open>The for loop of \<open>decodeRemainingLength\<close>; the first argument is the number of rounds left.\<close>

fun decode_length_loop :: "nat \<Rightarrow> buffer \<Rightarrow> nat \<Rightarrow> nat \<Rightarrow> nat \<Rightarrow> nat \<times> nat" where
  "decode_length_loop 0 buf index len multiplier = (len, index)"
| "decode_length_loop (Suc rounds) buf index len multiplier =
     (if index \<ge> length buf then (0, index)
      else
        let b = buf ! index;
            len' = len + unat (b AND 0x7F) * multiplier
        in if b AND 0x80 = 0 then (len', Suc index)
           else decode_length_loop rounds buf (Suc index) len' (multiplier * 128))"

definition decodeRemainingLength :: "buffer \<Rightarrow> nat \<Rightarrow> nat \<times> nat" where
  "decodeRemainingLength buf index = decode_length_loop MAX_REMAINING_SIZE buf index 0 1"

section \<open>Reading\<close>

definition readByte :: "buffer \<Rightarrow> nat \<Rightarrow> (byte \<times> nat) outcome" where
  "readByte buf index = (if index < length buf then Ret (buf ! index, index + 1) else UB)"

definition readUint16 :: "buffer \<Rightarrow> nat \<Rightarrow> (u16 \<times> nat) outcome" where
  "readUint16 buf index =
     (if index + 1 < length buf
      then Ret (push_bit 8 (ucast (buf ! index)) OR ucast (buf ! (index + 1)), index + 2)
      else UB)"

definition readUint32 :: "buffer \<Rightarrow> nat \<Rightarrow> (u32 \<times> nat) outcome" where
  "readUint32 buf index =
     (if index + 3 < length buf
      then Ret (push_bit 24 (ucast (buf ! index)) OR push_bit 16 (ucast (buf ! (index + 1)))
                OR push_bit 8 (ucast (buf ! (index + 2))) OR ucast (buf ! (index + 3)), index + 4)
      else UB)"

text \<open>\<open>readString16(buffer, index, outString)\<close>: the result is the string and the index afterwards.\<close>

definition readString16 :: "buffer \<Rightarrow> nat \<Rightarrow> string \<Rightarrow> (string \<times> nat) outcome" where
  "readString16 buf index outString =
     (if index + 2 > length buf then Ret (outString, index)
      else
        bind_out (readUint16 buf index) (\<lambda>(len, index).
          if index + unat len > length buf \<or> len = 0 then Ret (outString, index)
          else Ret (string_of_bytes (take (unat len) (drop index buf)), index + unat len)))"

section \<open>Writing\<close>

definition writeByte :: "buffer \<Rightarrow> byte \<Rightarrow> nat \<times> buffer" where
  "writeByte buf v = (1, buf @ [v])"

definition writeUint16 :: "buffer \<Rightarrow> u16 \<Rightarrow> nat \<times> buffer" where
  "writeUint16 buf v = (2, buf @ [ucast (drop_bit 8 v), ucast (v AND 0xFF)])"

definition writeUint32 :: "buffer \<Rightarrow> u32 \<Rightarrow> nat \<times> buffer" where
  "writeUint32 buf v =
     (4, buf @ [ucast (drop_bit 24 v), ucast (drop_bit 16 v), ucast (drop_bit 8 v), ucast (v AND 0xFF)])"

definition writeString16 :: "buffer \<Rightarrow> string \<Rightarrow> nat \<times> buffer" where
  "writeString16 buf v =
     foldl (\<lambda>(n, b) c. (n + fst (writeByte b (byte_of_char c)), snd (writeByte b (byte_of_char c))))
       (writeUint16 buf (of_nat (length v))) v"

section \<open>Decoding\<close>

definition deserializeAckPacket :: "buffer \<Rightarrow> Packet option outcome" where
  "deserializeAckPacket buf =
     bind_out (readByte buf 0) (\<lambda>(header, index).
     let flags = header AND 0x0F in
     case packet_type_of (header_type header) of
       None \<Rightarrow> UB \<comment> \<open>no enumerator; the decoder table calls this function for types 4 to 7 only\<close>
     | Some type \<Rightarrow>
     bind_out (if type = Pubrel then throw_if (flags \<noteq> 0x02) ''PUBREL flags error''
               else throw_if (flags \<noteq> 0) ''PUBLISH ACK flags error'') (\<lambda>_.
     let (remainingLength, index) = decodeRemainingLength buf index in
     bind_out (throw_if (index + remainingLength > length buf)
                 ''PUBLISH ACKPACKET remaining length overflow'') (\<lambda>_.
     bind_out (readUint16 buf index) (\<lambda>(packet_id, index).
     bind_out (throw_if (packet_id = 0) ''PUBLISH ACKPACKET packet_id is zero'') (\<lambda>_.
     Ret (Some \<lparr>pkt_type = type, pkt_body = AckBody \<lparr>ack_packet_id = packet_id\<rparr>\<rparr>))))))"

definition deserializeEmptyPacket :: "buffer \<Rightarrow> Packet option outcome" where
  "deserializeEmptyPacket buf =
     bind_out (readByte buf 0) (\<lambda>(header, index).
     let flags = header AND 0x0F in
     bind_out (throw_if (flags \<noteq> 0) ''Empty packet flags error'') (\<lambda>_.
     case packet_type_of (header_type header) of
       None \<Rightarrow> UB \<comment> \<open>no enumerator; called for types 12 to 14 only\<close>
     | Some type \<Rightarrow> Ret (Some \<lparr>pkt_type = type, pkt_body = EmptyBody\<rparr>)))"

definition deserializeConnect :: "buffer \<Rightarrow> Packet option outcome" where
  "deserializeConnect buf =
     bind_out (readByte buf 0) (\<lambda>(header, index).
     bind_out (throw_if (header AND 0x0F \<noteq> 0) ''CONNECT flags error'') (\<lambda>_.
     let (remainingLength, index) = decodeRemainingLength buf index in
     bind_out (throw_if (index + remainingLength > length buf) ''CONNECT remaining length overflow'') (\<lambda>_.
     bind_out (readString16 buf index []) (\<lambda>(protocol, index).
     bind_out (throw_if (\<not> is_valid_utf8 protocol) ''CONNECT protocol is not utf-8'') (\<lambda>_.
     bind_out (readByte buf index) (\<lambda>(level, index).
     bind_out (readByte buf index) (\<lambda>(b, index).
     bind_out (throw_if (flag_reserved b) ''CONNECT protocol reserved is not 0'') (\<lambda>_.
     let has_will = flag_will b; will_retain = flag_will_retain b in
     bind_out (throw_if (has_will \<and> flag_will_qos b = 3) ''CONNECT protocol will qos is 3'') (\<lambda>_.
     bind_out (throw_if (\<not> has_will \<and> (will_retain \<or> flag_will_qos b \<noteq> 0))
                 ''CONNECT protocol will flags without will'') (\<lambda>_.
     bind_out (readUint16 buf index) (\<lambda>(keepalive, index).
     bind_out (readString16 buf index []) (\<lambda>(client_id, index).
     bind_out (throw_if (\<not> is_valid_utf8 client_id) ''CONNECT client id is not utf-8'') (\<lambda>_.
     bind_out (if has_will then
                 bind_out (readString16 buf index []) (\<lambda>(will_topic, index).
                 bind_out (throw_if (\<not> is_valid_utf8 will_topic) ''CONNECT will topic is not utf-8'') (\<lambda>_.
                 bind_out (readString16 buf index []) (\<lambda>(will_payload, index).
                 Ret (will_topic, will_payload, index))))
               else Ret ([], [], index)) (\<lambda>(will_topic, will_payload, index).
     bind_out (throw_if (\<not> flag_username b \<and> flag_password b) ''password flag without username flag'') (\<lambda>_.
     bind_out (if flag_username b then
                 bind_out (readString16 buf index []) (\<lambda>(username, index).
                 bind_out (throw_if (\<not> is_valid_utf8 username \<and> username \<noteq> [])
                             ''CONNECT username is not utf-8'') (\<lambda>_.
                 Ret (username, index)))
               else Ret ([], index)) (\<lambda>(username, index).
     bind_out (if flag_password b then readString16 buf index [] else Ret ([], index)) (\<lambda>(password, index).
     Ret (Some \<lparr>pkt_type = Connect,
                 pkt_body = ConnectBody
                   \<lparr>cp_level = level, cp_protocol = protocol, cp_client_id = client_id,
                    cp_username = username, cp_password = password,
                    cp_will_topic = will_topic, cp_will_payload = will_payload,
                    cp_will_qos = qos_of (flag_will_qos b), cp_will_retain = will_retain,
                    cp_has_will = has_will, cp_clean_session = flag_clean_session b,
                    cp_keepalive = keepalive, cp_byte = b\<rparr>\<rparr>))))))))))))))))))"

text \<open>
  \<open>payloadSize\<close> is an unsigned subtraction. When the fields read exceed the remaining length
  it wraps to a number above \<open>std::string::max_size\<close>, and \<open>assign\<close> throws \<open>std::length_error\<close>.
\<close>

definition deserializePublish :: "buffer \<Rightarrow> Packet option outcome" where
  "deserializePublish buf =
     bind_out (readByte buf 0) (\<lambda>(header, index).
     bind_out (throw_if (header_qos header = 3) ''PUBLISH qos'') (\<lambda>_.
     let qos = qos_of (header_qos header);
         (remainingLength, index) = decodeRemainingLength buf index in
     bind_out (throw_if (index + remainingLength > length buf) ''PUBLISH remaining length overflow'') (\<lambda>_.
     let headerStart = index in
     bind_out (readString16 buf index []) (\<lambda>(topic, index).
     bind_out (throw_if (\<not> is_valid_utf8 topic) ''PUBLISH topic is not utf-8'') (\<lambda>_.
     bind_out (if qos_val qos > qos_val AtMostOnce then
                 bind_out (readUint16 buf index) (\<lambda>(packet_id, index).
                 bind_out (throw_if (packet_id = 0) ''PUBLISH packet_id is zero'') (\<lambda>_.
                 Ret (packet_id, index)))
               else Ret (0, index)) (\<lambda>(packet_id, index).
     bind_out (throw_if (index - headerStart > remainingLength) ''length_error'') (\<lambda>_.
     let payloadSize = remainingLength - (index - headerStart) in
     Ret (Some \<lparr>pkt_type = Publish,
                 pkt_body = PublishBody
                   \<lparr>pub_topic = topic, pub_payload = string_of_bytes (take payloadSize (drop index buf)),
                    pub_qos = qos, pub_retain = header_retain header, pub_dup = header_dup header,
                    pub_packet_id = packet_id, pub_source_client = []\<rparr>\<rparr>))))))))"


definition deserializePubAck :: "buffer \<Rightarrow> Packet option outcome" where
  "deserializePubAck buf = deserializeAckPacket buf"

definition deserializePubRec :: "buffer \<Rightarrow> Packet option outcome" where
  "deserializePubRec buf = deserializeAckPacket buf"

definition deserializePubRel :: "buffer \<Rightarrow> Packet option outcome" where
  "deserializePubRel buf = deserializeAckPacket buf"

definition deserializePubComp :: "buffer \<Rightarrow> Packet option outcome" where
  "deserializePubComp buf = deserializeAckPacket buf"

definition MQTT_CONNACK_BYTE :: byte where "MQTT_CONNACK_BYTE = 0x20"
definition MQTT_PUBREL_BYTE :: byte where "MQTT_PUBREL_BYTE = 0x62"
definition MQTT_SUBSCRIBE_BYTE :: byte where "MQTT_SUBSCRIBE_BYTE = 0x82"
definition MQTT_SUBACK_BYTE :: byte where "MQTT_SUBACK_BYTE = 0x90"
definition MQTT_UNSUBSCRIBE_BYTE :: byte where "MQTT_UNSUBSCRIBE_BYTE = 0xA2"
definition MQTT_UNSUBACK_BYTE :: byte where "MQTT_UNSUBACK_BYTE = 0xB0"
definition MQTT_PINGRESP_BYTE :: byte where "MQTT_PINGRESP_BYTE = 0xD0"
definition MQTT_DISCONNECT_BYTE :: byte where "MQTT_DISCONNECT_BYTE = 0xE0"

text \<open>
  The two while loops over the payload. Both end because a filter that passes
  \<open>is_valid_utf8\<close> is not empty, and a non-empty filter has advanced the index.
\<close>

lemma is_valid_utf8_not_empty: "is_valid_utf8 s \<Longrightarrow> s \<noteq> []"
  by (auto simp: is_valid_utf8_def)

lemma readString16_progress:
  "readString16 buf index [] = Ret (s, index') \<Longrightarrow> s \<noteq> [] \<Longrightarrow> index + 2 + length s = index'"
  by (auto simp: readString16_def readUint16_def Let_def split: if_splits)

lemma readByte_progress: "readByte buf index = Ret (b, index') \<Longrightarrow> index' = index + 1"
  by (simp add: readByte_def split: if_splits)

function subscribe_entries :: "buffer \<Rightarrow> nat \<Rightarrow> nat \<Rightarrow> SubscribeEntry list \<Rightarrow> SubscribeEntry list outcome" where
  "subscribe_entries buf packetEnd index entries =
     (if index < packetEnd then
        bind_out (readString16 buf index []) (\<lambda>(topic_filter, index').
        if \<not> is_valid_utf8 topic_filter then Throw ''SUBSCRIBE topic filter is not utf-8''
        else
          bind_out (readByte buf index') (\<lambda>(qos, index'').
          if qos > qos_val ExactlyOnce then Throw ''SUBSCRIBE qos''
          else subscribe_entries buf packetEnd index''
                 (entries @ [\<lparr>se_filter = topic_filter, se_qos = qos_of qos\<rparr>])))
      else Ret entries)"
  by pat_completeness auto
termination
  by (relation "measure (\<lambda>(buf, packetEnd, index, entries). packetEnd - index)")
     (auto dest!: readString16_progress is_valid_utf8_not_empty readByte_progress)

function unsubscribe_topics :: "buffer \<Rightarrow> nat \<Rightarrow> nat \<Rightarrow> string list \<Rightarrow> string list outcome" where
  "unsubscribe_topics buf packetEnd index topics =
     (if index < packetEnd then
        bind_out (readString16 buf index []) (\<lambda>(topic_filter, index').
        if \<not> is_valid_utf8 topic_filter then Throw ''UNSUBSCRIBE topic filter is not utf-8''
        else unsubscribe_topics buf packetEnd index' (topics @ [topic_filter]))
      else Ret topics)"
  by pat_completeness auto
termination
  by (relation "measure (\<lambda>(buf, packetEnd, index, topics). packetEnd - index)")
     (auto dest!: readString16_progress is_valid_utf8_not_empty)

declare subscribe_entries.simps [simp del] unsubscribe_topics.simps [simp del]

definition deserializeSubscribe :: "buffer \<Rightarrow> Packet option outcome" where
  "deserializeSubscribe buf =
     bind_out (readByte buf 0) (\<lambda>(header, index).
     bind_out (throw_if (header \<noteq> MQTT_SUBSCRIBE_BYTE) ''SUBSCRIBE flags'') (\<lambda>_.
     let (remainingLength, index) = decodeRemainingLength buf index in
     bind_out (throw_if (index + remainingLength > length buf) ''SUBSCRIBE remaining length overflow'') (\<lambda>_.
     let packetEnd = index + remainingLength in
     bind_out (readUint16 buf index) (\<lambda>(packet_id, index).
     bind_out (subscribe_entries buf packetEnd index []) (\<lambda>entries.
     Ret (Some \<lparr>pkt_type = Subscribe,
                 pkt_body = SubscribeBody \<lparr>sub_packet_id = packet_id, sub_entries = entries\<rparr>\<rparr>))))))"

definition deserializeUnsubscribe :: "buffer \<Rightarrow> Packet option outcome" where
  "deserializeUnsubscribe buf =
     bind_out (readByte buf 0) (\<lambda>(header, index).
     bind_out (throw_if (header \<noteq> MQTT_UNSUBSCRIBE_BYTE) ''UNSUBSCRIBE flags'') (\<lambda>_.
     let (remainingLength, index) = decodeRemainingLength buf index in
     bind_out (throw_if (index + remainingLength > length buf) ''UNSUBSCRIBE remaining length overflow'') (\<lambda>_.
     let packetEnd = index + remainingLength in
     bind_out (readUint16 buf index) (\<lambda>(packet_id, index).
     bind_out (unsubscribe_topics buf packetEnd index []) (\<lambda>topics.
     Ret (Some \<lparr>pkt_type = Unsubscribe,
                 pkt_body = UnsubscribeBody \<lparr>unsub_packet_id = packet_id, unsub_topics = topics\<rparr>\<rparr>))))))"

definition deserializePingReq :: "buffer \<Rightarrow> Packet option outcome" where
  "deserializePingReq buf = deserializeEmptyPacket buf"

definition deserializePingResp :: "buffer \<Rightarrow> Packet option outcome" where
  "deserializePingResp buf = deserializeEmptyPacket buf"

definition deserializeDisconnect :: "buffer \<Rightarrow> Packet option outcome" where
  "deserializeDisconnect buf = deserializeEmptyPacket buf"

text \<open>The tables \<open>decoders_\<close>, indexed by the type number; \<open>None\<close> is a null entry.\<close>

definition decoders :: "(buffer \<Rightarrow> Packet option outcome) option list" where
  "decoders =
     [None, Some deserializeConnect, None, Some deserializePublish, Some deserializePubAck,
      Some deserializePubRec, Some deserializePubRel, Some deserializePubComp,
      Some deserializeSubscribe, None, Some deserializeUnsubscribe, None,
      Some deserializePingReq, Some deserializePingResp, Some deserializeDisconnect]"

text \<open>The static \<open>MaxPacketSize\<close> is an argument; its value before the configuration is read is below.\<close>

definition MaxPacketSize_default :: u32 where
  "MaxPacketSize_default = 16 * 1024 * 1024"

definition deserializePacket :: "u32 \<Rightarrow> nat \<Rightarrow> buffer \<Rightarrow> Packet option outcome" where
  "deserializePacket MaxPacketSize type buf =
     (if length buf < 2 \<or> length buf > unat MaxPacketSize then Throw ''packet size error''
      else if type < length decoders then
        (case decoders ! type of Some f \<Rightarrow> f buf | None \<Rightarrow> Ret None)
      else Ret None)"

definition decode :: "u32 \<Rightarrow> buffer \<Rightarrow> Packet option outcome" where
  "decode MaxPacketSize buf =
     (if length buf < 2 then Ret None
      else deserializePacket MaxPacketSize (header_type (buf ! 0)) buf)"

section \<open>Encoding\<close>

text \<open>
  A serializer appends to the buffer and returns a flag. \<open>std::get\<close> on a body of another
  type throws \<open>std::bad_variant_access\<close>. The byte counts the writers return are not used.
\<close>

abbreviation append_byte :: "byte \<Rightarrow> buffer \<Rightarrow> buffer" where
  "append_byte v buf \<equiv> snd (writeByte buf v)"

abbreviation append_uint16 :: "u16 \<Rightarrow> buffer \<Rightarrow> buffer" where
  "append_uint16 v buf \<equiv> snd (writeUint16 buf v)"

definition serializeAckPacket :: "Packet \<Rightarrow> buffer \<Rightarrow> (bool \<times> buffer) outcome" where
  "serializeAckPacket pkt buf =
     (let buf = (if pkt_type pkt = Pubrel then append_byte MQTT_PUBREL_BYTE buf
                 else append_byte (push_bit 4 (of_nat (packet_type_val (pkt_type pkt)))) buf);
          buf = append_byte 2 buf
      in case pkt_body pkt of
           AckBody ack \<Rightarrow> Ret (True, append_uint16 (ack_packet_id ack) buf)
         | _ \<Rightarrow> Throw ''bad_variant_access'')"

definition serializeConnack :: "Packet \<Rightarrow> buffer \<Rightarrow> (bool \<times> buffer) outcome" where
  "serializeConnack pkt buf =
     (let buf = append_byte 2 (append_byte MQTT_CONNACK_BYTE buf)
      in case pkt_body pkt of
           ConnackBody ca \<Rightarrow>
             Ret (True, append_byte (return_code_val (ca_return_code ca))
                          (append_byte (if ca_session_present ca then 1 else 0) buf))
         | _ \<Rightarrow> Throw ''bad_variant_access'')"

text \<open>
  \<open>calcPublishRemainingLength\<close> computes in an \<open>int\<close>: a \<open>size_t\<close> added to it is truncated to
  32 bits, adding the literal 2 can overflow, and the result is sign-extended to \<open>size_t\<close>.
\<close>

definition to_int32 :: "int \<Rightarrow> int" where
  "to_int32 x = signed_take_bit 31 x"

definition calcPublishRemainingLength :: "PublishPacket \<Rightarrow> nat outcome" where
  "calcPublishRemainingLength pkt =
     (let len = to_int32 (2 + int (length (pub_topic pkt)))
      in bind_out (if pub_qos pkt \<noteq> AtMostOnce
                   then if len + 2 > 2147483647 then UB else Ret (len + 2)
                   else Ret len) (\<lambda>len.
         Ret (nat (to_int32 (len + int (length (pub_payload pkt))) mod 2 ^ 64))))"

definition serializePublish :: "Packet \<Rightarrow> buffer \<Rightarrow> (bool \<times> buffer) outcome" where
  "serializePublish pkt buf =
     (case pkt_body pkt of
        PublishBody pub \<Rightarrow>
          let header = make_header (packet_type_val Publish) (pub_dup pub)
                         (qos_val (pub_qos pub)) (pub_retain pub);
              buf = append_byte header buf
          in bind_out (calcPublishRemainingLength pub) (\<lambda>remainingLength.
             if remainingLength = 0 then Ret (False, buf)
             else
               let buf = snd (encodeRemainingLength buf remainingLength);
                   buf = snd (writeString16 buf (pub_topic pub));
                   buf = (if pub_qos pub \<noteq> AtMostOnce then append_uint16 (pub_packet_id pub) buf else buf)
               in Ret (True, buf @ bytes_of_string (pub_payload pub)))
      | _ \<Rightarrow> Throw ''bad_variant_access'')"

definition serializePubAck :: "Packet \<Rightarrow> buffer \<Rightarrow> (bool \<times> buffer) outcome" where
  "serializePubAck pkt buf = serializeAckPacket pkt buf"

definition serializePubRec :: "Packet \<Rightarrow> buffer \<Rightarrow> (bool \<times> buffer) outcome" where
  "serializePubRec pkt buf = serializeAckPacket pkt buf"

definition serializePubRel :: "Packet \<Rightarrow> buffer \<Rightarrow> (bool \<times> buffer) outcome" where
  "serializePubRel pkt buf = serializeAckPacket pkt buf"

definition serializePubComp :: "Packet \<Rightarrow> buffer \<Rightarrow> (bool \<times> buffer) outcome" where
  "serializePubComp pkt buf = serializeAckPacket pkt buf"

definition serializeSubAck :: "Packet \<Rightarrow> buffer \<Rightarrow> (bool \<times> buffer) outcome" where
  "serializeSubAck pkt buf =
     (case pkt_body pkt of
        SubackBody sa \<Rightarrow>
          let buf = append_byte MQTT_SUBACK_BYTE buf;
              buf = snd (encodeRemainingLength buf (2 + length (sa_granted sa)));
              buf = append_uint16 (sa_packet_id sa) buf
          in Ret (True, foldl (\<lambda>buf qos. append_byte qos buf) buf (sa_granted sa))
      | _ \<Rightarrow> Throw ''bad_variant_access'')"

definition serializeUnsubAck :: "Packet \<Rightarrow> buffer \<Rightarrow> (bool \<times> buffer) outcome" where
  "serializeUnsubAck pkt buf =
     (case pkt_body pkt of
        AckBody ua \<Rightarrow>
          Ret (True, append_uint16 (ack_packet_id ua) (append_byte 2 (append_byte MQTT_UNSUBACK_BYTE buf)))
      | _ \<Rightarrow> Throw ''bad_variant_access'')"

definition serializePingResp :: "Packet \<Rightarrow> buffer \<Rightarrow> (bool \<times> buffer) outcome" where
  "serializePingResp pkt buf = Ret (True, append_byte 0 (append_byte MQTT_PINGRESP_BYTE buf))"

definition serializeDisconnect :: "Packet \<Rightarrow> buffer \<Rightarrow> (bool \<times> buffer) outcome" where
  "serializeDisconnect pkt buf = Ret (True, append_byte 0 (append_byte MQTT_DISCONNECT_BYTE buf))"

definition encoders :: "(Packet \<Rightarrow> buffer \<Rightarrow> (bool \<times> buffer) outcome) option list" where
  "encoders =
     [None, None, Some serializeConnack, Some serializePublish, Some serializePubAck,
      Some serializePubRec, Some serializePubRel, Some serializePubComp, None,
      Some serializeSubAck, None, Some serializeUnsubAck, None,
      Some serializePingResp, Some serializeDisconnect]"

definition serializePacket :: "Packet \<Rightarrow> buffer \<Rightarrow> (bool \<times> buffer) outcome" where
  "serializePacket pkt buf =
     (let type = packet_type_val (pkt_type pkt)
      in if type < length encoders then
           (case encoders ! type of Some f \<Rightarrow> f pkt buf | None \<Rightarrow> Ret (False, buf))
         else Ret (False, buf))"

definition encode :: "Packet \<Rightarrow> buffer \<Rightarrow> (bool \<times> buffer) outcome" where
  "encode pkt buf = serializePacket pkt buf"

end
