(* ===== verification/Codec_Proofs.thy ===== *)
theory Codec_Proofs
  imports Codec
begin

text \<open>
  The wire format of MQTT 3.1.1 stated on its own (variable-length integers, length-prefixed
  strings, control packets), and the theorems that relate the codec to it: round trips of
  what the broker both writes and reads, the bytes of what it only writes, the packets it
  reads from what a client writes, and well-formedness of everything the decoder returns.
\<close>

section \<open>The wire format\<close>

fun varint :: "nat \<Rightarrow> buffer" where
  "varint n = (if n < 128 then [of_nat n] else (of_nat (n mod 128) OR 0x80) # varint (n div 128))"

declare varint.simps [simp del]

definition u16_bytes :: "u16 \<Rightarrow> buffer" where
  "u16_bytes v = [ucast (drop_bit 8 v), ucast v]"

definition mqtt_string :: "string \<Rightarrow> buffer" where
  "mqtt_string s = u16_bytes (of_nat (length s)) @ bytes_of_string s"

definition mqtt_packet :: "byte \<Rightarrow> buffer \<Rightarrow> buffer" where
  "mqtt_packet header body = header # varint (length body) @ body"

text \<open>The unread part of a buffer.\<close>

definition unread :: "buffer \<Rightarrow> nat \<Rightarrow> buffer \<Rightarrow> bool" where
  "unread buf index xs \<longleftrightarrow> index \<le> length buf \<and> drop index buf = xs"

section \<open>Primitive readers and writers\<close>

lemma and_7F: "(b :: byte) AND 0x7F = take_bit 7 b"
proof -
  have "(0x7F :: byte) = mask 7" by (simp add: mask_eq_exp_minus_1)
  then show ?thesis by (simp add: take_bit_eq_mask)
qed

lemma and_80: "(b :: byte) AND 0x80 = 0 \<longleftrightarrow> \<not> bit b 7"
proof -
  have "(0x80 :: byte) = 2 ^ 7" by simp
  then show ?thesis by (simp only: and_exp_eq_0_iff_not_bit)
qed

lemma bit_80: "bit (0x80 :: byte) i \<longleftrightarrow> i = 7"
proof -
  have "(0x80 :: byte) = 2 ^ 7" by simp
  then show ?thesis by (simp only: bit_exp_iff) auto
qed

lemma not_bit_small: "n < 128 \<Longrightarrow> \<not> bit (of_nat n :: byte) 7"
  by (simp add: bit_iff_odd_drop_bit drop_bit_eq_iff_unat[where k=0, THEN iffD2] unat_of_nat_byte)

lemma varint_byte:
  assumes "n < 128"
  shows "unat ((of_nat n :: byte) AND 0x7F) = n" and "unat ((of_nat n OR 0x80 :: byte) AND 0x7F) = n"
proof -
  show 1: "unat ((of_nat n :: byte) AND 0x7F) = n"
    using assms by (simp only: and_7F unsigned_take_bit_eq unat_of_nat_byte) (simp add: unat_of_nat take_bit_eq_mod)
  have "(of_nat n OR 0x80 :: byte) AND 0x7F = of_nat n AND 0x7F"
    by (rule bit_word_eqI) (auto simp: and_7F bit_simps bit_80)
  then show "unat ((of_nat n OR 0x80 :: byte) AND 0x7F) = n" by (simp only: 1)
qed

lemma varint_more: "n < 128 \<Longrightarrow> (of_nat n :: byte) AND 0x80 = 0" "(b OR 0x80 :: byte) AND 0x80 \<noteq> 0"
  by (simp_all only: and_80 not_bit_small) (auto simp: bit_simps bit_80)

lemma length_varint_pos [simp]: "0 < length (varint n)"
  by (subst varint.simps) simp

lemma length_varint: "n < 128 ^ k \<Longrightarrow> 0 < k \<Longrightarrow> length (varint n) \<le> k"
proof (induction n arbitrary: k rule: varint.induct)
  case (1 n)
  then show ?case
    by (cases k; cases "k - 1") (auto simp: varint.simps [of n] less_mult_imp_div_less mult.commute)
qed

lemma encode_length_loop_varint:
  "len < 128 ^ (MAX_REMAINING_SIZE - bytes) \<Longrightarrow> bytes < MAX_REMAINING_SIZE \<Longrightarrow>
   encode_length_loop len bytes buf = (bytes + length (varint len), buf @ varint len)"
proof (induction len arbitrary: bytes buf rule: varint.induct)
  case (1 len)
  show ?case
  proof (cases "len < 128")
    case True
    then show ?thesis by (simp add: encode_length_loop.simps [of len] varint.simps [of len] Let_def)
  next
    case False
    then have k: "Suc bytes < MAX_REMAINING_SIZE"
      using 1(2,3) by (cases "MAX_REMAINING_SIZE - bytes"; cases "MAX_REMAINING_SIZE - bytes - 1") auto
    have "len div 128 < 128 ^ (MAX_REMAINING_SIZE - Suc bytes)"
      using 1(2) k by (intro less_mult_imp_div_less) (metis Suc_diff_Suc Suc_lessD mult.commute power_Suc)
    then have "encode_length_loop (len div 128) (Suc bytes) (buf @ [of_nat (len mod 128) OR 0x80])
      = (Suc bytes + length (varint (len div 128)),
         (buf @ [of_nat (len mod 128) OR 0x80]) @ varint (len div 128))"
      using 1(1) False k by blast
    then show ?thesis
      using False k by (simp add: encode_length_loop.simps [of len] varint.simps [of len] Let_def)
  qed
qed

lemma encodeRemainingLength_varint [codec_simps]:
  "n < 2 ^ 28 \<Longrightarrow> encodeRemainingLength [h] n = (length (varint n), h # varint n)"
  by (simp add: encodeRemainingLength_def encode_length_loop_varint MAX_REMAINING_SIZE_def)

lemma unread_ConsD:
  "unread buf index (b # xs) \<Longrightarrow> index < length buf \<and> buf ! index = b \<and> unread buf (Suc index) xs"
  unfolding unread_def by (metis Cons_nth_drop_Suc Suc_leI drop_eq_Nil2 leI list.distinct(1) list.inject)

lemma unread_appendD: "unread buf index (xs @ ys) \<Longrightarrow> unread buf (index + length xs) ys"
  by (auto simp: unread_def add.commute [of index] simp flip: drop_drop dest!: arg_cong [where f = length])

lemma unread_length: "unread buf index xs \<Longrightarrow> length buf = index + length xs"
  by (auto simp: unread_def)

lemma unread_all [simp]: "unread buf 0 buf"
  by (simp add: unread_def)

lemma decode_length_loop_varint:
  "unread buf index (varint n @ xs) \<Longrightarrow> n < 128 ^ k \<Longrightarrow> 0 < k \<Longrightarrow>
   decode_length_loop k buf index len m = (len + n * m, index + length (varint n))"
proof (induction n arbitrary: k index len m rule: varint.induct)
  case (1 n)
  then obtain k' where k: "k = Suc k'" by (cases k) auto
  show ?case
  proof (cases "n < 128")
    case True
    with 1(2) show ?thesis
      by (auto simp: k varint.simps [of n] Let_def varint_byte varint_more dest!: unread_ConsD)
  next
    case False
    then have k': "0 < k'" using 1(3) k by (cases k') auto
    have un: "index < length buf" "buf ! index = of_nat (n mod 128) OR 0x80"
      "unread buf (Suc index) (varint (n div 128) @ xs)"
      using 1(2) False unread_ConsD [of buf index "of_nat (n mod 128) OR 0x80" "varint (n div 128) @ xs"]
      by (simp_all add: varint.simps [of n])
    have "n div 128 < 128 ^ k'"
      using 1(3) k by (intro less_mult_imp_div_less) (simp add: mult.commute)
    note rest = 1(1) [OF False un(3) this k', of "len + n mod 128 * m" "m * 128"]
    have "n * m = (n div 128 * 128 + n mod 128) * m" by simp
    then have "n mod 128 * m + n div 128 * (m * 128) = n * m" by (simp only: algebra_simps)
    with rest un(1,2) False show ?thesis
      by (simp add: k Let_def varint_byte varint_more varint.simps [of n])
  qed
qed

lemma decodeRemainingLength_varint [codec_simps]:
  "unread buf index (varint n @ xs) \<Longrightarrow> n < 2 ^ 28 \<Longrightarrow>
   decodeRemainingLength buf index = (n, index + length (varint n))"
  by (simp add: decodeRemainingLength_def decode_length_loop_varint MAX_REMAINING_SIZE_def)


lemma join_u16_bytes: "push_bit 8 (ucast (ucast (drop_bit 8 v) :: byte)) OR ucast (ucast v :: byte) = (v :: u16)"
  by (rule bit_word_eqI) (auto simp: bit_simps less_diff_conv2)

lemma readByte_unread [codec_simps]: "unread buf index (b # xs) \<Longrightarrow> readByte buf index = Ret (b, Suc index)"
  by (auto simp: readByte_def dest: unread_ConsD)

lemma readUint16_unread [codec_simps]:
  "unread buf index (u16_bytes v @ xs) \<Longrightarrow> readUint16 buf index = Ret (v, index + 2)"
  by (auto simp: readUint16_def u16_bytes_def join_u16_bytes dest!: unread_ConsD)

lemma length_u16_bytes [simp]: "length (u16_bytes v) = 2"
  by (simp add: u16_bytes_def)

lemma length_mqtt_string [simp]: "length (mqtt_string s) = 2 + length s"
  by (simp add: mqtt_string_def)

lemma readString16_unread [codec_simps]:
  assumes "unread buf index (mqtt_string s @ xs)" and "length s < 65536"
  shows "readString16 buf index [] = Ret (s, index + 2 + length s)"
proof -
  have len: "length buf = index + 2 + length s + length xs"
    using unread_length [OF assms(1)] by simp
  have u: "unread buf index (u16_bytes (of_nat (length s)) @ bytes_of_string s @ xs)"
    using assms(1) by (simp add: mqtt_string_def)
  have "unread buf (index + 2) (bytes_of_string s @ xs)"
    using unread_appendD [OF u] by simp
  then have "take (length s) (drop (index + 2) buf) = bytes_of_string s"
    by (simp add: unread_def)
  moreover have "unat (of_nat (length s) :: u16) = length s"
    using assms(2) by (rule unat_of_nat_u16)
  moreover have "(of_nat (length s) :: u16) = 0 \<longleftrightarrow> s = []"
    using calculation(2) by auto
  ultimately show ?thesis
    using len by (simp add: readString16_def readUint16_unread [OF u])
qed

lemma writeUint16_bytes [codec_simps]: "append_uint16 v buf = buf @ u16_bytes v"
proof -
  have "(ucast (v AND 0xFF) :: byte) = ucast v"
  proof -
    have "v AND 0xFF = take_bit 8 v" by (simp add: take_bit_eq_mask mask_eq_exp_minus_1)
    then show ?thesis by (simp only:) (rule bit_word_eqI; auto simp: bit_simps)
  qed
  then show ?thesis by (simp add: writeUint16_def u16_bytes_def)
qed

lemma writeString16_bytes [codec_simps]: "snd (writeString16 buf s) = buf @ mqtt_string s"
proof -
  have "snd (foldl (\<lambda>(n, b) c. (n + fst (writeByte b (byte_of_char c)), snd (writeByte b (byte_of_char c)))) nb s)
      = snd nb @ bytes_of_string s" for nb
    by (induction s arbitrary: nb) (auto simp: writeByte_def)
  then show ?thesis
    unfolding writeString16_def mqtt_string_def
    by (simp only: writeUint16_bytes append_assoc)
qed

lemma length_mqtt_packet: "length (mqtt_packet h body) = 1 + length (varint (length body)) + length body"
  by (simp add: mqtt_packet_def)

text \<open>What every decoder does first: it reads the header byte and the remaining length.\<close>

lemma unread_mqtt_packet:
  fixes h :: byte and body :: buffer
  assumes "length body < 2 ^ 28"
  defines "buf \<equiv> mqtt_packet h body" and "start \<equiv> 1 + length (varint (length body))"
  shows "readByte buf 0 = Ret (h, 1)" and "decodeRemainingLength buf 1 = (length body, start)"
    and "start + length body = length buf" and "unread buf start body"
    and "buf ! 0 = h" and "2 \<le> length buf"
proof -
  have u0: "unread buf 0 (h # varint (length body) @ body)"
    by (simp add: buf_def mqtt_packet_def)
  then have u1: "unread buf 1 (varint (length body) @ body)"
    using unread_ConsD by fastforce
  show "readByte buf 0 = Ret (h, 1)" using readByte_unread [OF u0] by simp
  show "decodeRemainingLength buf 1 = (length body, start)"
    using decodeRemainingLength_varint [OF u1 assms(1)] by (simp add: start_def)
  show "unread buf start body"
    using unread_appendD [OF u1] by (simp add: start_def)
  show "start + length body = length buf"
    by (simp add: start_def buf_def length_mqtt_packet)
  show "buf ! 0 = h" by (simp add: buf_def mqtt_packet_def)
  show "2 \<le> length buf"
    using length_varint_pos [of "length body"] by (simp add: buf_def length_mqtt_packet Suc_leI)
qed

lemma decode_table:
  assumes "2 \<le> length buf" "length buf \<le> unat MaxPacketSize" "header_type (buf ! 0) < length decoders"
    and "decoders ! header_type (buf ! 0) = Some f"
  shows "decode MaxPacketSize buf = f buf"
  using assms by (simp add: decode_def deserializePacket_def)

section \<open>PUBLISH\<close>

text \<open>A packet the broker can both send and receive.\<close>

definition publish_ok :: "PublishPacket \<Rightarrow> bool" where
  "publish_ok pub \<longleftrightarrow>
     is_valid_utf8 (pub_topic pub) \<and> length (pub_topic pub) < 65536 \<and>
     (pub_packet_id pub = 0 \<longleftrightarrow> pub_qos pub = AtMostOnce) \<and> pub_source_client pub = [] \<and>
     length (pub_topic pub) + length (pub_payload pub) + 4 < 2 ^ 28"

definition publish_body :: "PublishPacket \<Rightarrow> buffer" where
  "publish_body pub =
     mqtt_string (pub_topic pub) @ (if pub_qos pub = AtMostOnce then [] else u16_bytes (pub_packet_id pub))
     @ bytes_of_string (pub_payload pub)"

definition publish_header :: "PublishPacket \<Rightarrow> byte" where
  "publish_header pub = make_header 3 (pub_dup pub) (qos_val (pub_qos pub)) (pub_retain pub)"

lemma to_int32_small: "0 \<le> x \<Longrightarrow> x < 2147483648 \<Longrightarrow> to_int32 x = x"
  unfolding to_int32_def by (rule signed_take_bit_int_eq_self) simp_all

lemma calcPublishRemainingLength_body:
  assumes "length (pub_topic pub) + length (pub_payload pub) + 4 < 2 ^ 28"
  shows "calcPublishRemainingLength pub = Ret (length (publish_body pub))"
  using assms by (auto simp: calcPublishRemainingLength_def publish_body_def to_int32_small)

lemma serializePublish_wire:
  assumes "length (pub_topic pub) + length (pub_payload pub) + 4 < 2 ^ 28"
  shows "serializePublish \<lparr>pkt_type = t, pkt_body = PublishBody pub\<rparr> [] =
         Ret (True, mqtt_packet (publish_header pub) (publish_body pub))"
proof -
  have "length (publish_body pub) < 2 ^ 28" "length (publish_body pub) \<noteq> 0"
    using assms by (auto simp: publish_body_def)
  then show ?thesis
    using calcPublishRemainingLength_body [OF assms]
    by (simp add: serializePublish_def Let_def writeByte_def codec_simps mqtt_packet_def publish_header_def)
       (simp add: publish_body_def)
qed


lemma deserializePublish_wire:
  assumes "publish_ok pub"
  shows "deserializePublish (mqtt_packet (publish_header pub) (publish_body pub)) =
         Ret (Some \<lparr>pkt_type = Publish, pkt_body = PublishBody pub\<rparr>)"
proof -
  let ?buf = "mqtt_packet (publish_header pub) (publish_body pub)"
  let ?s = "1 + length (varint (length (publish_body pub)))"
  let ?t = "?s + 2 + length (pub_topic pub)"
  have ok: "is_valid_utf8 (pub_topic pub)" "length (pub_topic pub) < 65536"
    "pub_packet_id pub = 0 \<longleftrightarrow> pub_qos pub = AtMostOnce" "pub_source_client pub = []"
    and len: "length (publish_body pub) < 2 ^ 28"
    using assms by (auto simp: publish_ok_def publish_body_def)
  note frame = unread_mqtt_packet [OF len, of "publish_header pub"]
  have hq: "header_qos (publish_header pub) = qos_val (pub_qos pub)"
    and hd: "header_dup (publish_header pub) = pub_dup pub"
    and hr: "header_retain (publish_header pub) = pub_retain pub"
    by (simp_all add: publish_header_def make_header_qos make_header_dup make_header_retain)
  have q3: "qos_val (pub_qos pub) \<noteq> 3" using qos_val_less [of "pub_qos pub"] by auto
  let ?rest = "(if pub_qos pub = AtMostOnce then [] else u16_bytes (pub_packet_id pub))
     @ bytes_of_string (pub_payload pub)"
  have u: "unread ?buf ?s (mqtt_string (pub_topic pub) @ ?rest)"
    using frame(4) by (simp add: publish_body_def)
  have str: "readString16 ?buf ?s [] = Ret (pub_topic pub, ?t)"
    using readString16_unread [OF u ok(2)] .
  have u2: "unread ?buf ?t ?rest"
    using unread_appendD [OF u] by (simp add: add.assoc)
  show ?thesis
  proof (cases "pub_qos pub = AtMostOnce")
    case True
    have "take (length (pub_payload pub)) (drop ?t ?buf) = bytes_of_string (pub_payload pub)"
      using u2 True by (simp add: unread_def)
    then show ?thesis
      using True frame(1-3) q3 str ok
      by (simp add: deserializePublish_def qos_of_def hq hd hr Let_def publish_body_def)
  next
    case False
    have id: "readUint16 ?buf ?t = Ret (pub_packet_id pub, ?t + 2)"
      using readUint16_unread [of ?buf ?t "pub_packet_id pub"] u2 False by simp
    have "unread ?buf (?t + 2) (bytes_of_string (pub_payload pub))"
      using unread_appendD [of ?buf ?t "u16_bytes (pub_packet_id pub)"] u2 False by simp
    then have "take (length (pub_payload pub)) (drop (?t + 2) ?buf) = bytes_of_string (pub_payload pub)"
      by (simp add: unread_def)
    moreover have "0 < qos_val (pub_qos pub)"
      using False by (cases "pub_qos pub") simp_all
    ultimately show ?thesis
      using False frame(1-3) q3 str ok id
      by (simp add: deserializePublish_def hq hd hr Let_def publish_body_def)
  qed
qed

lemma publish_wire:
  assumes "publish_ok pub"
    and "length (publish_body pub) + 5 \<le> unat MaxPacketSize"
  shows "\<exists>bytes. encode \<lparr>pkt_type = Publish, pkt_body = PublishBody pub\<rparr> [] = Ret (True, bytes) \<and>
                 decode MaxPacketSize bytes = Ret (Some \<lparr>pkt_type = Publish, pkt_body = PublishBody pub\<rparr>)"
proof -
  let ?buf = "mqtt_packet (publish_header pub) (publish_body pub)"
  have len: "length (publish_body pub) < 2 ^ 28"
    using assms by (auto simp: publish_ok_def publish_body_def)
  have "length (varint (length (publish_body pub))) \<le> 4"
    using len by (intro length_varint) simp_all
  then have "length ?buf \<le> unat MaxPacketSize"
    using assms(2) by (simp add: length_mqtt_packet)
  moreover have "header_type (?buf ! 0) = 3"
    by (simp add: mqtt_packet_def publish_header_def make_header_type)
  ultimately have "decode MaxPacketSize ?buf = deserializePublish ?buf"
    using unread_mqtt_packet(6) [OF len] by (intro decode_table) (simp_all add: decoders_def)
  moreover have "encode \<lparr>pkt_type = Publish, pkt_body = PublishBody pub\<rparr> [] = Ret (True, ?buf)"
    using serializePublish_wire assms(1)
    by (simp add: encode_def serializePacket_def encoders_def publish_ok_def)
  ultimately show ?thesis
    using deserializePublish_wire [OF assms(1)] by simp
qed

text \<open>
  C7. A PUBLISH packet written by the encoder is read back by the decoder as the same packet:
  topic, payload, quality of service, retain and duplicate flags and packet identifier.
\<close>

theorem publish_roundtrip:
  assumes "publish_ok pub"
    and "length (publish_body pub) + 5 \<le> unat MaxPacketSize"
  shows "\<exists>bytes. encode \<lparr>pkt_type = Publish, pkt_body = PublishBody pub\<rparr> [] = Ret (True, bytes) \<and>
                 decode MaxPacketSize bytes = Ret (Some \<lparr>pkt_type = Publish, pkt_body = PublishBody pub\<rparr>)"
  using assms by (rule publish_wire)

definition sample_publish :: PublishPacket where
  "sample_publish = \<lparr>pub_topic = ''a/b'', pub_payload = ''hi'', pub_qos = AtLeastOnce, pub_retain = True,
     pub_dup = False, pub_packet_id = 7, pub_source_client = []\<rparr>"

theorem publish_roundtrip_witness:
  "publish_ok sample_publish \<and>
   (\<exists>bytes. encode \<lparr>pkt_type = Publish, pkt_body = PublishBody sample_publish\<rparr> [] = Ret (True, bytes) \<and>
      decode 1024 bytes = Ret (Some \<lparr>pkt_type = Publish, pkt_body = PublishBody sample_publish\<rparr>))"
proof
  show ok: "publish_ok sample_publish"
    by (simp add: publish_ok_def sample_publish_def) code_simp
  show "\<exists>bytes. encode \<lparr>pkt_type = Publish, pkt_body = PublishBody sample_publish\<rparr> [] = Ret (True, bytes) \<and>
      decode 1024 bytes = Ret (Some \<lparr>pkt_type = Publish, pkt_body = PublishBody sample_publish\<rparr>)"
    by (rule publish_roundtrip [OF ok]) (simp add: sample_publish_def publish_body_def)
qed


section \<open>Acknowledgements\<close>

lemma packet_id_bytes_length: "length (mqtt_packet h (u16_bytes i)) = 4"
  by (simp add: length_mqtt_packet varint.simps)

lemma serializeAckPacket_wire:
  "serializeAckPacket \<lparr>pkt_type = t, pkt_body = AckBody \<lparr>ack_packet_id = i\<rparr>\<rparr> [] =
     Ret (True, mqtt_packet (if t = Pubrel then 0x62 else push_bit 4 (of_nat (packet_type_val t))) (u16_bytes i))"
  by (simp add: serializeAckPacket_def Let_def codec_simps writeByte_def mqtt_packet_def
        MQTT_PUBREL_BYTE_def varint.simps)

lemma ack_header:
  assumes "t \<in> {Puback, Pubrec, Pubrel, Pubcomp}"
  defines "h \<equiv> (if t = Pubrel then 0x62 else push_bit 4 (of_nat (packet_type_val t)) :: byte)"
  shows "header_type h = packet_type_val t" and "h AND 0x0F = (if t = Pubrel then 0x02 else 0)"
  using assms by (auto simp: header_type_def unat_drop_bit)

lemma deserializeAckPacket_wire:
  assumes "t \<in> {Puback, Pubrec, Pubrel, Pubcomp}" and "i \<noteq> 0"
  defines "h \<equiv> (if t = Pubrel then 0x62 else push_bit 4 (of_nat (packet_type_val t)) :: byte)"
  shows "deserializeAckPacket (mqtt_packet h (u16_bytes i)) =
         Ret (Some \<lparr>pkt_type = t, pkt_body = AckBody \<lparr>ack_packet_id = i\<rparr>\<rparr>)"
proof -
  have len: "length (u16_bytes i) < 2 ^ 28" by simp
  note frame = unread_mqtt_packet [OF len, of h]
  have "readUint16 (mqtt_packet h (u16_bytes i)) (Suc (Suc 0)) = Ret (i, Suc (Suc (Suc (Suc 0))))"
    using readUint16_unread [of _ _ i "[]"] frame(4) by (simp add: varint.simps)
  then show ?thesis
    using frame(1-3) ack_header [OF assms(1)] assms(1,2) unfolding h_def [symmetric]
    by (auto simp: deserializeAckPacket_def Let_def varint.simps)
qed

text \<open>
  PUBACK, PUBREC, PUBREL and PUBCOMP with a non-zero packet identifier take four bytes
  and are read back as the packet that was written.
\<close>

lemma ack_roundtrip:
  assumes "t \<in> {Puback, Pubrec, Pubrel, Pubcomp}" and "i \<noteq> 0" and "4 \<le> unat MaxPacketSize"
  shows "\<exists>bytes. encode \<lparr>pkt_type = t, pkt_body = AckBody \<lparr>ack_packet_id = i\<rparr>\<rparr> [] = Ret (True, bytes) \<and>
     length bytes = 4 \<and>
     decode MaxPacketSize bytes = Ret (Some \<lparr>pkt_type = t, pkt_body = AckBody \<lparr>ack_packet_id = i\<rparr>\<rparr>)"
proof -
  let ?h = "if t = Pubrel then 0x62 else push_bit 4 (of_nat (packet_type_val t)) :: byte"
  let ?buf = "mqtt_packet ?h (u16_bytes i)"
  have "?buf ! 0 = ?h" by (simp add: mqtt_packet_def)
  then have "header_type (?buf ! 0) = packet_type_val t" using ack_header(1) [OF assms(1)] by (simp only:)
  then have "decode MaxPacketSize ?buf = deserializeAckPacket ?buf"
    using assms(1,3) by (intro decode_table) (auto simp: packet_id_bytes_length decoders_def fun_eq_iff
      deserializePubAck_def deserializePubRec_def deserializePubRel_def deserializePubComp_def)
  moreover have "encode \<lparr>pkt_type = t, pkt_body = AckBody \<lparr>ack_packet_id = i\<rparr>\<rparr> [] = Ret (True, ?buf)"
    using assms(1) serializeAckPacket_wire [of t i]
    by (auto simp: encode_def serializePacket_def encoders_def
      serializePubAck_def serializePubRec_def serializePubRel_def serializePubComp_def)
  ultimately show ?thesis
    using deserializeAckPacket_wire [OF assms(1,2)] by (simp only:) (simp add: packet_id_bytes_length)
qed

lemma ack_roundtrip_instance:
  "\<exists>bytes. encode \<lparr>pkt_type = Pubrel, pkt_body = AckBody \<lparr>ack_packet_id = 258\<rparr>\<rparr> [] = Ret (True, bytes) \<and>
     length bytes = 4 \<and>
     decode 16 bytes = Ret (Some \<lparr>pkt_type = Pubrel, pkt_body = AckBody \<lparr>ack_packet_id = 258\<rparr>\<rparr>)"
  by (rule ack_roundtrip) simp_all

text \<open>
  The packets the broker only writes have the bytes the protocol gives them: CONNACK with
  the session-present flag and the return code, SUBACK with the packet identifier and the
  granted codes, UNSUBACK with the packet identifier, PINGRESP and DISCONNECT with an empty body.
\<close>

lemma encode_server_packets:
  assumes "length (sa_granted sa) + 2 < 2 ^ 28"
  shows "encode \<lparr>pkt_type = Connack, pkt_body = ConnackBody ca\<rparr> [] =
           Ret (True, mqtt_packet 0x20 [of_bool (ca_session_present ca), return_code_val (ca_return_code ca)]) \<and>
         encode \<lparr>pkt_type = Suback, pkt_body = SubackBody sa\<rparr> [] =
           Ret (True, mqtt_packet 0x90 (u16_bytes (sa_packet_id sa) @ sa_granted sa)) \<and>
         encode \<lparr>pkt_type = Unsuback, pkt_body = AckBody ack\<rparr> [] =
           Ret (True, mqtt_packet 0xB0 (u16_bytes (ack_packet_id ack))) \<and>
         encode \<lparr>pkt_type = Pingresp, pkt_body = body\<rparr> [] = Ret (True, mqtt_packet 0xD0 []) \<and>
         encode \<lparr>pkt_type = Disconnect, pkt_body = body\<rparr> [] = Ret (True, mqtt_packet 0xE0 [])"
    (is "?connack \<and> ?suback \<and> ?unsuback \<and> ?pingresp \<and> ?disconnect")
proof (intro conjI)
  have fold: "foldl (\<lambda>buf qos. append_byte qos buf) buf qs = buf @ qs" for buf qs
    by (induction qs arbitrary: buf) (simp_all add: writeByte_def)
  note defs = encode_def serializePacket_def encoders_def mqtt_packet_def writeByte_def codec_simps Let_def
  show ?connack by (simp add: defs serializeConnack_def MQTT_CONNACK_BYTE_def varint.simps)
  show ?suback
    using assms unfolding encode_def by (simp add: serializePacket_def encoders_def serializeSubAck_def fold)
      (simp add: defs MQTT_SUBACK_BYTE_def)
  show ?unsuback by (simp add: defs serializeUnsubAck_def MQTT_UNSUBACK_BYTE_def varint.simps)
  show ?pingresp by (simp add: defs serializePingResp_def MQTT_PINGRESP_BYTE_def varint.simps)
  show ?disconnect by (simp add: defs serializeDisconnect_def MQTT_DISCONNECT_BYTE_def varint.simps)
qed

lemma encode_server_packets_instance:
  "encode \<lparr>pkt_type = Suback, pkt_body = SubackBody \<lparr>sa_packet_id = 0x0102, sa_granted = [1, 0x80]\<rparr>\<rparr> [] =
     Ret (True, [0x90, 4, 1, 2, 1, 0x80])"
  using encode_server_packets [of "\<lparr>sa_packet_id = 0x0102, sa_granted = [1, 0x80]\<rparr>"]
  by (simp add: mqtt_packet_def varint.simps u16_bytes_def drop_bit_eq_div)

section \<open>SUBSCRIBE and UNSUBSCRIBE\<close>

definition entry_ok :: "SubscribeEntry \<Rightarrow> bool" where
  "entry_ok e \<longleftrightarrow> is_valid_utf8 (se_filter e) \<and> length (se_filter e) < 65536"

definition entry_bytes :: "SubscribeEntry \<Rightarrow> buffer" where
  "entry_bytes e = mqtt_string (se_filter e) @ [qos_val (se_qos e)]"

lemma subscribe_entries_wire:
  "unread buf index (concat (map entry_bytes es)) \<Longrightarrow> list_all entry_ok es \<Longrightarrow>
   subscribe_entries buf (length buf) index acc = Ret (acc @ es)"
proof (induction es arbitrary: index acc)
  case Nil
  then show ?case by (simp add: subscribe_entries.simps unread_def)
next
  case (Cons e es)
  let ?i = "index + 2 + length (se_filter e)"
  have u: "unread buf index (mqtt_string (se_filter e) @ qos_val (se_qos e) # concat (map entry_bytes es))"
    using Cons.prems(1) by (simp add: entry_bytes_def [of e])
  have u2: "unread buf ?i (qos_val (se_qos e) # concat (map entry_bytes es))"
    using unread_appendD [OF u] by (simp add: add.assoc)
  have "index < length buf" using unread_length [OF u] by simp
  moreover have "readString16 buf index [] = Ret (se_filter e, ?i)"
    using readString16_unread [OF u] Cons.prems(2) by (simp add: entry_ok_def)
  moreover have "readByte buf ?i = Ret (qos_val (se_qos e), Suc ?i)"
    using readByte_unread [OF u2] .
  moreover have "\<not> qos_val (se_qos e) > qos_val ExactlyOnce"
    by (cases "se_qos e") (simp_all add: word_less_nat_alt)
  moreover have "subscribe_entries buf (length buf) (Suc ?i) (acc @ [e]) = Ret ((acc @ [e]) @ es)"
    using Cons.prems(2) unread_ConsD [OF u2] by (intro Cons.IH) simp_all
  ultimately show ?case
    using Cons.prems(2) by (subst subscribe_entries.simps, cases e) (simp add: entry_ok_def)
qed

lemma unsubscribe_topics_wire:
  "unread buf index (concat (map mqtt_string ts)) \<Longrightarrow>
   list_all (\<lambda>t. is_valid_utf8 t \<and> length t < 65536) ts \<Longrightarrow>
   unsubscribe_topics buf (length buf) index acc = Ret (acc @ ts)"
proof (induction ts arbitrary: index acc)
  case Nil
  then show ?case by (simp add: unsubscribe_topics.simps unread_def)
next
  case (Cons t ts)
  let ?i = "index + 2 + length t"
  have u: "unread buf index (mqtt_string t @ concat (map mqtt_string ts))"
    using Cons.prems(1) by simp
  have u2: "unread buf ?i (concat (map mqtt_string ts))"
    using unread_appendD [OF u] by (simp add: add.assoc)
  have "index < length buf" using unread_length [OF u] by simp
  moreover have "readString16 buf index [] = Ret (t, ?i)"
    using readString16_unread [OF u] Cons.prems(2) by simp
  moreover have "unsubscribe_topics buf (length buf) ?i (acc @ [t]) = Ret ((acc @ [t]) @ ts)"
    using Cons.prems(2) u2 by (intro Cons.IH) simp_all
  ultimately show ?case
    using Cons.prems(2) by (subst unsubscribe_topics.simps) simp
qed

lemma decode_mqtt_packet:
  assumes "length body < 2 ^ 28" "length body + 5 \<le> unat MaxPacketSize"
    and "header_type h < length decoders" "decoders ! header_type h = Some f"
  shows "decode MaxPacketSize (mqtt_packet h body) = f (mqtt_packet h body)"
proof (rule decode_table)
  have "length (varint (length body)) \<le> 4"
    using assms(1) by (intro length_varint) simp_all
  then show "length (mqtt_packet h body) \<le> unat MaxPacketSize"
    using assms(2) by (simp add: length_mqtt_packet)
qed (use assms unread_mqtt_packet(5,6) [OF assms(1), of h] in simp_all)

text \<open>
  C37. SUBSCRIBE and UNSUBSCRIBE packets in the protocol's format, with any number of topic
  filters, are read as the packet identifier and the filters (with their requested quality of
  service) in their order.
\<close>

theorem decode_subscriptions:
  assumes "list_all entry_ok es" and "length (concat (map entry_bytes es)) + 7 \<le> unat MaxPacketSize"
    and "length (concat (map entry_bytes es)) + 2 < 2 ^ 28"
  shows "decode MaxPacketSize (mqtt_packet 0x82 (u16_bytes i @ concat (map entry_bytes es))) =
           Ret (Some \<lparr>pkt_type = Subscribe, pkt_body = SubscribeBody \<lparr>sub_packet_id = i, sub_entries = es\<rparr>\<rparr>) \<and>
         decode MaxPacketSize (mqtt_packet 0xA2 (u16_bytes i @ concat (map (mqtt_string \<circ> se_filter) es))) =
           Ret (Some \<lparr>pkt_type = Unsubscribe,
                       pkt_body = UnsubscribeBody \<lparr>unsub_packet_id = i, unsub_topics = map se_filter es\<rparr>\<rparr>)"
proof
  let ?body = "u16_bytes i @ concat (map entry_bytes es)"
  have len: "length ?body < 2 ^ 28" using assms(3) by simp
  note frame = unread_mqtt_packet [OF len, of "0x82"]
  have "decode MaxPacketSize (mqtt_packet 0x82 ?body) = deserializeSubscribe (mqtt_packet 0x82 ?body)"
    using assms(2) len
    by (intro decode_mqtt_packet) (simp_all add: header_type_def unat_drop_bit decoders_def)
  moreover have "readUint16 (mqtt_packet 0x82 ?body) (1 + length (varint (length ?body))) =
      Ret (i, 1 + length (varint (length ?body)) + 2)"
    by (rule readUint16_unread [OF frame(4)])
  moreover have "subscribe_entries (mqtt_packet 0x82 ?body) (length (mqtt_packet 0x82 ?body))
      (1 + length (varint (length ?body)) + 2) [] = Ret ([] @ es)"
    using unread_appendD [OF frame(4)] by (intro subscribe_entries_wire assms(1)) simp
  ultimately show "decode MaxPacketSize (mqtt_packet 0x82 ?body) =
      Ret (Some \<lparr>pkt_type = Subscribe, pkt_body = SubscribeBody \<lparr>sub_packet_id = i, sub_entries = es\<rparr>\<rparr>)"
    using frame(1-3) by (simp add: deserializeSubscribe_def MQTT_SUBSCRIBE_BYTE_def Let_def)
next
  let ?body = "u16_bytes i @ concat (map (mqtt_string \<circ> se_filter) es)"
  have "length (concat (map (mqtt_string \<circ> se_filter) es)) \<le> length (concat (map entry_bytes es))"
    by (induction es) (simp_all add: entry_bytes_def)
  then have len: "length ?body < 2 ^ 28" and max: "length ?body + 5 \<le> unat MaxPacketSize"
    using assms(2,3) by simp_all
  note frame = unread_mqtt_packet [OF len, of "0xA2"]
  have "decode MaxPacketSize (mqtt_packet 0xA2 ?body) = deserializeUnsubscribe (mqtt_packet 0xA2 ?body)"
    using len max by (intro decode_mqtt_packet) (simp_all add: header_type_def unat_drop_bit decoders_def)
  moreover have "readUint16 (mqtt_packet 0xA2 ?body) (1 + length (varint (length ?body))) =
      Ret (i, 1 + length (varint (length ?body)) + 2)"
    by (rule readUint16_unread [OF frame(4)])
  moreover have "unsubscribe_topics (mqtt_packet 0xA2 ?body) (length (mqtt_packet 0xA2 ?body))
      (1 + length (varint (length ?body)) + 2) [] = Ret ([] @ map se_filter es)"
    using unread_appendD [OF frame(4)] assms(1)
    by (intro unsubscribe_topics_wire) (simp_all add: list.pred_map entry_ok_def [abs_def] comp_def)
  ultimately show "decode MaxPacketSize (mqtt_packet 0xA2 ?body) =
      Ret (Some \<lparr>pkt_type = Unsubscribe,
                  pkt_body = UnsubscribeBody \<lparr>unsub_packet_id = i, unsub_topics = map se_filter es\<rparr>\<rparr>)"
    using frame(1-3) by (simp add: deserializeUnsubscribe_def MQTT_UNSUBSCRIBE_BYTE_def Let_def)
qed

theorem decode_subscriptions_witness:
  "decode 1024 (mqtt_packet 0x82 (u16_bytes 9 @ concat (map entry_bytes [\<lparr>se_filter = ''a/#'', se_qos = AtLeastOnce\<rparr>]))) =
     Ret (Some \<lparr>pkt_type = Subscribe, pkt_body = SubscribeBody
       \<lparr>sub_packet_id = 9, sub_entries = [\<lparr>se_filter = ''a/#'', se_qos = AtLeastOnce\<rparr>]\<rparr>\<rparr>)"
proof (rule decode_subscriptions [THEN conjunct1])
  show "list_all entry_ok [\<lparr>se_filter = ''a/#'', se_qos = AtLeastOnce\<rparr>]"
    by (simp add: entry_ok_def) code_simp
qed (simp_all add: entry_bytes_def)


section \<open>CONNECT\<close>

definition connect_ok :: "ConnectPacket \<Rightarrow> bool" where
  "connect_ok cp \<longleftrightarrow>
     (let b = cp_byte cp in
      is_valid_utf8 (cp_protocol cp) \<and> length (cp_protocol cp) < 65536 \<and>
      is_valid_utf8 (cp_client_id cp) \<and> length (cp_client_id cp) < 65536 \<and>
      \<not> flag_reserved b \<and> cp_clean_session cp = flag_clean_session b \<and> cp_has_will cp = flag_will b \<and>
      cp_will_qos cp = qos_of (flag_will_qos b) \<and> cp_will_retain cp = flag_will_retain b \<and>
      flag_will_qos b \<noteq> 3 \<and>
      (if flag_will b then is_valid_utf8 (cp_will_topic cp) \<and> length (cp_will_topic cp) < 65536 \<and>
                           length (cp_will_payload cp) < 65536
       else cp_will_topic cp = [] \<and> cp_will_payload cp = [] \<and> \<not> flag_will_retain b \<and> flag_will_qos b = 0) \<and>
      (if flag_username b then (is_valid_utf8 (cp_username cp) \<or> cp_username cp = []) \<and>
                               length (cp_username cp) < 65536
       else cp_username cp = [] \<and> \<not> flag_password b) \<and>
      (if flag_password b then length (cp_password cp) < 65536 else cp_password cp = []))"

definition optional_string :: "bool \<Rightarrow> string \<Rightarrow> buffer" where
  "optional_string present s = (if present then mqtt_string s else [])"

definition connect_body :: "ConnectPacket \<Rightarrow> buffer" where
  "connect_body cp =
     mqtt_string (cp_protocol cp) @ [cp_level cp, cp_byte cp] @ u16_bytes (cp_keepalive cp) @
     mqtt_string (cp_client_id cp) @
     optional_string (flag_will (cp_byte cp)) (cp_will_topic cp) @
     optional_string (flag_will (cp_byte cp)) (cp_will_payload cp) @
     optional_string (flag_username (cp_byte cp)) (cp_username cp) @
     optional_string (flag_password (cp_byte cp)) (cp_password cp)"

lemma optional_string_skip: "unread buf index (optional_string c s @ xs) \<Longrightarrow>
    unread buf (index + (if c then 2 + length s else 0)) xs"
  by (auto simp: optional_string_def split: if_splits dest: unread_appendD)

lemma optional_string_read: "unread buf index (optional_string True s @ xs) \<Longrightarrow> length s < 65536 \<Longrightarrow>
    readString16 buf index [] = Ret (s, index + 2 + length s)"
  using readString16_unread by (simp add: optional_string_def)

lemma deserializeConnect_wire:
  assumes "connect_ok cp" and len: "length (connect_body cp) < 2 ^ 28"
  shows "deserializeConnect (mqtt_packet 0x10 (connect_body cp)) =
         Ret (Some \<lparr>pkt_type = Connect, pkt_body = ConnectBody cp\<rparr>)"
proof -
  define buf where "buf = mqtt_packet 0x10 (connect_body cp)"
  define i0 where "i0 = 1 + length (varint (length (connect_body cp)))"
  define i1 where "i1 = i0 + 2 + length (cp_protocol cp)"
  define i2 where "i2 = Suc (Suc i1) + 2"
  define i3 where "i3 = i2 + 2 + length (cp_client_id cp)"
  let ?b = "cp_byte cp"
  define i4 where "i4 = i3 + (if flag_will ?b then 2 + length (cp_will_topic cp) else 0)"
  define i5 where "i5 = i4 + (if flag_will ?b then 2 + length (cp_will_payload cp) else 0)"
  define i6 where "i6 = i5 + (if flag_username ?b then 2 + length (cp_username cp) else 0)"
  note ok = assms(1) [unfolded connect_ok_def Let_def]
  note frame = unread_mqtt_packet [OF len, of "0x10", folded buf_def i0_def]
  have u0: "unread buf i0 (mqtt_string (cp_protocol cp) @ cp_level cp # ?b # u16_bytes (cp_keepalive cp) @
     mqtt_string (cp_client_id cp) @ optional_string (flag_will ?b) (cp_will_topic cp) @
     optional_string (flag_will ?b) (cp_will_payload cp) @ optional_string (flag_username ?b) (cp_username cp) @
     optional_string (flag_password ?b) (cp_password cp) @ [])" (is "unread _ _ (_ @ _ # _ # ?r1)")
    using frame(4) by (simp add: connect_body_def)
  have u1: "unread buf i1 (cp_level cp # ?b # ?r1)"
    using unread_appendD [OF u0] by (simp add: i1_def add.assoc)
  note u1' = unread_ConsD [OF u1, THEN conjunct2, THEN conjunct2]
  note u1'' = unread_ConsD [OF u1', THEN conjunct2, THEN conjunct2]
  note u2 = unread_appendD [OF u1'', unfolded length_u16_bytes, folded i2_def]
  note u3 = unread_appendD [OF u2, unfolded length_mqtt_string, folded add.assoc, folded i3_def]
  note u4 = optional_string_skip [OF u3, folded i4_def]
  note u5 = optional_string_skip [OF u4, folded i5_def]
  note u6 = optional_string_skip [OF u5, folded i6_def]
  have protocol: "readString16 buf i0 [] = Ret (cp_protocol cp, i1)"
    using readString16_unread [OF u0] ok by (simp add: i1_def)
  have client: "readString16 buf i2 [] = Ret (cp_client_id cp, i3)"
    using readString16_unread [OF u2] ok by (simp add: i3_def)
  have will: "flag_will ?b \<Longrightarrow> readString16 buf i3 [] = Ret (cp_will_topic cp, i4)"
    "flag_will ?b \<Longrightarrow> readString16 buf i4 [] = Ret (cp_will_payload cp, i5)"
    "\<not> flag_will ?b \<Longrightarrow> i5 = i3"
    using optional_string_read [of buf i3] u3 optional_string_read [of buf i4] u4 ok
    by (simp_all add: i4_def i5_def)
  have user: "flag_username ?b \<Longrightarrow> readString16 buf i5 [] = Ret (cp_username cp, i6)" "\<not> flag_username ?b \<Longrightarrow> i6 = i5"
    using optional_string_read [of buf i5] u5 ok by (simp_all add: i6_def)
  have pass: "flag_password ?b \<Longrightarrow> \<exists>i. readString16 buf i6 [] = Ret (cp_password cp, i)"
    using optional_string_read [of buf i6 "cp_password cp" "[]"] u6 ok by simp
  note reads = frame(1-3) [unfolded One_nat_def] protocol readByte_unread [OF u1] readByte_unread [OF u1']
    readUint16_unread [OF u1'', folded i2_def] client
  show ?thesis
    unfolding buf_def [symmetric] deserializeConnect_def
    using ok will user pass
    by (cases "flag_will ?b"; cases "flag_username ?b"; cases "flag_password ?b")
       (auto simp: reads Let_def intro!: ConnectPacket.equality)
qed


lemma decode_connect_table:
  assumes "length body < 2 ^ 28" "length body + 5 \<le> unat MaxPacketSize"
  shows "decode MaxPacketSize (mqtt_packet 0x10 body) = deserializeConnect (mqtt_packet 0x10 body)"
  using assms by (intro decode_mqtt_packet) (simp_all add: header_type_def unat_drop_bit decoders_def)

text \<open>
  C36. A CONNECT packet in the protocol's format is read as the fields it was written from:
  protocol name and level, flags, keep-alive, client identifier, and the will, user name and
  password exactly when their flags are set.
\<close>

theorem decode_connect:
  assumes "connect_ok cp" and "length (connect_body cp) < 2 ^ 28"
    and "length (connect_body cp) + 5 \<le> unat MaxPacketSize"
  shows "decode MaxPacketSize (mqtt_packet 0x10 (connect_body cp)) =
         Ret (Some \<lparr>pkt_type = Connect, pkt_body = ConnectBody cp\<rparr>)"
  using assms by (simp add: decode_connect_table deserializeConnect_wire)

definition sample_connect :: ConnectPacket where
  "sample_connect = \<lparr>cp_level = 4, cp_protocol = ''MQTT'', cp_client_id = ''c1'', cp_username = ''u'',
     cp_password = ''p'', cp_will_topic = ''w'', cp_will_payload = ''gone'', cp_will_qos = AtLeastOnce,
     cp_will_retain = True, cp_has_will = True, cp_clean_session = True, cp_keepalive = 60, cp_byte = 0xEE\<rparr>"

lemma sample_connect_ok: "connect_ok sample_connect"
proof -
  have "is_valid_utf8 ''MQTT''" "is_valid_utf8 ''c1''" "is_valid_utf8 ''u''" "is_valid_utf8 ''w''"
    by code_simp+
  then show ?thesis
    by (simp add: connect_ok_def sample_connect_def Let_def flag_reserved_def flag_clean_session_def
        flag_will_def flag_will_qos_def flag_will_retain_def flag_password_def flag_username_def
        qos_of_def drop_bit_eq_div take_bit_eq_mod bit_iff_odd)
qed

theorem decode_connect_witness:
  "decode 1024 (mqtt_packet 0x10 (connect_body sample_connect)) =
   Ret (Some \<lparr>pkt_type = Connect, pkt_body = ConnectBody sample_connect\<rparr>)"
  by (rule decode_connect [OF sample_connect_ok])
     (simp_all add: connect_body_def sample_connect_def optional_string_def)

text \<open>
  A CONNECT packet with an empty client identifier is always refused by the decoder, with
  either value of the clean-session flag: the empty string fails \<open>is_valid_utf8\<close>. The
  generation of an identifier in the CONNECT handler is never reached from the network.
\<close>

lemma decode_connect_empty_client_id:
  assumes "connect_ok cp" and "length (connect_body cp) < 2 ^ 28"
    and "length (connect_body cp) + 5 \<le> unat MaxPacketSize"
  shows "decode MaxPacketSize (mqtt_packet 0x10 (connect_body (cp\<lparr>cp_client_id := []\<rparr>))) =
         Throw ''CONNECT client id is not utf-8''"
proof -
  let ?cp = "cp\<lparr>cp_client_id := []\<rparr>"
  define body where "body = connect_body ?cp"
  define buf where "buf = mqtt_packet 0x10 body"
  define i0 where "i0 = 1 + length (varint (length body))"
  define i1 where "i1 = i0 + 2 + length (cp_protocol cp)"
  note ok = assms(1) [unfolded connect_ok_def Let_def]
  have "length body \<le> length (connect_body cp)"
    by (simp add: body_def connect_body_def)
  then have len: "length body < 2 ^ 28" "length body + 5 \<le> unat MaxPacketSize"
    using assms(2,3) by linarith+
  note frame = unread_mqtt_packet [OF len(1), of "0x10", folded buf_def i0_def]
  obtain r2 where u0: "unread buf i0 (mqtt_string (cp_protocol cp) @ cp_level cp # cp_byte cp #
      u16_bytes (cp_keepalive cp) @ mqtt_string [] @ r2)"
    using frame(4) by (auto simp: body_def connect_body_def)
  have u1: "unread buf i1 (cp_level cp # cp_byte cp # u16_bytes (cp_keepalive cp) @ mqtt_string [] @ r2)"
    using unread_appendD [OF u0] by (simp add: i1_def add.assoc)
  note u1' = unread_ConsD [OF u1, THEN conjunct2, THEN conjunct2]
  note u2 = unread_ConsD [OF u1', THEN conjunct2, THEN conjunct2]
  note u3 = unread_appendD [OF u2, unfolded length_u16_bytes]
  have protocol: "readString16 buf i0 [] = Ret (cp_protocol cp, i1)"
    using readString16_unread [OF u0] ok by (simp add: i1_def)
  have "deserializeConnect buf = Throw ''CONNECT client id is not utf-8''"
    using ok readString16_unread [OF u3]
    by (auto simp: deserializeConnect_def Let_def frame(1-3) [unfolded One_nat_def] protocol
        readByte_unread [OF u1] readByte_unread [OF u1'] readUint16_unread [OF u2] is_valid_utf8_def
        split: if_splits)
  then show ?thesis
    using decode_connect_table [OF len] by (simp add: buf_def body_def)
qed

lemma decode_connect_empty_client_id_instance:
  "decode 1024 (mqtt_packet 0x10 (connect_body (sample_connect\<lparr>cp_client_id := []\<rparr>))) =
   Throw ''CONNECT client id is not utf-8''"
  by (rule decode_connect_empty_client_id [OF sample_connect_ok])
     (simp_all add: connect_body_def sample_connect_def optional_string_def)


section \<open>What the decoder returns\<close>

fun packet_ok :: "PacketType \<Rightarrow> PacketBody \<Rightarrow> bool" where
  "packet_ok t (ConnectBody cp) \<longleftrightarrow> t = Connect \<and>
     is_valid_utf8 (cp_protocol cp) \<and> is_valid_utf8 (cp_client_id cp) \<and> \<not> flag_reserved (cp_byte cp) \<and>
     (cp_has_will cp \<longrightarrow> is_valid_utf8 (cp_will_topic cp)) \<and>
     cp_has_will cp = flag_will (cp_byte cp) \<and> cp_clean_session cp = flag_clean_session (cp_byte cp) \<and>
     cp_will_retain cp = flag_will_retain (cp_byte cp) \<and> qos_val (cp_will_qos cp) = flag_will_qos (cp_byte cp) \<and>
     (cp_username cp = [] \<or> is_valid_utf8 (cp_username cp)) \<and>
     (flag_password (cp_byte cp) \<longrightarrow> flag_username (cp_byte cp))"
| "packet_ok t (PublishBody pub) \<longleftrightarrow> t = Publish \<and>
     is_valid_utf8 (pub_topic pub) \<and> (pub_packet_id pub = 0 \<longleftrightarrow> pub_qos pub = AtMostOnce) \<and>
     pub_source_client pub = []"
| "packet_ok t (SubscribeBody sub) \<longleftrightarrow> t = Subscribe \<and>
     list_all (\<lambda>e. is_valid_utf8 (se_filter e)) (sub_entries sub)"
| "packet_ok t (UnsubscribeBody unsub) \<longleftrightarrow> t = Unsubscribe \<and> list_all is_valid_utf8 (unsub_topics unsub)"
| "packet_ok t (AckBody ack) \<longleftrightarrow> t \<in> {Puback, Pubrec, Pubrel, Pubcomp} \<and> ack_packet_id ack \<noteq> 0"
| "packet_ok t EmptyBody \<longleftrightarrow> t \<in> {Pingreq, Pingresp, Disconnect}"
| "packet_ok t (ConnackBody _) \<longleftrightarrow> False"
| "packet_ok t (SubackBody _) \<longleftrightarrow> False"

definition Packet_ok :: "Packet \<Rightarrow> bool" where
  "Packet_ok p \<longleftrightarrow> packet_ok (pkt_type p) (pkt_body p)"

lemma subscribe_entries_valid:
  "subscribe_entries buf packetEnd index entries = Ret es \<Longrightarrow>
   list_all (\<lambda>e. is_valid_utf8 (se_filter e)) entries \<Longrightarrow> list_all (\<lambda>e. is_valid_utf8 (se_filter e)) es"
proof (induction buf packetEnd index entries rule: subscribe_entries.induct)
  case (1 buf packetEnd index entries)
  show ?case
  proof (cases "index < packetEnd")
    case True
    with 1(2) obtain s i1 q i2 where r: "readString16 buf index [] = Ret (s, i1)" "is_valid_utf8 s"
      "readByte buf i1 = Ret (q, i2)" "\<not> q > qos_val ExactlyOnce"
      and rest: "subscribe_entries buf packetEnd i2 (entries @ [\<lparr>se_filter = s, se_qos = qos_of q\<rparr>]) = Ret es"
      by (subst (asm) subscribe_entries.simps) (auto simp: outcome_inversion split: if_splits)
    show ?thesis
      using 1(1) [OF True r(1) refl _ r(3) refl r(4)] r(2) rest 1(3) by simp
  qed (use 1(2,3) in \<open>simp add: subscribe_entries.simps\<close>)
qed

lemma unsubscribe_topics_valid:
  "unsubscribe_topics buf packetEnd index topics = Ret ts \<Longrightarrow> list_all is_valid_utf8 topics \<Longrightarrow>
   list_all is_valid_utf8 ts"
proof (induction buf packetEnd index topics rule: unsubscribe_topics.induct)
  case (1 buf packetEnd index topics)
  show ?case
  proof (cases "index < packetEnd")
    case True
    with 1(2) obtain s i1 where r: "readString16 buf index [] = Ret (s, i1)" "is_valid_utf8 s"
      and rest: "unsubscribe_topics buf packetEnd i1 (topics @ [s]) = Ret ts"
      by (subst (asm) unsubscribe_topics.simps) (auto simp: outcome_inversion split: if_splits)
    show ?thesis
      using 1(1) [OF True r(1) refl] r(2) rest 1(3) by simp
  qed (use 1(2,3) in \<open>simp add: unsubscribe_topics.simps\<close>)
qed

lemma two_bits: "take_bit 2 (b :: byte) \<noteq> 3 \<Longrightarrow> take_bit 2 b < 3"
proof -
  have "unat (take_bit 2 b) < 4" by (simp add: unsigned_take_bit_eq take_bit_nat_less_exp [of 2, simplified])
  then show "take_bit 2 b \<noteq> 3 \<Longrightarrow> take_bit 2 b < 3"
    by (auto simp: word_less_nat_alt word_unat_eq_iff)
qed

lemma will_qos_range: "w \<longrightarrow> q \<noteq> 3 \<Longrightarrow> w \<or> \<not> r \<and> q = 0 \<Longrightarrow> q \<noteq> (3 :: byte)"
  by auto

lemma deserializeConnect_ok: "deserializeConnect buf = Ret (Some p) \<Longrightarrow> Packet_ok p"
  unfolding deserializeConnect_def Let_def case_prod_unfold outcome_inversion Packet_ok_def flag_will_qos_def
  apply (clarsimp)
  apply (intro conjI)
  subgoal by (clarsimp simp: outcome_inversion)
  subgoal unfolding flag_will_qos_def by (rule qos_val_qos_of, rule two_bits, erule (1) will_qos_range)
  subgoal by (auto simp: outcome_inversion split: if_splits)
  subgoal by blast
  done

lemma deserializePublish_ok: "deserializePublish buf = Ret (Some p) \<Longrightarrow> Packet_ok p"
  by (auto simp: deserializePublish_def outcome_inversion Packet_ok_def Let_def case_prod_unfold
      header_qos_def qos_of_def split: if_splits)

lemma deserializeSubscribe_ok: "deserializeSubscribe buf = Ret (Some p) \<Longrightarrow> Packet_ok p"
  by (auto simp: deserializeSubscribe_def outcome_inversion Packet_ok_def Let_def case_prod_unfold
      dest!: subscribe_entries_valid)

lemma deserializeUnsubscribe_ok: "deserializeUnsubscribe buf = Ret (Some p) \<Longrightarrow> Packet_ok p"
  by (auto simp: deserializeUnsubscribe_def outcome_inversion Packet_ok_def Let_def case_prod_unfold
      dest!: unsubscribe_topics_valid)

lemma deserializeAckPacket_ok:
  "deserializeAckPacket buf = Ret (Some p) \<Longrightarrow> header_type (buf ! 0) \<in> {4, 5, 6, 7} \<Longrightarrow> Packet_ok p"
  by (auto simp: deserializeAckPacket_def outcome_inversion Packet_ok_def Let_def case_prod_unfold readByte_def packet_type_of_def
      split: if_splits)

lemma deserializeEmptyPacket_ok:
  "deserializeEmptyPacket buf = Ret (Some p) \<Longrightarrow> header_type (buf ! 0) \<in> {12, 13, 14} \<Longrightarrow> Packet_ok p"
  by (auto simp: deserializeEmptyPacket_def outcome_inversion Packet_ok_def Let_def case_prod_unfold readByte_def packet_type_of_def
      split: if_splits)


lemma decode_cases:
  assumes "decode MaxPacketSize buf = Ret (Some p)"
  shows "deserializeConnect buf = Ret (Some p) \<or> deserializePublish buf = Ret (Some p) \<or>
         deserializeSubscribe buf = Ret (Some p) \<or> deserializeUnsubscribe buf = Ret (Some p) \<or>
         deserializeAckPacket buf = Ret (Some p) \<and> header_type (buf ! 0) \<in> {4, 5, 6, 7} \<or>
         deserializeEmptyPacket buf = Ret (Some p) \<and> header_type (buf ! 0) \<in> {12, 13, 14}"
proof -
  define ty where "ty = header_type (buf ! 0)"
  have "ty < length decoders" and dec: "(case decoders ! ty of Some f \<Rightarrow> f buf | None \<Rightarrow> Ret None) = Ret (Some p)"
    using assms by (auto simp: decode_def deserializePacket_def ty_def split: if_splits)
  have "ty < 15"
    using \<open>ty < length decoders\<close> by (simp add: decoders_def)
  then have "ty \<in> {0, 1, 2, 3, 4, 5, 6, 7, 8, 9, 10, 11, 12, 13, 14}"
    by (auto simp: numeral_eq_Suc less_Suc_eq)
  with dec show ?thesis
    unfolding ty_def [symmetric]
    by (auto simp: decoders_def deserializePubAck_def deserializePubRec_def deserializePubRel_def
        deserializePubComp_def deserializePingReq_def deserializePingResp_def deserializeDisconnect_def)
qed

lemma decode_ok: "decode MaxPacketSize buf = Ret (Some p) \<Longrightarrow> Packet_ok p"
  using decode_cases deserializeConnect_ok deserializePublish_ok deserializeSubscribe_ok
    deserializeUnsubscribe_ok deserializeAckPacket_ok deserializeEmptyPacket_ok by blast

text \<open>
  C24. Every packet the decoder returns is well formed: its body is the one its type announces,
  so that no \<open>std::get\<close> of a handler fails; protocol names, client identifiers, topics and filters
  are non-empty UTF-8; the fields of a CONNECT agree with its flags, and there is no password
  without a user name; a PUBLISH has a packet identifier other than zero exactly when its
  quality of service is not 0, and the identifier of an acknowledgement is not zero. Of the
  identifier and the number of filters of SUBSCRIBE and UNSUBSCRIBE nothing is said, because the
  decoder does not check them.
\<close>

theorem decode_well_formed:
  assumes "decode MaxPacketSize buf = Ret (Some p)"
  shows "Packet_ok p"
  using assms by (rule decode_ok)

theorem decode_well_formed_witness:
  "decode 16 [0x32, 0x06, 0x00, 0x01, 0x61, 0x00, 0x05, 0x78] = Ret (Some \<lparr>pkt_type = Publish, pkt_body = PublishBody
     \<lparr>pub_topic = ''a'', pub_payload = ''x'', pub_qos = AtLeastOnce, pub_retain = False, pub_dup = False,
      pub_packet_id = 5, pub_source_client = []\<rparr>\<rparr>) \<and>
   Packet_ok \<lparr>pkt_type = Publish, pkt_body = PublishBody
     \<lparr>pub_topic = ''a'', pub_payload = ''x'', pub_qos = AtLeastOnce, pub_retain = False, pub_dup = False,
      pub_packet_id = 5, pub_source_client = []\<rparr>\<rparr>"
proof -
  have "decode 16 [0x32, 0x06, 0x00, 0x01, 0x61, 0x00, 0x05, 0x78] = Ret (Some \<lparr>pkt_type = Publish, pkt_body = PublishBody
     \<lparr>pub_topic = ''a'', pub_payload = ''x'', pub_qos = AtLeastOnce, pub_retain = False, pub_dup = False,
      pub_packet_id = 5, pub_source_client = []\<rparr>\<rparr>)" by code_simp
  with decode_well_formed [OF this] show ?thesis by blast
qed

text \<open>A SUBSCRIBE with packet identifier 0 and without a filter is decoded like any other.\<close>

lemma decode_subscribe_unchecked:
  "decode 16 [0x82, 0x02, 0x00, 0x00] =
     Ret (Some \<lparr>pkt_type = Subscribe, pkt_body = SubscribeBody \<lparr>sub_packet_id = 0, sub_entries = []\<rparr>\<rparr>)"
  by code_simp

lemma decode_length_loop_bound:
  "decode_length_loop k buf index len (128 ^ m) = (len', index') \<Longrightarrow> len < 128 ^ m \<Longrightarrow>
   len' < 128 ^ (m + k) \<and> index \<le> index' \<and> index' \<le> index + k"
proof (induction k arbitrary: index len m)
  case 0
  then show ?case by simp
next
  case (Suc k)
  let ?d = "unat (buf ! index AND 0x7F)"
  have "?d < 128" by (simp add: and_7F unsigned_take_bit_eq take_bit_nat_less_exp [of 7, simplified])
  then have "?d * 128 ^ m \<le> 127 * 128 ^ m" by (intro mult_right_mono) simp_all
  then have step: "len + ?d * 128 ^ m < 128 ^ Suc m" using Suc.prems(2) unfolding power_Suc by linarith
  have le: "(128::nat) ^ Suc m \<le> 128 ^ (m + Suc k)" by (intro power_increasing) simp_all
  show ?case
  proof (cases "index < length buf \<and> buf ! index AND 0x80 \<noteq> 0")
    case True
    then have "decode_length_loop k buf (Suc index) (len + ?d * 128 ^ m) (128 ^ Suc m) = (len', index')"
      using Suc.prems(1) by (simp add: Let_def mult.commute)
    from Suc.IH [OF this step] show ?thesis by simp
  next
    case False
    then show ?thesis using Suc.prems(1) less_le_trans [OF step le]
      by (auto simp: Let_def split: if_splits)
  qed
qed

text \<open>
  C38. Remaining lengths up to the protocol's maximum of 268435455 survive writing and reading,
  take at most four bytes, and whatever the bytes are the decoded length is below \<open>2 ^ 28\<close> and
  at most four bytes are consumed.
\<close>

theorem remaining_length_roundtrip:
  assumes "n < 2 ^ 28"
  shows "(\<exists>bytes. encodeRemainingLength [h] n = (length bytes, h # bytes) \<and> length bytes \<le> 4 \<and>
           decodeRemainingLength (h # bytes @ rest) 1 = (n, 1 + length bytes)) \<and>
         fst (decodeRemainingLength buf index) < 2 ^ 28 \<and> snd (decodeRemainingLength buf index) \<le> index + 4"
proof (intro conjI exI)
  have u: "unread (h # varint n @ rest) 1 (varint n @ rest)" by (simp add: unread_def)
  show "encodeRemainingLength [h] n = (length (varint n), h # varint n)"
    using assms by (rule encodeRemainingLength_varint)
  show "length (varint n) \<le> 4" using assms by (intro length_varint) simp_all
  show "decodeRemainingLength (h # varint n @ rest) 1 = (n, 1 + length (varint n))"
    using decodeRemainingLength_varint [OF u assms] .
  obtain len' index' where d: "decode_length_loop 4 buf index 0 (128 ^ 0) = (len', index')"
    by (cases "decode_length_loop 4 buf index 0 (128 ^ 0)")
  then have "len' < 128 ^ (0 + 4) \<and> index \<le> index' \<and> index' \<le> index + 4"
    by (rule decode_length_loop_bound) simp
  then show "fst (decodeRemainingLength buf index) < 2 ^ 28" "snd (decodeRemainingLength buf index) \<le> index + 4"
    using d by (simp_all add: decodeRemainingLength_def MAX_REMAINING_SIZE_def)
qed

theorem remaining_length_roundtrip_witness:
  "\<exists>bytes. encodeRemainingLength [0x30] 321 = (length bytes, 0x30 # bytes) \<and> length bytes \<le> 4 \<and>
     decodeRemainingLength (0x30 # bytes @ [1, 2, 3]) 1 = (321, 1 + length bytes)"
  using remaining_length_roundtrip [of 321 "0x30" "[1, 2, 3]"] by simp

text \<open>
  A frame whose remaining length is too short for its fixed fields makes the decoder read
  past the end of the buffer: the two-byte PUBACK, PUBREC, PUBREL, PUBCOMP, SUBSCRIBE and
  UNSUBSCRIBE packets, and a CONNECT that ends after its protocol name.
\<close>

lemma decode_reads_past_end:
  "decode 1024 [0x40, 0x00] = UB \<and> decode 1024 [0x50, 0x00] = UB \<and> decode 1024 [0x62, 0x00] = UB \<and>
   decode 1024 [0x70, 0x00] = UB \<and> decode 1024 [0x82, 0x00] = UB \<and> decode 1024 [0xA2, 0x00] = UB"
  by code_simp

end
