(* ===== verification/Security.thy ===== *)
theory Security
  imports Packet_Model
begin

text \<open>
  Authentication, authorisation and plugins: \<open>src/security\<close>, \<open>src/plugin/HookRegistry.hpp\<close> and
  the sample plugin. The interfaces \<open>IAuthenticator\<close>, \<open>IAuthorizer\<close> and \<open>IPlugin\<close> are records of
  functions, so that an implementation from outside the repository is a value of the record.
\<close>

section \<open>Authentication and authorisation\<close>

type_synonym IAuthenticator = "string \<Rightarrow> string \<Rightarrow> string \<Rightarrow> bool"

record IAuthorizer =
  az_canConnect :: "string \<Rightarrow> bool"
  az_canPublish :: "string \<Rightarrow> string \<Rightarrow> bool"
  az_canSubscribe :: "string \<Rightarrow> string \<Rightarrow> bool"

record SecurityChain =
  sc_auths :: "IAuthenticator list"
  sc_authz :: "IAuthorizer option"

definition SecurityChain_empty :: SecurityChain where
  "SecurityChain_empty = \<lparr>sc_auths = [], sc_authz = None\<rparr>"

definition addAuthenticator :: "IAuthenticator \<Rightarrow> SecurityChain \<Rightarrow> SecurityChain" where
  "addAuthenticator auth sc = sc\<lparr>sc_auths := sc_auths sc @ [auth]\<rparr>"

definition addAuthorizer :: "IAuthorizer \<Rightarrow> SecurityChain \<Rightarrow> SecurityChain" where
  "addAuthorizer authz sc = sc\<lparr>sc_authz := Some authz\<rparr>"

fun try_authenticators :: "IAuthenticator list \<Rightarrow> string \<Rightarrow> string \<Rightarrow> string \<Rightarrow> bool" where
  "try_authenticators [] client_id username password = False"
| "try_authenticators (auth # auths) client_id username password =
     (if auth client_id username password then True
      else try_authenticators auths client_id username password)"

definition authenticate :: "SecurityChain \<Rightarrow> string \<Rightarrow> string \<Rightarrow> string \<Rightarrow> bool" where
  "authenticate sc client_id username password =
     (if try_authenticators (sc_auths sc) client_id username password then True else sc_auths sc = [])"

definition canConnect :: "SecurityChain \<Rightarrow> string \<Rightarrow> bool" where
  "canConnect sc client_id = (case sc_authz sc of Some a \<Rightarrow> az_canConnect a client_id | None \<Rightarrow> True)"

definition canPublish :: "SecurityChain \<Rightarrow> string \<Rightarrow> string \<Rightarrow> bool" where
  "canPublish sc client_id topic = (case sc_authz sc of Some a \<Rightarrow> az_canPublish a client_id topic | None \<Rightarrow> True)"

definition canSubscribe :: "SecurityChain \<Rightarrow> string \<Rightarrow> string \<Rightarrow> bool" where
  "canSubscribe sc client_id f = (case sc_authz sc of Some a \<Rightarrow> az_canSubscribe a client_id f | None \<Rightarrow> True)"

definition AllowAllAuthenticator :: IAuthenticator where
  "AllowAllAuthenticator client_id username password = True"

definition AllowAllAuthorizer :: IAuthorizer where
  "AllowAllAuthorizer =
     \<lparr>az_canConnect = (\<lambda>_. True), az_canPublish = (\<lambda>_ _. True), az_canSubscribe = (\<lambda>_ _. True)\<rparr>"

fun find_user :: "(string \<times> string) list \<Rightarrow> string \<Rightarrow> string \<Rightarrow> bool" where
  "find_user [] username password = False"
| "find_user ((u, p) # users) username password =
     (if u = username \<and> p = password then True else find_user users username password)"

text \<open>The user table is an argument; the constructor leaves it empty.\<close>

definition PasswordAuthenticator :: "(string \<times> string) list \<Rightarrow> IAuthenticator" where
  "PasswordAuthenticator users client_id username password =
     (if users = [] then True else find_user users username password)"

definition PasswordAuthenticator_users :: "(string \<times> string) list" where
  "PasswordAuthenticator_users = []"

text \<open>\<open>BrokerEngine::Impl::registerSecurity\<close>.\<close>

definition registerSecurity :: "bool \<Rightarrow> SecurityChain \<Rightarrow> SecurityChain" where
  "registerSecurity allow_anonymous sc =
     (if allow_anonymous then addAuthorizer AllowAllAuthorizer (addAuthenticator AllowAllAuthenticator sc)
      else addAuthorizer AllowAllAuthorizer
             (addAuthenticator (PasswordAuthenticator PasswordAuthenticator_users) sc))"

section \<open>Plugins\<close>

text \<open>
  A plugin is code outside the repository with a state of its own. What it does is a function of
  the calls the registry has made before, which are recorded as events. \<open>onMessageIn\<close> may change the
  packet in place and may throw: it returns the verdict and the packet afterwards. The
  notifications \<open>onClientConnected\<close> and \<open>onClientDisconnected\<close> return nothing and act outside the
  broker; they are taken not to throw, since nothing in \<open>HookRegistry\<close> or in \<open>onClose\<close> catches.
\<close>

datatype HookEvent =
    ClientConnected string string string \<comment> \<open>plugin, client, user\<close>
  | MessageIn PublishPacket string \<comment> \<open>packet, client\<close>
  | ClientDisconnected string string \<comment> \<open>plugin, client\<close>

record IPlugin =
  pl_name :: string
  pl_onMessageIn :: "HookEvent list \<Rightarrow> PublishPacket \<Rightarrow> string \<Rightarrow> (bool \<times> PublishPacket) outcome"

type_synonym HookRegistry = "IPlugin list"

definition hooks_add :: "IPlugin \<Rightarrow> HookRegistry \<Rightarrow> HookRegistry" where
  "hooks_add plugin plugins = plugins @ [plugin]"

definition hooks_onClientConnected :: "HookRegistry \<Rightarrow> string \<Rightarrow> string \<Rightarrow> HookEvent list" where
  "hooks_onClientConnected plugins client_id username =
     map (\<lambda>p. ClientConnected (pl_name p) client_id username) plugins"

fun hooks_onMessageIn :: "HookRegistry \<Rightarrow> HookEvent list \<Rightarrow> PublishPacket \<Rightarrow> string \<Rightarrow> (bool \<times> PublishPacket) outcome" where
  "hooks_onMessageIn [] events msg client_id = Ret (True, msg)"
| "hooks_onMessageIn (p # plugins) events msg client_id =
     bind_out (pl_onMessageIn p events msg client_id) (\<lambda>(ok, msg').
     if \<not> ok then Ret (False, msg') else hooks_onMessageIn plugins events msg' client_id)"

definition hooks_onClientDisconnected :: "HookRegistry \<Rightarrow> string \<Rightarrow> HookEvent list" where
  "hooks_onClientDisconnected plugins client_id = map (\<lambda>p. ClientDisconnected (pl_name p) client_id) plugins"

text \<open>The sample plugin: messages are printed, and those under \<open>drop/\<close> are discarded.\<close>

definition MessagePrinter_onMessageIn :: "HookEvent list \<Rightarrow> PublishPacket \<Rightarrow> string \<Rightarrow> (bool \<times> PublishPacket) outcome" where
  "MessagePrinter_onMessageIn events msg client_id = Ret (take 5 (pub_topic msg) \<noteq> ''drop/'', msg)"

definition MessagePrinterPlugin :: IPlugin where
  "MessagePrinterPlugin = \<lparr>pl_name = ''message-printer'', pl_onMessageIn = MessagePrinter_onMessageIn\<rparr>"

section \<open>Properties\<close>

lemma try_authenticators_iff:
  "try_authenticators auths c u p \<longleftrightarrow> (\<exists>a \<in> set auths. a c u p)"
  by (induction auths) auto

lemma find_user_iff: "find_user users u p \<longleftrightarrow> (u, p) \<in> set users"
  by (induction users) (auto split: if_splits)

text \<open>
  C35. A client is authenticated exactly when some authenticator accepts it or none is
  registered; a password authenticator with a non-empty table accepts exactly the listed pairs.
  The table the constructor leaves is empty, so that the broker without anonymous access
  accepts every user name and password, as the one with anonymous access does.
\<close>

theorem authentication_policy:
  "(authenticate sc c u p \<longleftrightarrow> sc_auths sc = [] \<or> (\<exists>a \<in> set (sc_auths sc). a c u p)) \<and>
   (PasswordAuthenticator users c u p \<longleftrightarrow> users = [] \<or> (u, p) \<in> set users) \<and>
   authenticate (registerSecurity False SecurityChain_empty) c u p \<and>
   authenticate (registerSecurity True SecurityChain_empty) c u p"
  by (auto simp: authenticate_def try_authenticators_iff PasswordAuthenticator_def find_user_iff
      registerSecurity_def addAuthorizer_def addAuthenticator_def SecurityChain_empty_def
      AllowAllAuthenticator_def PasswordAuthenticator_users_def)

end
