(* ===== verification/Transport.thy ===== *)
theory Transport
  imports Prelude
begin

text \<open>
  The TCP transport, \<open>src/net/TcpTransport.cpp\<close>. The socket and the asynchronous operations of
  asio are the environment: a write that has been started ends with a completion, and a read
  with a completion carrying an error or some bytes. The state keeps the send queue, the writes
  that have been started and have not ended, what has been written completely and whether the
  socket is open.
\<close>

section \<open>Sending\<close>

record Transport =
  tr_closing :: bool
  tr_send_lists :: "buffer list"
  tr_in_flight :: "buffer list"
  tr_written :: "buffer list"
  tr_socket_open :: bool

definition transport_new :: Transport where
  "transport_new = \<lparr>tr_closing = False, tr_send_lists = [], tr_in_flight = [],
     tr_written = [], tr_socket_open = True\<rparr>"

definition MAX_SEND_QUEUE :: nat where
  "MAX_SEND_QUEUE = 1024"

text \<open>
  \<open>asyncSend()\<close>: start writing the front of the queue, whether or not another write is in
  flight. It is called with a non-empty queue only.
\<close>

definition transport_start_write :: "Transport \<Rightarrow> Transport" where
  "transport_start_write tr = (if tr_closing tr then tr else tr\<lparr>tr_in_flight := tr_in_flight tr @ [hd (tr_send_lists tr)]\<rparr>)"

definition transport_asyncSend :: "buffer \<Rightarrow> Transport \<Rightarrow> Transport" where
  "transport_asyncSend buf tr =
     (if tr_closing tr then tr
      else
        let sendSize = length (tr_send_lists tr)
        in if sendSize > MAX_SEND_QUEUE then tr
           else
             let tr = tr\<lparr>tr_send_lists := tr_send_lists tr @ [buf]\<rparr>
             in if sendSize > 0 then tr else transport_start_write tr)"

definition transport_close :: "Transport \<Rightarrow> Transport" where
  "transport_close tr =
     (let tr = tr\<lparr>tr_closing := True\<rparr>
      in if tr_send_lists tr = [] then tr\<lparr>tr_socket_open := False\<rparr> else tr)"

text \<open>
  The completion handler of \<open>async_write\<close>, called when the oldest write in flight has ended. On
  success the whole buffer it was given has been written; the handler pops the front of the
  queue, whatever that is.
\<close>

definition transport_write_done :: "bool \<Rightarrow> Transport \<Rightarrow> Transport" where
  "transport_write_done error tr =
     (let buf = hd (tr_in_flight tr); tr = tr\<lparr>tr_in_flight := tl (tr_in_flight tr)\<rparr>
      in if error then transport_close tr
         else
           let tr = tr\<lparr>tr_written := tr_written tr @ [buf], tr_send_lists := tl (tr_send_lists tr)\<rparr>
           in if tr_send_lists tr \<noteq> [] then transport_start_write tr
              else if tr_closing tr then tr\<lparr>tr_socket_open := False\<rparr>
              else tr)"

text \<open>One event of a transport's life; a completion only occurs while a write is in flight.\<close>

datatype TransportEvent = Send buffer | WriteDone bool | Close

fun transport_step :: "TransportEvent \<Rightarrow> Transport \<Rightarrow> Transport" where
  "transport_step (Send buf) tr = transport_asyncSend buf tr"
| "transport_step (WriteDone error) tr = (if tr_in_flight tr \<noteq> [] then transport_write_done error tr else tr)"
| "transport_step Close tr = transport_close tr"

definition transport_run :: "TransportEvent list \<Rightarrow> Transport \<Rightarrow> Transport" where
  "transport_run evs tr = fold transport_step evs tr"

text \<open>The buffers a sequence of events asks to send.\<close>

fun sends :: "TransportEvent list \<Rightarrow> buffer list" where
  "sends [] = []"
| "sends (Send buf # evs) = buf # sends evs"
| "sends (_ # evs) = sends evs"

section \<open>Reading\<close>

text \<open>
  \<open>asyncReadSome(buffer, readSize, totalSize, callback)\<close>: fill the positions \<open>readSize\<close> to
  \<open>totalSize\<close> of the buffer, with as many socket reads as it takes. The events are the
  completions of the socket reads; the result is \<open>None\<close> while the read is outstanding, or the
  error flag given to the callback, the buffer and the events left. A transport that is closing
  starts no read, neither the first nor a further one, and never calls back.
\<close>

datatype ReadEvent = ReadError | ReadBytes buffer

definition resize :: "nat \<Rightarrow> buffer \<Rightarrow> buffer" where
  "resize n buf = (if length buf < n then buf @ replicate (n - length buf) 0 else take n buf)"

definition overwrite :: "buffer \<Rightarrow> nat \<Rightarrow> buffer \<Rightarrow> buffer" where
  "overwrite buf pos bs = take pos buf @ bs @ drop (pos + length bs) buf"

fun transport_asyncReadSome ::
  "bool \<Rightarrow> buffer \<Rightarrow> nat \<Rightarrow> nat \<Rightarrow> ReadEvent list \<Rightarrow> (bool \<times> buffer \<times> ReadEvent list) option" where
  "transport_asyncReadSome closing buf readSize totalSize [] = None"
| "transport_asyncReadSome closing buf readSize totalSize (ev # evs) =
     (if closing then None
      else
        let buf = (if length buf < totalSize then resize totalSize buf else buf)
        in case ev of
           ReadError \<Rightarrow> Some (True, buf, evs)
         | ReadBytes bs \<Rightarrow>
             let buf = overwrite buf readSize bs
             in if readSize + length bs \<ge> totalSize then Some (False, buf, evs)
                else transport_asyncReadSome closing buf (readSize + length bs) totalSize evs)"

section \<open>Properties of sending\<close>

text \<open>
  At most one write is in flight, and it is that of the front of the queue; the queue is
  bounded. While no close has been asked for, a non-empty queue has its write in flight and the
  socket is open.
\<close>

definition transport_inv :: "Transport \<Rightarrow> bool" where
  "transport_inv tr \<longleftrightarrow>
     length (tr_send_lists tr) \<le> MAX_SEND_QUEUE + 1 \<and>
     tr_in_flight tr \<in> {[], take 1 (tr_send_lists tr)} \<and>
     (\<not> tr_closing tr \<longrightarrow> tr_socket_open tr \<and> tr_in_flight tr = take 1 (tr_send_lists tr))"

lemmas transport_defs = transport_asyncSend_def transport_start_write_def transport_close_def
  transport_write_done_def Let_def

lemma transport_inv_new: "transport_inv transport_new"
  by (simp add: transport_inv_def transport_new_def)

lemma transport_inv_step:
  assumes inv: "transport_inv tr"
  shows "transport_inv (transport_step ev tr)"
proof (cases ev)
  case (Send buf)
  then show ?thesis
    using inv by (cases "tr_send_lists tr") (auto simp: transport_inv_def transport_defs not_less)
next
  case (WriteDone error)
  show ?thesis
  proof (cases "tr_in_flight tr = []")
    case False
    then obtain x xs where "tr_send_lists tr = x # xs" "tr_in_flight tr = [x]"
      using inv by (cases "tr_send_lists tr") (auto simp: transport_inv_def)
    then show ?thesis
      using inv WriteDone by (cases xs) (auto simp: transport_inv_def transport_defs)
  qed (use inv WriteDone in simp)
next
  case Close
  then show ?thesis using inv by (auto simp: transport_inv_def transport_defs)
qed

lemma transport_run_inv: "transport_inv tr \<Longrightarrow> transport_inv (transport_run evs tr)"
  unfolding transport_run_def by (induction evs arbitrary: tr) (simp_all add: transport_inv_step)

text \<open>
  Without a close or an error, and while the queue is not full when a buffer is handed over,
  every buffer is written or still queued, in the order of the sends.
\<close>

definition never_full :: "TransportEvent list \<Rightarrow> Transport \<Rightarrow> bool" where
  "never_full evs tr \<longleftrightarrow> (\<forall>pre buf post. evs = pre @ Send buf # post \<longrightarrow> length (tr_send_lists (transport_run pre tr)) \<le> MAX_SEND_QUEUE)"

lemma never_full_Cons:
  assumes "never_full (ev # evs) tr"
  shows "never_full evs (transport_step ev tr)" "\<exists>buf. ev = Send buf \<Longrightarrow> length (tr_send_lists tr) \<le> MAX_SEND_QUEUE"
proof -
  show "never_full evs (transport_step ev tr)"
    unfolding never_full_def
  proof (intro allI impI)
    fix pre buf post assume "evs = pre @ Send buf # post"
    then have "ev # evs = (ev # pre) @ Send buf # post" by simp
    then show "length (tr_send_lists (transport_run pre (transport_step ev tr))) \<le> MAX_SEND_QUEUE"
      using assms unfolding never_full_def by (fastforce simp: transport_run_def)
  qed
  show "length (tr_send_lists tr) \<le> MAX_SEND_QUEUE" if "\<exists>buf. ev = Send buf"
    using assms that unfolding never_full_def by (fastforce simp: transport_run_def)
qed

lemma transport_run_fifo:
  assumes "transport_inv tr" "\<not> tr_closing tr" "never_full evs tr" "set evs \<subseteq> {WriteDone False} \<union> range Send"
  shows "tr_written (transport_run evs tr) @ tr_send_lists (transport_run evs tr) =
         tr_written tr @ tr_send_lists tr @ sends evs \<and> \<not> tr_closing (transport_run evs tr)"
  using assms
proof (induction evs arbitrary: tr)
  case Nil
  then show ?case by (simp add: transport_run_def)
next
  case (Cons ev evs)
  let ?tr = "transport_step ev tr"
  have inv: "transport_inv ?tr" using Cons.prems(1) by (rule transport_inv_step)
  have step: "tr_written ?tr @ tr_send_lists ?tr = tr_written tr @ tr_send_lists tr @ sends [ev] \<and> \<not> tr_closing ?tr"
  proof (cases "\<exists>buf. ev = Send buf")
    case True
    then show ?thesis using Cons.prems(2) never_full_Cons(2) [OF Cons.prems(3) True] by (auto simp: transport_defs split: if_splits)
  next
    case False
    then have "ev = WriteDone False" using Cons.prems(4) by auto
    then show ?thesis
      using Cons.prems(1,2) by (cases "tr_send_lists tr") (auto simp: transport_defs transport_inv_def)
  qed
  have split: "sends (ev # evs) = sends [ev] @ sends evs" by (cases ev) simp_all
  have "tr_written (transport_run evs ?tr) @ tr_send_lists (transport_run evs ?tr) =
        tr_written ?tr @ tr_send_lists ?tr @ sends evs \<and> \<not> tr_closing (transport_run evs ?tr)"
    using step Cons.prems(4) never_full_Cons(1) [OF Cons.prems(3)] by (intro Cons.IH inv) simp_all
  then show ?case using step by (simp add: transport_run_def split)
qed

text \<open>
  C33. The send queue of a transport is first in, first out, writes one buffer at a time and
  loses nothing: as long as nothing closes the transport and no buffer is handed over while
  more than 1024 are waiting, what has been written followed by what is queued is the sequence
  of the sends; the writes in flight are one write of the front of the queue, or none when the
  queue is empty.
\<close>

theorem transport_fifo:
  assumes "never_full evs transport_new" and "set evs \<subseteq> {WriteDone False} \<union> range Send"
  defines "tr \<equiv> transport_run evs transport_new"
  shows "tr_written tr @ tr_send_lists tr = sends evs \<and> tr_in_flight tr = take 1 (tr_send_lists tr)"
proof -
  have "\<not> tr_closing tr" and eq: "tr_written tr @ tr_send_lists tr = sends evs"
    using transport_run_fifo [OF transport_inv_new _ assms(1,2)] by (simp_all add: tr_def transport_new_def)
  moreover have "transport_inv tr"
    unfolding tr_def by (rule transport_run_inv [OF transport_inv_new])
  ultimately show ?thesis by (auto simp: transport_inv_def)
qed

theorem transport_fifo_witness:
  "let tr = transport_run [Send [1], Send [2], WriteDone False] transport_new
   in tr_written tr @ tr_send_lists tr = [[1], [2]] \<and> tr_in_flight tr = [[2]]"
proof -
  let ?evs = "[Send [1], Send [2], WriteDone False]"
  have "never_full ?evs transport_new"
    by (auto simp: never_full_def Cons_eq_append_conv transport_run_def transport_new_def transport_defs MAX_SEND_QUEUE_def)
  from transport_fifo [OF this] show ?thesis
    by (simp add: transport_run_def transport_new_def transport_defs MAX_SEND_QUEUE_def)
qed

text \<open>
  C34. Closing a transport with exactly one buffer queued closes the socket once that buffer is
  written. With two or more queued, the write in flight is completed, the rest is never
  written, no further write is started, and the socket stays open whatever happens later:
  \<open>asyncSend()\<close> returns at once because the transport is closing.
\<close>

theorem transport_close_strands_queue:
  assumes "transport_inv tr" and "\<not> tr_closing tr" and "tr_send_lists tr = x # rest"
  defines "tr' \<equiv> transport_step (WriteDone False) (transport_step Close tr)"
  shows "tr_written tr' = tr_written tr @ [x] \<and> (rest = [] \<longrightarrow> \<not> tr_socket_open tr') \<and>
     (rest \<noteq> [] \<longrightarrow> tr_written (transport_run evs tr') = tr_written tr @ [x] \<and>
        tr_send_lists (transport_run evs tr') = rest \<and> tr_socket_open (transport_run evs tr'))"
proof -
  have flight: "tr_in_flight tr = [x]" and opn: "tr_socket_open tr"
    using assms(1-3) by (auto simp: transport_inv_def)
  have stuck: "transport_run evs t = t"
    if "tr_closing t" "tr_send_lists t \<noteq> []" "tr_in_flight t = []" for t
    using that unfolding transport_run_def
  proof (induction evs arbitrary: t)
    case (Cons ev evs)
    have "transport_step ev t = t" using Cons.prems by (cases ev) (simp_all add: transport_defs)
    then show ?case using Cons by simp
  qed simp
  show ?thesis
    using flight opn assms(2,3) stuck [of tr'] by (auto simp: tr'_def transport_defs)
qed

theorem transport_close_strands_queue_witness:
  "tr_socket_open (transport_run [Send [1], Send [2], Close, WriteDone False, WriteDone False] transport_new) \<and>
   tr_send_lists (transport_run [Send [1], Send [2], Close, WriteDone False, WriteDone False] transport_new) = [[2]]"
proof -
  let ?tr = "transport_run [Send [1], Send [2]] transport_new"
  have "transport_inv ?tr" by (rule transport_run_inv [OF transport_inv_new])
  moreover have "\<not> tr_closing ?tr" "tr_send_lists ?tr = [1] # [[2]]"
    by (simp_all add: transport_run_def transport_new_def transport_defs MAX_SEND_QUEUE_def)
  ultimately show ?thesis
    using transport_close_strands_queue [of ?tr "[1]" "[[2]]" "[WriteDone False]"]
    by (simp add: transport_run_def)
qed

end
