(* ===== verification/Channel.thy ===== *)
theory Channel
  imports Transport Codec_Proofs
begin

text \<open>
  Framing, the reading half of \<open>src/net/Channel.cpp\<close>: how a channel cuts the byte stream of its
  socket into the buffers it hands to the decoder. The buffer persists between reads; the
  constructor gives it the configured size and every packet leaves it empty. The first argument of
  the functions is the \<open>closing_\<close> flag of the transport.
\<close>

section \<open>Definitions\<close>

text \<open>What reading one packet comes to: still waiting, the channel closed with a reason, or a buffer to decode.\<close>

datatype ReadResult = Waiting | Closed string | Frame buffer "ReadEvent list"

definition DEFAULT_BUFFER_SIZE :: nat where
  "DEFAULT_BUFFER_SIZE = 1024"

definition DEFAULT_PACKET_MAX_SIZE :: int where
  "DEFAULT_PACKET_MAX_SIZE = 256 * 1024 * 1024"

definition asyncReadPayload :: "bool \<Rightarrow> nat \<Rightarrow> nat \<Rightarrow> buffer \<Rightarrow> ReadEvent list \<Rightarrow> ReadResult" where
  "asyncReadPayload closing offset len buf evs =
     (case transport_asyncReadSome closing buf offset (len + offset) evs of
        None \<Rightarrow> Waiting
      | Some (ec, buf, evs) \<Rightarrow> if ec then Closed ''peer closed connection'' else Frame buf evs)"

lemma transport_asyncReadSome_consumes:
  "transport_asyncReadSome closing buf r t evs = Some (ec, buf', evs') \<Longrightarrow> length evs' < length evs"
  by (induction evs arbitrary: buf r)
     (auto simp: Let_def less_SucI split: ReadEvent.splits if_splits)

function asyncRemainingLen :: "bool \<Rightarrow> nat \<Rightarrow> buffer \<Rightarrow> ReadEvent list \<Rightarrow> ReadResult" where
  "asyncRemainingLen closing offset buf evs =
     (if buf ! (offset - 1) AND 0x80 \<noteq> 0 then
        (case transport_asyncReadSome closing buf offset (offset + 1) evs of
           None \<Rightarrow> Waiting
         | Some (ec, buf', evs') \<Rightarrow>
             if ec then Closed ''peer closed connection'' else asyncRemainingLen closing (offset + 1) buf' evs')
      else
        let remainingLength = to_int32 (int (fst (decodeRemainingLength buf 1)))
        in if remainingLength > DEFAULT_PACKET_MAX_SIZE
           then Closed ''remaining length bigger than max packet size''
           else asyncReadPayload closing offset (nat (remainingLength mod 2 ^ 64)) buf evs)"
  by pat_completeness auto
termination
  by (relation "measure (\<lambda>(closing, offset, buf, evs). length evs)") (auto dest: transport_asyncReadSome_consumes)

declare asyncRemainingLen.simps [simp del]

definition asyncReadHead :: "bool \<Rightarrow> buffer \<Rightarrow> ReadEvent list \<Rightarrow> ReadResult" where
  "asyncReadHead closing buf evs =
     (case transport_asyncReadSome closing buf 0 2 evs of
        None \<Rightarrow> Waiting
      | Some (ec, buf, evs) \<Rightarrow> if ec then Closed ''peer closed connection'' else asyncRemainingLen closing 2 buf evs)"

lemma asyncReadHead_closing [simp]: "asyncReadHead True buf evs = Waiting"
  by (cases evs) (simp_all add: asyncReadHead_def)

section \<open>Framing\<close>

text \<open>A sequence of socket reads that delivers given bytes in any pieces.\<close>

definition delivers :: "buffer \<Rightarrow> ReadEvent list \<Rightarrow> bool" where
  "delivers bs evs \<longleftrightarrow> (\<exists>chunks. evs = map ReadBytes chunks \<and> concat chunks = bs \<and> [] \<notin> set chunks)"

lemma overwrite_append:
  assumes "pos + length xs + length ys \<le> length buf"
  shows "overwrite (overwrite buf pos xs) (pos + length xs) ys = overwrite buf pos (xs @ ys)"
proof -
  have "length (take pos buf) = pos" using assms by simp
  then show ?thesis by (simp add: overwrite_def add.commute add.left_commute)
qed

lemma length_overwrite: "pos + length xs \<le> length buf \<Longrightarrow> length (overwrite buf pos xs) = length buf"
  by (simp add: overwrite_def)

lemma read_chunks:
  "chunks \<noteq> [] \<Longrightarrow> [] \<notin> set chunks \<Longrightarrow> pos + length (concat chunks) = tot \<Longrightarrow> tot \<le> length buf \<Longrightarrow>
   transport_asyncReadSome False buf pos tot (map ReadBytes chunks @ evs) =
     Some (False, overwrite buf pos (concat chunks), evs)"
proof (induction chunks arbitrary: buf pos)
  case (Cons x xs)
  show ?case
  proof (cases "xs = []")
    case True
    then show ?thesis using Cons.prems by simp
  next
    case False
    then have "pos + length x < tot"
      using Cons.prems(2,3) by (cases xs) auto
    moreover have "length (overwrite buf pos x) = length buf"
      using Cons.prems by (intro length_overwrite) simp
    moreover have "transport_asyncReadSome False (overwrite buf pos x) (pos + length x) tot (map ReadBytes xs @ evs) =
        Some (False, overwrite (overwrite buf pos x) (pos + length x) (concat xs), evs)"
      using Cons.prems False calculation(2) by (intro Cons.IH) auto
    ultimately show ?thesis
      using Cons.prems by (simp add: overwrite_append)
  qed
qed simp

text \<open>
  While a packet is read, the buffer holds the bytes read so far followed by what was in the
  buffer beyond them.
\<close>

definition progress :: "buffer \<Rightarrow> buffer \<Rightarrow> buffer" where
  "progress buf pre = pre @ drop (length pre) buf"

lemma progress_grow:
  fixes buf :: buffer
  assumes "tot = length pre + length bs"
  defines "old \<equiv> progress buf pre"
  shows "overwrite (if length old < tot then resize tot old else old) (length pre) bs = progress buf (pre @ bs)"
  using assms by (auto simp: overwrite_def resize_def progress_def add.commute)

lemma read_progress:
  assumes "delivers bs evs1" and "bs \<noteq> []" and "tot = length pre + length bs"
  shows "transport_asyncReadSome False (progress buf pre) (length pre) tot (evs1 @ evs) =
         Some (False, progress buf (pre @ bs), evs)"
proof -
  let ?old = "progress buf pre"
  let ?new = "if length ?old < tot then resize tot ?old else ?old"
  obtain chunks where c: "evs1 = map ReadBytes chunks" "concat chunks = bs" "[] \<notin> set chunks"
    using assms(1) by (auto simp: delivers_def)
  then obtain x xs where x: "chunks = x # xs" using assms(2) by (cases chunks) auto
  have len: "tot \<le> length ?new" by (simp add: resize_def)
  have "transport_asyncReadSome False ?old (length pre) tot (evs1 @ evs) =
        transport_asyncReadSome False ?new (length pre) tot (evs1 @ evs)"
    using c(1) x by (simp add: resize_def)
  also have "\<dots> = Some (False, overwrite ?new (length pre) (concat chunks), evs)"
    unfolding c(1) using c assms len by (intro read_chunks) (auto simp: x)
  also have "overwrite ?new (length pre) (concat chunks) = progress buf (pre @ bs)"
    unfolding c(2) using assms(3) by (rule progress_grow)
  finally show ?thesis .
qed

lemma delivers_one: "delivers [v] [ReadBytes [v]]"
  by (auto simp: delivers_def intro!: exI [of _ "[[v]]"])

lemma varint_bits:
  "(\<forall>v \<in> set (butlast (varint n)). v AND 0x80 \<noteq> 0) \<and> last (varint n) AND 0x80 = 0"
proof (induction n rule: varint.induct)
  case (1 n)
  then show ?case
    using length_varint_pos [of "n div 128"]
    by (cases "n < 128") (auto simp: varint.simps [of n] varint_more simp del: length_varint_pos)
qed

lemma progress_nth_last: "pre \<noteq> [] \<Longrightarrow> progress buf pre ! (length pre - Suc 0) = last pre"
  by (simp add: progress_def nth_append last_conv_nth)

lemma remaining_length_bytes:
  assumes "pre \<noteq> []" and "\<forall>v \<in> set (butlast (last pre # vs)). v AND 0x80 \<noteq> 0"
  shows "asyncRemainingLen False (length pre) (progress buf pre) (map (\<lambda>v. ReadBytes [v]) vs @ evs) =
         asyncRemainingLen False (length (pre @ vs)) (progress buf (pre @ vs)) evs"
  using assms
proof (induction vs arbitrary: pre)
  case (Cons v vs)
  have "transport_asyncReadSome False (progress buf pre) (length pre) (length pre + 1)
      ([ReadBytes [v]] @ map (\<lambda>v. ReadBytes [v]) vs @ evs) =
      Some (False, progress buf (pre @ [v]), map (\<lambda>v. ReadBytes [v]) vs @ evs)"
    by (rule read_progress) (simp_all add: delivers_one)
  moreover have "last pre AND 0x80 \<noteq> 0" using Cons.prems(2) by simp
  moreover have "asyncRemainingLen False (length (pre @ [v])) (progress buf (pre @ [v])) (map (\<lambda>v. ReadBytes [v]) vs @ evs) =
      asyncRemainingLen False (length ((pre @ [v]) @ vs)) (progress buf ((pre @ [v]) @ vs)) evs"
    using Cons.prems by (intro Cons.IH) simp_all
  ultimately show ?case
    using Cons.prems(1) by (subst asyncRemainingLen.simps) (simp add: progress_nth_last)
qed simp

text \<open>
  Framing: whatever pieces the socket delivers a packet in, the channel hands the decoder
  the bytes of exactly that packet and leaves the reads that follow it; when the buffer was
  longer than the packet (the first packet on a connection) the rest of the buffer follows it.
\<close>

lemma channel_framing:
  assumes "length body < 2 ^ 28"
    and "delivers [h, hd (varint (length body))] evs1"
    and "evs2 = map (\<lambda>v. ReadBytes [v]) (tl (varint (length body)))"
    and "if body = [] then evs3 = [ReadBytes []] else delivers body evs3"
  shows "asyncReadHead False buf (evs1 @ evs2 @ evs3 @ evs) =
         Frame (mqtt_packet h body @ drop (length (mqtt_packet h body)) buf) evs"
proof -
  let ?n = "length body"
  let ?pre = "h # varint ?n"
  obtain v vs where v: "varint ?n = v # vs" using length_varint_pos [of ?n] by (cases "varint ?n") auto
  have head: "transport_asyncReadSome False buf 0 2 (evs1 @ evs2 @ evs3 @ evs) =
      Some (False, progress buf [h, v], evs2 @ evs3 @ evs)"
    using read_progress [of "[h, v]" evs1 2 "[]" buf] assms(2) v by (simp add: progress_def)
  have len: "asyncRemainingLen False 2 (progress buf [h, v]) (evs2 @ evs3 @ evs) =
      asyncRemainingLen False (length ?pre) (progress buf ?pre) (evs3 @ evs)"
    using remaining_length_bytes [of "[h, v]" vs buf "evs3 @ evs"] varint_bits [of ?n] v assms(3) by (simp add: numeral_2_eq_2)
  have nocont: "progress buf ?pre ! (length ?pre - 1) AND 0x80 = 0"
    using varint_bits [of ?n] progress_nth_last [of ?pre buf] v by simp
  have "unread (progress buf ?pre) 1 (varint ?n @ drop (length ?pre) buf)"
    by (simp add: unread_def progress_def)
  then have dec: "decodeRemainingLength (progress buf ?pre) 1 = (?n, 1 + length (varint ?n))"
    using assms(1) by (rule decodeRemainingLength_varint)
  have small: "to_int32 (int ?n) = int ?n" "\<not> int ?n > DEFAULT_PACKET_MAX_SIZE" "nat (int ?n mod 2 ^ 64) = ?n"
    using assms(1) by (simp_all add: to_int32_small DEFAULT_PACKET_MAX_SIZE_def)
  have "transport_asyncReadSome False (progress buf ?pre) (length ?pre) (?n + length ?pre) (evs3 @ evs) =
      Some (False, progress buf (?pre @ body), evs)"
  proof (cases "body = []")
    case True
    then show ?thesis using assms(4) by (auto simp: overwrite_def progress_def resize_def)
  next
    case False
    then show ?thesis using assms(4) by (intro read_progress) simp_all
  qed
  then have "asyncReadPayload False (length ?pre) ?n (progress buf ?pre) (evs3 @ evs) =
      Frame (progress buf (?pre @ body)) evs"
    by (simp add: asyncReadPayload_def)
  then have "asyncRemainingLen False (length ?pre) (progress buf ?pre) (evs3 @ evs) = Frame (progress buf (?pre @ body)) evs"
    using nocont dec small by (subst asyncRemainingLen.simps) (simp add: Let_def)
  then show ?thesis
    using head len by (simp add: asyncReadHead_def mqtt_packet_def progress_def)
qed

lemma channel_framing_instance:
  "asyncReadHead False [] ([ReadBytes [0x40], ReadBytes [2]] @ [] @ [ReadBytes [0, 7]] @ [ReadError]) =
   Frame [0x40, 2, 0, 7] [ReadError]"
proof -
  have "delivers [0x40, hd (varint (length [0, 7 :: byte]))] [ReadBytes [0x40], ReadBytes [2]]"
    by (auto simp: delivers_def varint.simps intro!: exI [of _ "[[0x40], [2]]"])
  moreover have "delivers [0, 7] [ReadBytes [0, 7]]"
    by (auto simp: delivers_def intro!: exI [of _ "[[0, 7]]"])
  ultimately show ?thesis
    using channel_framing [of "[0, 7]" "0x40" "[ReadBytes [0x40], ReadBytes [2]]" "[]" "[ReadBytes [0, 7]]" "[]" "[ReadError]"]
    by (simp add: varint.simps mqtt_packet_def)
qed

end
