(* ===== verification/Broker_State.thy ===== *)
theory Broker_State
  imports Effects Security Transport TopicTree RetainStore Outbox Codec
begin

text \<open>
  The state of the broker: client contexts, channels and sessions as objects on heaps indexed
  by references, and the registries that hold them. A \<open>shared_ptr\<close> or raw pointer is a
  reference; a \<open>weak_ptr\<close> is an optional reference (\<open>None\<close> after \<open>reset\<close>) whose \<open>lock\<close> is a lookup
  in the heap. A session object is removed from its heap when the session table, its only
  owner, drops it; a channel object when nothing owns it any more. References are never reused.

  Time is that of \<open>std::chrono::steady_clock\<close> in nanoseconds, and an input of the model.
\<close>

section \<open>Objects\<close>

record Will =
  w_topic :: string
  w_payload :: string
  w_qos :: Qos
  w_retain :: bool
  w_valid :: bool

record OutItem =
  oi_qos :: Qos
  oi_pubrel_sent :: bool
  oi_topic :: string
  oi_payload :: string
  oi_source_client :: string
  oi_sent_time :: int
  oi_retry_count :: byte

type_synonym chan_ref = nat
type_synonym ctx_ref = nat

record ClientContext =
  cc_channel :: "chan_ref option"
  cc_session :: "session_ref option"
  cc_client_id :: string
  cc_connected :: bool
  cc_clean_disconnect :: bool
  cc_taken_over :: bool
  cc_will :: Will
  cc_awaiting_puback :: "u16 \<rightharpoonup> string"
  cc_awaiting_pubrel :: "u16 \<rightharpoonup> Message"
  cc_out_inflight :: "u16 \<rightharpoonup> OutItem"
  cc_next_out_pid :: u16
  cc_max_retries :: byte
  cc_retry_interval :: int

definition no_will :: Will where
  "no_will = \<lparr>w_topic = [], w_payload = [], w_qos = AtMostOnce, w_retain = False, w_valid = False\<rparr>"

definition new_context :: "chan_ref \<Rightarrow> ClientContext" where
  "new_context c = \<lparr>cc_channel = Some c, cc_session = None, cc_client_id = [], cc_connected = False,
     cc_clean_disconnect = False, cc_taken_over = False, cc_will = no_will,
     cc_awaiting_puback = (\<lambda>_. None), cc_awaiting_pubrel = (\<lambda>_. None), cc_out_inflight = (\<lambda>_. None),
     cc_next_out_pid = 1, cc_max_retries = 10, cc_retry_interval = 5000 * 1000000\<rparr>"

text \<open>The entry of a reference that is not in use.\<close>

definition no_context :: ClientContext where
  "no_context = (new_context 0)\<lparr>cc_channel := None\<rparr>"

text \<open>\<open>nextPacketId\<close>: the identifier and the context afterwards.\<close>

definition nextPacketId :: "ClientContext \<Rightarrow> u16 \<times> ClientContext" where
  "nextPacketId ctx =
     (let pid = cc_next_out_pid ctx + 1;
          pid = (if pid = 0 then 1 else pid)
      in (pid, ctx\<lparr>cc_next_out_pid := pid\<rparr>))"

record Channel =
  ch_closing :: bool
  ch_keepalive :: u16
  ch_last_read :: int
  ch_peer :: string
  ch_buffer :: buffer
  ch_transport :: Transport

section \<open>The broker\<close>

text \<open>
  What is fixed while the broker runs: the security chain, the plugins, the limits, the
  order in which a \<open>std::unordered_map\<close> with the given keys (in insertion order) is iterated,
  the transport type and the initial size of a channel's buffer.
\<close>

datatype TransportType = tcp | ssl | websocket

record Env =
  env_security :: SecurityChain
  env_hooks :: HookRegistry
  env_MaxConnections :: u32
  env_MaxPacketSize :: u32
  env_order :: "string list \<Rightarrow> string list"
  env_transport_type :: TransportType
  env_max_receive_size :: nat

record Broker =
  b_topics :: Node
  b_retains :: RetainStore
  b_outbox :: Outbox
  b_sess :: "session_ref \<Rightarrow> Session option"
  b_ctxs :: "ctx_ref \<Rightarrow> ClientContext"
  b_chans :: "chan_ref \<Rightarrow> Channel option"
  b_sessions :: "(string \<times> session_ref) list"
  b_by_channel :: "(chan_ref \<times> ctx_ref) list"
  b_by_id :: "string \<rightharpoonup> ctx_ref"
  b_channels :: "chan_ref list"
  b_requests :: "(ctx_ref \<times> Packet) list"
  b_received :: u64
  b_delivered :: u64
  b_auto_seq :: u64
  b_events :: "HookEvent list"
  b_started :: bool
  b_next_ref :: nat
  b_now :: int

type_synonym 'a brokerP = "('a, Broker) prog"

definition upd_ctx :: "ctx_ref \<Rightarrow> (ClientContext \<Rightarrow> ClientContext) \<Rightarrow> Broker \<Rightarrow> Broker" where
  "upd_ctx x f b = b\<lparr>b_ctxs := (b_ctxs b)(x := f (b_ctxs b x))\<rparr>"

definition upd_chan :: "chan_ref \<Rightarrow> (Channel \<Rightarrow> Channel) \<Rightarrow> Broker \<Rightarrow> Broker" where
  "upd_chan c f b = b\<lparr>b_chans := (b_chans b)(c := map_option f (b_chans b c))\<rparr>"

definition upd_sess :: "session_ref \<Rightarrow> (Session \<Rightarrow> Session) \<Rightarrow> Broker \<Rightarrow> Broker" where
  "upd_sess s f b = b\<lparr>b_sess := (b_sess b)(s := map_option f (b_sess b s))\<rparr>"

text \<open>\<open>weak_ptr::lock\<close> of a context's channel and session.\<close>

definition lock_channel :: "ctx_ref \<Rightarrow> Broker \<Rightarrow> (chan_ref \<times> Channel) option" where
  "lock_channel x b =
     (case cc_channel (b_ctxs b x) of
        None \<Rightarrow> None
      | Some c \<Rightarrow> map_option (\<lambda>ch. (c, ch)) (b_chans b c))"

definition lock_session :: "ctx_ref \<Rightarrow> Broker \<Rightarrow> (session_ref \<times> Session) option" where
  "lock_session x b =
     (case cc_session (b_ctxs b x) of
        None \<Rightarrow> None
      | Some s \<Rightarrow> map_option (\<lambda>v. (s, v)) (b_sess b s))"

section \<open>Channels\<close>

text \<open>
  The operations of \<open>src/net/Channel.cpp\<close> that other components call. \<open>on_close\<close> is the callback
  the engine installs; it is an argument of every operation that can close a channel.
\<close>

type_synonym close_callback = "chan_ref \<Rightarrow> string \<Rightarrow> unit brokerP"

definition channel_close :: "chan_ref \<Rightarrow> unit brokerP" where
  "channel_close c =
     modP (upd_chan c (\<lambda>ch. ch\<lparr>ch_closing := True, ch_transport := transport_close (ch_transport ch)\<rparr>))"

definition isClosing :: "chan_ref \<Rightarrow> Broker \<Rightarrow> bool" where
  "isClosing c b = (case b_chans b c of Some ch \<Rightarrow> ch_closing ch | None \<Rightarrow> True)"

definition requestClose :: "close_callback \<Rightarrow> chan_ref \<Rightarrow> string \<Rightarrow> unit brokerP" where
  "requestClose on_close c reason =
     bindP (getP (isClosing c)) (\<lambda>closing.
     if closing then returnP ()
     else seqP (on_close c reason) (channel_close c))"

definition transport_of_send :: "chan_ref \<Rightarrow> buffer \<Rightarrow> unit brokerP" where
  "transport_of_send c bytes =
     modP (upd_chan c (\<lambda>ch. ch\<lparr>ch_transport := transport_asyncSend bytes (ch_transport ch)\<rparr>))"

definition channel_asyncSend :: "close_callback \<Rightarrow> chan_ref \<Rightarrow> Packet \<Rightarrow> bool brokerP" where
  "channel_asyncSend on_close c pkt =
     bindP (getP (isClosing c)) (\<lambda>closing.
     if closing then returnP False
     else
       catchP
         (case encode pkt [] of
            Ret (True, bytes) \<Rightarrow> seqP (transport_of_send c bytes) (returnP True)
          | Ret (False, _) \<Rightarrow> seqP (requestClose on_close c ''failed to encode packet'') (returnP False)
          | Throw e \<Rightarrow> throwP e
          | UB \<Rightarrow> undefP)
         (\<lambda>e. seqP (requestClose on_close c ''write error'') (returnP True)))"

definition channel_setKeepalive :: "chan_ref \<Rightarrow> u16 \<Rightarrow> unit brokerP" where
  "channel_setKeepalive c seconds =
     modP (\<lambda>b. upd_chan c (\<lambda>ch. ch\<lparr>ch_keepalive := seconds, ch_last_read := b_now b\<rparr>) b)"

text \<open>\<open>keepalive_ * 1000\<close> and \<open>keepalive_millis * 3 / 2\<close> are in milliseconds.\<close>

definition channel_tick :: "close_callback \<Rightarrow> int \<Rightarrow> chan_ref \<Rightarrow> unit brokerP" where
  "channel_tick on_close now c =
     bindP (getP (\<lambda>b. b_chans b c)) (\<lambda>oc.
     case oc of
       None \<Rightarrow> returnP ()
     | Some ch \<Rightarrow>
         if ch_closing ch \<or> ch_keepalive ch = 0 then returnP ()
         else
           let keepalive_millis = unat (ch_keepalive ch) * 1000
           in if now - ch_last_read ch > int (keepalive_millis * 3 div 2) * 1000000
              then requestClose on_close c ''keepalive timeout''
              else returnP ())"

section \<open>Heap lemmas\<close>

lemma upd_ctx_simps [simp, frame_simps]:
  "b_topics (upd_ctx x f b) = b_topics b" "b_retains (upd_ctx x f b) = b_retains b"
  "b_outbox (upd_ctx x f b) = b_outbox b" "b_sess (upd_ctx x f b) = b_sess b"
  "b_chans (upd_ctx x f b) = b_chans b" "b_sessions (upd_ctx x f b) = b_sessions b"
  "b_by_channel (upd_ctx x f b) = b_by_channel b" "b_by_id (upd_ctx x f b) = b_by_id b"
  "b_channels (upd_ctx x f b) = b_channels b" "b_requests (upd_ctx x f b) = b_requests b"
  "b_received (upd_ctx x f b) = b_received b" "b_delivered (upd_ctx x f b) = b_delivered b"
  "b_auto_seq (upd_ctx x f b) = b_auto_seq b" "b_events (upd_ctx x f b) = b_events b"
  "b_started (upd_ctx x f b) = b_started b" "b_next_ref (upd_ctx x f b) = b_next_ref b"
  "b_now (upd_ctx x f b) = b_now b"
  "b_ctxs (upd_ctx x f b) = (b_ctxs b)(x := f (b_ctxs b x))"
  by (simp_all add: upd_ctx_def)

lemma upd_chan_simps [simp, frame_simps]:
  "b_topics (upd_chan c f b) = b_topics b" "b_retains (upd_chan c f b) = b_retains b"
  "b_outbox (upd_chan c f b) = b_outbox b" "b_sess (upd_chan c f b) = b_sess b"
  "b_ctxs (upd_chan c f b) = b_ctxs b" "b_sessions (upd_chan c f b) = b_sessions b"
  "b_by_channel (upd_chan c f b) = b_by_channel b" "b_by_id (upd_chan c f b) = b_by_id b"
  "b_channels (upd_chan c f b) = b_channels b" "b_requests (upd_chan c f b) = b_requests b"
  "b_received (upd_chan c f b) = b_received b" "b_delivered (upd_chan c f b) = b_delivered b"
  "b_auto_seq (upd_chan c f b) = b_auto_seq b" "b_events (upd_chan c f b) = b_events b"
  "b_started (upd_chan c f b) = b_started b" "b_next_ref (upd_chan c f b) = b_next_ref b"
  "b_now (upd_chan c f b) = b_now b"
  "b_chans (upd_chan c f b) = (b_chans b)(c := map_option f (b_chans b c))"
  by (simp_all add: upd_chan_def)

lemma upd_sess_simps [simp, frame_simps]:
  "b_topics (upd_sess s f b) = b_topics b" "b_retains (upd_sess s f b) = b_retains b"
  "b_outbox (upd_sess s f b) = b_outbox b" "b_ctxs (upd_sess s f b) = b_ctxs b"
  "b_chans (upd_sess s f b) = b_chans b" "b_sessions (upd_sess s f b) = b_sessions b"
  "b_by_channel (upd_sess s f b) = b_by_channel b" "b_by_id (upd_sess s f b) = b_by_id b"
  "b_channels (upd_sess s f b) = b_channels b" "b_requests (upd_sess s f b) = b_requests b"
  "b_received (upd_sess s f b) = b_received b" "b_delivered (upd_sess s f b) = b_delivered b"
  "b_auto_seq (upd_sess s f b) = b_auto_seq b" "b_events (upd_sess s f b) = b_events b"
  "b_started (upd_sess s f b) = b_started b" "b_next_ref (upd_sess s f b) = b_next_ref b"
  "b_now (upd_sess s f b) = b_now b"
  "b_sess (upd_sess s f b) = (b_sess b)(s := map_option f (b_sess b s))"
  by (simp_all add: upd_sess_def)

end
