(* ===== verification/SessionManager.thy ===== *)
theory SessionManager
  imports Broker_State
begin

text \<open>
  \<open>src/broker/SessionManager.cpp\<close>: the registries of channels, client identifiers and sessions.
  The engine installs \<open>Outbox::clear\<close> as \<open>on_session_drop\<close>, and it is written out in \<open>dropSession\<close>.
\<close>

definition addChannel :: "chan_ref \<Rightarrow> ctx_ref brokerP" where
  "addChannel c =
     bindP (getP b_next_ref) (\<lambda>x.
     seqP (modP (\<lambda>b. b\<lparr>b_ctxs := (b_ctxs b)(x := new_context c),
                         b_by_channel := AList.update c x (b_by_channel b), b_next_ref := Suc x\<rparr>))
     (returnP x))"

definition byChannel :: "chan_ref \<Rightarrow> Broker \<Rightarrow> ctx_ref option" where
  "byChannel c b = map_of (b_by_channel b) c"

definition bindId :: "string \<Rightarrow> ctx_ref \<Rightarrow> unit brokerP" where
  "bindId client_id x = modP (\<lambda>b. b\<lparr>b_by_id := (b_by_id b)(client_id \<mapsto> x)\<rparr>)"

definition byId :: "string \<Rightarrow> Broker \<Rightarrow> ctx_ref option" where
  "byId client_id b = b_by_id b client_id"

definition sessionExists :: "string \<Rightarrow> Broker \<Rightarrow> bool" where
  "sessionExists client_id b \<longleftrightarrow> map_of (b_sessions b) client_id \<noteq> None"

definition connectionCount :: "Broker \<Rightarrow> nat" where
  "connectionCount b = length (b_by_channel b)"

definition sessionCount :: "Broker \<Rightarrow> nat" where
  "sessionCount b = length (b_sessions b)"

definition getSessionByClientId :: "string \<Rightarrow> Broker \<Rightarrow> session_ref option" where
  "getSessionByClientId client_id b = map_of (b_sessions b) client_id"

text \<open>
  \<open>dropSession(const SessionPtr& session)\<close>. Erasing the entry of the table destroys the pointer in
  it, and the session object that it owned. \<open>entry\<close> says that the argument is a reference to that
  pointer, as in \<open>getSession\<close>, and not to one that the caller holds: then handing it to the callback
  after the erasure reads a destroyed object.
\<close>

definition dropSession :: "bool \<Rightarrow> session_ref \<Rightarrow> unit brokerP" where
  "dropSession entry s =
     bindP (getP (\<lambda>b. b_sess b s)) (\<lambda>os.
     case os of
       None \<Rightarrow> undefP
     | Some v \<Rightarrow>
         seqP (forP (s_subscriptions v) (\<lambda>sub.
                 modP (\<lambda>b. b\<lparr>b_topics := topic_remove (b_topics b) s (sb_filter sub)\<rparr>)))
         (bindP (getP (\<lambda>b. map_of (b_sessions b) (s_client_id v))) (\<lambda>erased.
         seqP (modP (\<lambda>b. b\<lparr>b_sess := (case erased of Some e \<Rightarrow> (b_sess b)(e := None) | None \<Rightarrow> b_sess b),
                              b_sessions := AList.delete (s_client_id v) (b_sessions b)\<rparr>))
         (if entry \<and> erased = Some s then undefP
          else modP (\<lambda>b. b\<lparr>b_outbox := outbox_clear (b_outbox b) s\<rparr>)))))"

definition new_session :: "string \<Rightarrow> bool \<Rightarrow> session_ref brokerP" where
  "new_session client_id clean =
     bindP (getP b_next_ref) (\<lambda>s.
     seqP (modP (\<lambda>b. b\<lparr>b_sess := (b_sess b)(s \<mapsto> \<lparr>s_client_id = client_id, s_clean_session = clean,
                                                      s_subscriptions = []\<rparr>),
                         b_next_ref := Suc s\<rparr>))
     (seqP (modP (\<lambda>b. b\<lparr>b_sessions := (case map_of (b_sessions b) client_id of
                                           None \<Rightarrow> (client_id, s) # b_sessions b | Some _ \<Rightarrow> b_sessions b)\<rparr>))
     (returnP s)))"

definition getSession :: "string \<Rightarrow> bool \<Rightarrow> session_ref brokerP" where
  "getSession client_id clean =
     bindP (getP (\<lambda>b. map_of (b_sessions b) client_id)) (\<lambda>it.
     if clean then
       seqP (case it of Some s \<Rightarrow> dropSession True s | None \<Rightarrow> returnP ()) (new_session client_id True)
     else
       case it of Some s \<Rightarrow> returnP s | None \<Rightarrow> new_session client_id False)"

definition removeChannel :: "chan_ref \<Rightarrow> unit brokerP" where
  "removeChannel c =
     bindP (getP (byChannel c)) (\<lambda>it.
     case it of
       None \<Rightarrow> returnP ()
     | Some x \<Rightarrow>
         seqP (modP (\<lambda>b. let cid = cc_client_id (b_ctxs b x)
                          in if cid \<noteq> [] \<and> b_by_id b cid = Some x
                             then b\<lparr>b_by_id := (b_by_id b)(cid := None)\<rparr> else b))
         (seqP (bindP (getP (lock_session x)) (\<lambda>session.
                bindP (getP (\<lambda>b. cc_taken_over (b_ctxs b x))) (\<lambda>taken_over.
                case session of
                  Some (s, v) \<Rightarrow>
                    whenP (\<not> taken_over \<and> s_clean_session v)
                      (seqP (dropSession False s) (modP (upd_ctx x (\<lambda>ctx. ctx\<lparr>cc_session := None\<rparr>))))
                | None \<Rightarrow> returnP ())))
         (modP (\<lambda>b. b\<lparr>b_by_channel := AList.delete c (b_by_channel b)\<rparr>))))"

definition checkKeepalive :: "close_callback \<Rightarrow> int \<Rightarrow> chan_ref list \<Rightarrow> unit brokerP" where
  "checkKeepalive on_close now snapshot = forP snapshot (channel_tick on_close now)"

end
