(* ===== verification/Router.thy ===== *)
theory Router
  imports SessionManager
begin

text \<open>
  \<open>src/broker/Router.cpp\<close>: routing a message to the sessions whose subscriptions match,
  delivering it to one client, resending what a client has not acknowledged; and
  \<open>SessionManager::checkRetransmission\<close>, which calls \<open>resend\<close>.
\<close>

section \<open>Delivery\<close>

definition min_qos :: "Qos \<Rightarrow> Qos \<Rightarrow> Qos" where
  "min_qos a b = (if qos_val a < qos_val b then a else b)"

definition publish_packet :: "PublishPacket \<Rightarrow> Packet" where
  "publish_packet pub = \<lparr>pkt_type = Publish, pkt_body = PublishBody pub\<rparr>"

definition deliver :: "close_callback \<Rightarrow> ctx_ref \<Rightarrow> Message \<Rightarrow> Qos \<Rightarrow> bool \<Rightarrow> bool \<Rightarrow> unit brokerP" where
  "deliver on_close x msg granted_qos as_retained dup =
     bindP (getP (lock_channel x)) (\<lambda>sub_channel.
     case sub_channel of
       None \<Rightarrow> returnP ()
     | Some (c, ch) \<Rightarrow>
         if ch_closing ch then returnP ()
         else
           let qos = min_qos granted_qos (m_qos msg);
               pub = \<lparr>pub_topic = m_topic msg, pub_payload = m_payload msg, pub_qos = qos,
                      pub_retain = as_retained, pub_dup = dup, pub_packet_id = 0,
                      pub_source_client = m_source_client msg\<rparr>
           in bindP
                (if qos \<noteq> AtMostOnce then
                   bindP (getP (\<lambda>b. nextPacketId (b_ctxs b x))) (\<lambda>(pid, ctx).
                   bindP (getP b_now) (\<lambda>now.
                   seqP (modP (upd_ctx x (\<lambda>_. ctx\<lparr>cc_out_inflight := (cc_out_inflight ctx)(pid \<mapsto>
                           \<lparr>oi_qos = qos, oi_pubrel_sent = False, oi_topic = m_topic msg,
                            oi_payload = m_payload msg, oi_source_client = m_source_client msg,
                            oi_sent_time = now, oi_retry_count = 0\<rparr>)\<rparr>)))
                   (returnP (pub\<lparr>pub_packet_id := pid\<rparr>))))
                 else returnP pub) (\<lambda>pub.
              bindP (channel_asyncSend on_close c (publish_packet pub)) (\<lambda>sent.
              if sent then modP (\<lambda>b. b\<lparr>b_delivered := b_delivered b + 1\<rparr>)
              else modP (upd_ctx x (\<lambda>ctx. ctx\<lparr>cc_out_inflight :=
                                        (cc_out_inflight ctx)(pub_packet_id pub := None)\<rparr>)))))"

section \<open>Routing\<close>

text \<open>
  The first loop of \<open>route\<close>: per client identifier, the highest effective quality of service
  and the session. \<open>best_qos\<close> is kept in insertion order; the session is kept by its
  reference and its clean-session flag, which never changes.
\<close>

type_synonym route_maps = "(string \<times> Qos) list \<times> (string \<rightharpoonup> session_ref \<times> bool)"

definition best_step :: "(session_ref \<Rightarrow> Session option) \<Rightarrow> Message \<Rightarrow> Match \<Rightarrow> route_maps \<Rightarrow> route_maps" where
  "best_step sess msg m acc =
     (case sess (mt_session m) of
        None \<Rightarrow> acc
      | Some v \<Rightarrow>
          let (best_qos, session_map) = acc;
              effectiveQos = min_qos (mt_qos m) (m_qos msg);
              q = (case map_of best_qos (s_client_id v) of Some q \<Rightarrow> q | None \<Rightarrow> AtMostOnce);
              q = (if qos_val effectiveQos > qos_val q then effectiveQos else q)
          in (AList.update (s_client_id v) q best_qos,
              session_map(s_client_id v \<mapsto> (mt_session m, s_clean_session v))))"

definition best_maps :: "Broker \<Rightarrow> Message \<Rightarrow> route_maps" where
  "best_maps b msg =
     fold (best_step (b_sess b) msg) (topic_match (b_topics b) (m_topic msg)) ([], (\<lambda>_. None))"

definition enqueue_offline :: "session_ref \<times> bool \<Rightarrow> Message \<Rightarrow> Qos \<Rightarrow> unit brokerP" where
  "enqueue_offline session msg qos =
     (if \<not> snd session \<and> qos > AtMostOnce
      then modP (\<lambda>b. b\<lparr>b_outbox := outbox_enqueue (b_outbox b) (fst session) msg qos False\<rparr>)
      else returnP ())"

text \<open>The body of the second loop; every key of \<open>best_qos\<close> has an entry in \<open>session_map\<close>.\<close>

definition route_one ::
  "close_callback \<Rightarrow> Message \<Rightarrow> (string \<rightharpoonup> session_ref \<times> bool) \<Rightarrow> string \<Rightarrow> Qos \<Rightarrow> unit brokerP" where
  "route_one on_close msg session_map cid qos =
     bindP (getP (byId cid)) (\<lambda>subscriber.
     case subscriber of
       Some x \<Rightarrow>
         bindP (getP (lock_channel x)) (\<lambda>sub_channel.
         bindP (getP (\<lambda>b. cc_connected (b_ctxs b x))) (\<lambda>connected.
         if connected \<and> (case sub_channel of Some (c, ch) \<Rightarrow> \<not> ch_closing ch | None \<Rightarrow> False)
         then deliver on_close x msg qos False False
         else case session_map cid of
                Some session \<Rightarrow> enqueue_offline session msg qos
              | None \<Rightarrow> returnP ()))
     | None \<Rightarrow>
         (case session_map cid of
            Some session \<Rightarrow> enqueue_offline session msg qos
          | None \<Rightarrow> returnP ()))"

definition route :: "Env \<Rightarrow> close_callback \<Rightarrow> Message \<Rightarrow> unit brokerP" where
  "route env on_close msg =
     bindP (getP (\<lambda>b. best_maps b msg)) (\<lambda>(best_qos, session_map).
     forP (env_order env (map fst best_qos)) (\<lambda>cid.
       case map_of best_qos cid of
         Some qos \<Rightarrow> route_one on_close msg session_map cid qos
       | None \<Rightarrow> returnP ()))"

section \<open>Retransmission\<close>

definition ack_packet :: "PacketType \<Rightarrow> u16 \<Rightarrow> Packet" where
  "ack_packet t packet_id = \<lparr>pkt_type = t, pkt_body = AckBody \<lparr>ack_packet_id = packet_id\<rparr>\<rparr>"

definition resend :: "close_callback \<Rightarrow> ctx_ref \<Rightarrow> u16 \<Rightarrow> unit brokerP" where
  "resend on_close x packet_id =
     bindP (getP (\<lambda>b. cc_out_inflight (b_ctxs b x) packet_id)) (\<lambda>it.
     case it of
       None \<Rightarrow> returnP ()
     | Some item \<Rightarrow>
         bindP (getP (lock_channel x)) (\<lambda>channel.
         bindP (getP (\<lambda>b. cc_connected (b_ctxs b x))) (\<lambda>connected.
         case channel of
           None \<Rightarrow> returnP ()
         | Some (c, ch) \<Rightarrow>
             if \<not> connected \<or> ch_closing ch then returnP ()
             else if oi_qos item = ExactlyOnce \<and> oi_pubrel_sent item then
               bindP (channel_asyncSend on_close c (ack_packet Pubrel packet_id)) (\<lambda>_. returnP ())
             else
               bindP (channel_asyncSend on_close c (publish_packet
                        \<lparr>pub_topic = oi_topic item, pub_payload = oi_payload item, pub_qos = oi_qos item,
                         pub_retain = False, pub_dup = True, pub_packet_id = packet_id,
                         pub_source_client = oi_source_client item\<rparr>)) (\<lambda>sent.
               if \<not> sent then returnP ()
               else modP (\<lambda>b. upd_ctx x (\<lambda>ctx. ctx\<lparr>cc_out_inflight :=
                      (cc_out_inflight ctx)(packet_id := map_option
                         (\<lambda>i. i\<lparr>oi_sent_time := b_now b, oi_retry_count := oi_retry_count i + 1\<rparr>)
                         (cc_out_inflight ctx packet_id))\<rparr>) b)))))"

text \<open>
  \<open>checkRetransmission\<close>: two nested range-for loops over \<open>std::unordered_map\<close>s whose iteration
  orders are arguments. Closing a channel erases its entry of \<open>by_channel_\<close>, the element the
  outer loop stands on, and the loop then increments an invalid iterator: undefined behaviour.
\<close>

fun retransmit_items :: "close_callback \<Rightarrow> int \<Rightarrow> ctx_ref \<Rightarrow> chan_ref \<Rightarrow> u16 list \<Rightarrow> unit brokerP" where
  "retransmit_items on_close now x c [] = returnP ()"
| "retransmit_items on_close now x c (pid # pids) =
     bindP (getP (\<lambda>b. b_ctxs b x)) (\<lambda>ctx.
     case cc_out_inflight ctx pid of
       None \<Rightarrow> undefP
     | Some out \<Rightarrow>
         if oi_retry_count out \<ge> cc_max_retries ctx then requestClose on_close c ''retry limit reached''
         else
           seqP (if now - oi_sent_time out \<ge> cc_retry_interval ctx then resend on_close x pid else returnP ())
                (retransmit_items on_close now x c pids))"

definition retransmit_client :: "close_callback \<Rightarrow> int \<Rightarrow> (ctx_ref \<Rightarrow> u16 list) \<Rightarrow> chan_ref \<Rightarrow> unit brokerP" where
  "retransmit_client on_close now pid_order key =
     bindP (getP (byChannel key)) (\<lambda>it.
     case it of
       None \<Rightarrow> undefP
     | Some x \<Rightarrow>
         bindP (getP (lock_channel x)) (\<lambda>channel.
         case channel of
           None \<Rightarrow> returnP ()
         | Some (c, ch) \<Rightarrow>
             if ch_closing ch then returnP ()
             else
               seqP (retransmit_items on_close now x c (pid_order x))
               (bindP (getP (byChannel key)) (\<lambda>it'. if it' = None then undefP else returnP ()))))"

definition checkRetransmission ::
  "close_callback \<Rightarrow> int \<Rightarrow> chan_ref list \<Rightarrow> (ctx_ref \<Rightarrow> u16 list) \<Rightarrow> unit brokerP" where
  "checkRetransmission on_close now chan_order pid_order =
     forP chan_order (retransmit_client on_close now pid_order)"

end
