(* ===== verification/Handlers.thy ===== *)
theory Handlers
  imports Router Utils
begin

text \<open>
  The packet handlers, \<open>src/broker/Handlers.cpp\<close>, and the dispatcher. A handler takes the
  context of the client the packet came from. \<open>std::get\<close> on a body of another type throws
  \<open>std::bad_variant_access\<close>. \<open>env\<close> and \<open>on_close\<close> are as in the router.
\<close>

definition connAck :: "close_callback \<Rightarrow> ctx_ref \<Rightarrow> PacketType \<Rightarrow> u16 \<Rightarrow> unit brokerP" where
  "connAck on_close x type packet_id =
     bindP (getP (lock_channel x)) (\<lambda>channel.
     case channel of
       None \<Rightarrow> returnP ()
     | Some (c, ch) \<Rightarrow> bindP (channel_asyncSend on_close c (ack_packet type packet_id)) (\<lambda>_. returnP ()))"

definition nextAutoSeq :: "u64 brokerP" where
  "nextAutoSeq = seqP (modP (\<lambda>b. b\<lparr>b_auto_seq := b_auto_seq b + 1\<rparr>)) (getP b_auto_seq)"

section \<open>CONNECT\<close>

definition connack_packet :: "bool \<Rightarrow> ConnackReturnCode \<Rightarrow> Packet" where
  "connack_packet session_present rc =
     \<lparr>pkt_type = Connack, pkt_body = ConnackBody \<lparr>ca_session_present = session_present, ca_return_code = rc\<rparr>\<rparr>"

text \<open>The deferred action of a rejected CONNECT.\<close>

definition connect_reject :: "close_callback \<Rightarrow> ctx_ref \<Rightarrow> ConnackReturnCode \<Rightarrow> unit brokerP" where
  "connect_reject on_close x rc =
     bindP (getP (lock_channel x)) (\<lambda>channel.
     case channel of
       None \<Rightarrow> returnP ()
     | Some (c, ch) \<Rightarrow>
         seqP (channel_asyncSend on_close c (connack_packet False rc))
              (requestClose on_close c ''CONNECT rejected''))"

text \<open>The client identifier: \<open>None\<close> when it is rejected.\<close>

definition JM_MQTT_3_1_1_VERSION_LEVEL :: byte where
  "JM_MQTT_3_1_1_VERSION_LEVEL = 4"

definition connect_client_id :: "ConnectPacket \<Rightarrow> string option brokerP" where
  "connect_client_id cp =
     (if cp_client_id cp = [] then
        if \<not> cp_clean_session cp then returnP None
        else bindP nextAutoSeq (\<lambda>n. returnP (Some (''auto-'' @ to_string (unat n))))
      else if length (cp_client_id cp) > 23 then returnP None
      else returnP (Some (cp_client_id cp)))"

definition connect_takeover :: "close_callback \<Rightarrow> ctx_ref \<Rightarrow> string \<Rightarrow> unit brokerP" where
  "connect_takeover on_close x cid =
     bindP (getP (byId cid)) (\<lambda>old.
     case old of
       None \<Rightarrow> returnP ()
     | Some y \<Rightarrow>
         if y = x then returnP ()
         else
           seqP (modP (upd_ctx y (\<lambda>ctx. ctx\<lparr>cc_taken_over := True, cc_session := None\<rparr>)))
           (seqP (bindP (getP (lock_channel y)) (\<lambda>channel.
                  case channel of
                    Some (c, ch) \<Rightarrow> requestClose on_close c ''session takeover''
                  | None \<Rightarrow> returnP ()))
           (modP (upd_ctx y (\<lambda>ctx. ctx\<lparr>cc_channel := None\<rparr>)))))"

text \<open>The end of the handler, once the client is bound to its session.\<close>

definition connect_finish ::
  "Env \<Rightarrow> close_callback \<Rightarrow> ctx_ref \<Rightarrow> ConnectPacket \<Rightarrow> string \<Rightarrow> bool \<Rightarrow> unit brokerP" where
  "connect_finish env on_close x cp cid existed =
     bindP (getP (lock_channel x)) (\<lambda>channel.
     case channel of
       None \<Rightarrow> throwP ''channel not bind in ClientContext''
     | Some (c, ch) \<Rightarrow>
         seqP (whenP (cp_keepalive cp > 0) (channel_setKeepalive c (cp_keepalive cp)))
         (seqP (bindId cid x)
         (seqP (channel_asyncSend on_close c
                  (connack_packet (if cp_clean_session cp then False else existed) accepted))
         (seqP (whenP (existed \<and> \<not> cp_clean_session cp)
                  (bindP (getP (lock_session x)) (\<lambda>session.
                   case session of
                     None \<Rightarrow> returnP ()
                   | Some (s, v) \<Rightarrow>
                       bindP (outbox_drain b_outbox b_outbox_update
                                (\<lambda>msg qos retained. deliver on_close x msg qos retained True) s) (\<lambda>_. returnP ()))))
         (modP (\<lambda>b. b\<lparr>b_events := b_events b
                        @ hooks_onClientConnected (env_hooks env) cid (cp_username cp)\<rparr>))))))"

text \<open>The handler from the session takeover on.\<close>

definition bind_client :: "ctx_ref \<Rightarrow> ConnectPacket \<Rightarrow> string \<Rightarrow> session_ref \<Rightarrow> Broker \<Rightarrow> Broker" where
  "bind_client x cp cid s =
     upd_ctx x (\<lambda>ctx. ctx\<lparr>cc_session := Some s, cc_client_id := cid, cc_connected := True,
       cc_clean_disconnect := False, cc_taken_over := False,
       cc_will := \<lparr>w_topic = cp_will_topic cp, w_payload = cp_will_payload cp, w_qos = cp_will_qos cp,
                   w_retain = cp_will_retain cp, w_valid = cp_has_will cp\<rparr>\<rparr>)"

definition connect_accept :: "Env \<Rightarrow> close_callback \<Rightarrow> ctx_ref \<Rightarrow> ConnectPacket \<Rightarrow> string \<Rightarrow> unit brokerP" where
  "connect_accept env on_close x cp cid =
     seqP (connect_takeover on_close x cid)
     (bindP (getP (sessionExists cid)) (\<lambda>existed.
     bindP (getSession cid (cp_clean_session cp)) (\<lambda>s.
     seqP (modP (bind_client x cp cid s))
     (connect_finish env on_close x cp cid existed))))"

definition ConnectHandler :: "Env \<Rightarrow> close_callback \<Rightarrow> ctx_ref \<Rightarrow> Packet \<Rightarrow> unit brokerP" where
  "ConnectHandler env on_close x pkt =
     bindP (getP (\<lambda>b. cc_connected (b_ctxs b x))) (\<lambda>connected.
     if connected then throwP ''duplicate CONNECT''
     else case pkt_body pkt of
       ConnectBody cp \<Rightarrow>
         if cp_protocol cp \<noteq> ''MQTT'' then throwP ''bad CONNECT protocol name''
         else
           bindP (getP connectionCount) (\<lambda>count.
           if count \<ge> unat (env_MaxConnections env) then connect_reject on_close x server_unavailable
           else if cp_level cp \<noteq> JM_MQTT_3_1_1_VERSION_LEVEL then connect_reject on_close x bad_protocol_version
           else
             bindP (connect_client_id cp) (\<lambda>ocid.
             case ocid of
               None \<Rightarrow> connect_reject on_close x id_rejected
             | Some cid \<Rightarrow>
                 if \<not> authenticate (env_security env) cid (cp_username cp) (cp_password cp)
                 then connect_reject on_close x bad_username_password
                 else if \<not> canConnect (env_security env) cid then connect_reject on_close x not_authorized
                 else connect_accept env on_close x cp cid))
     | _ \<Rightarrow> throwP ''bad_variant_access'')"

section \<open>PUBLISH\<close>

definition publish_message :: "PublishPacket \<Rightarrow> string \<Rightarrow> Message" where
  "publish_message pub client_id =
     \<lparr>m_topic = pub_topic pub, m_payload = pub_payload pub, m_qos = pub_qos pub,
      m_retain = pub_retain pub, m_source_client = client_id\<rparr>"

text \<open>The tail of the handler after the duplicate check, with the message built before it.\<close>

definition publish_ack :: "close_callback \<Rightarrow> ctx_ref \<Rightarrow> PublishPacket \<Rightarrow> unit brokerP" where
  "publish_ack on_close x pub =
     (if pub_qos pub = AtLeastOnce then connAck on_close x Puback (pub_packet_id pub)
      else if pub_qos pub = ExactlyOnce then connAck on_close x Pubrec (pub_packet_id pub)
      else returnP ())"

definition publish_filtered ::
  "Env \<Rightarrow> close_callback \<Rightarrow> ctx_ref \<Rightarrow> Message \<Rightarrow> bool \<Rightarrow> PublishPacket \<Rightarrow> unit brokerP" where
  "publish_filtered env on_close x msg ok pub =
     (if \<not> ok then returnP ()
      else if pub_retain pub \<and> pub_payload pub = [] then
        seqP (bindP (liftP (\<lambda>b. retain_clear (b_retains b) (pub_topic pub))) (\<lambda>st.
              modP (\<lambda>b. b\<lparr>b_retains := st\<rparr>)))
             (publish_ack on_close x pub)
      else
        seqP (whenP (pub_retain pub)
                (bindP (liftP (\<lambda>b. retain_store (b_retains b) (pub_topic pub) msg)) (\<lambda>st.
                 modP (\<lambda>b. b\<lparr>b_retains := st\<rparr>))))
        (seqP (whenP (pub_qos pub \<noteq> ExactlyOnce) (route env on_close msg))
        (publish_ack on_close x pub)))"

definition publish_accept ::
  "Env \<Rightarrow> close_callback \<Rightarrow> ctx_ref \<Rightarrow> PublishPacket \<Rightarrow> Message \<Rightarrow> unit brokerP" where
  "publish_accept env on_close x pub msg =
     bindP (getP (\<lambda>b. cc_client_id (b_ctxs b x))) (\<lambda>client_id.
     bindP (getP b_events) (\<lambda>events.
     seqP (modP (\<lambda>b. b\<lparr>b_events := events @ [MessageIn pub client_id]\<rparr>))
     (bindP (liftP (\<lambda>_. hooks_onMessageIn (env_hooks env) events pub client_id))
     (\<lambda>(ok, pub). publish_filtered env on_close x msg ok pub))))"

definition PublishHandler :: "Env \<Rightarrow> close_callback \<Rightarrow> ctx_ref \<Rightarrow> Packet \<Rightarrow> unit brokerP" where
  "PublishHandler env on_close x pkt =
     (case pkt_body pkt of
        PublishBody pub \<Rightarrow>
          bindP (getP (\<lambda>b. b_ctxs b x)) (\<lambda>client.
          if \<not> cc_connected client then throwP ''PUBLISH before CONNECT''
          else if isTopicNameInvalid (pub_topic pub) then throwP ''invlaid PUBLISH topic''
          else if \<not> canPublish (env_security env) (cc_client_id client) (pub_topic pub) then returnP ()
          else
            seqP (modP (\<lambda>b. b\<lparr>b_received := b_received b + 1\<rparr>))
            (let pub = pub\<lparr>pub_source_client := cc_client_id client\<rparr>;
                 msg = publish_message pub (cc_client_id client);
                 pid = pub_packet_id pub
             in if pub_qos pub = AtLeastOnce then
                  if cc_awaiting_puback client pid \<noteq> None then connAck on_close x Puback pid
                  else seqP (modP (upd_ctx x (\<lambda>ctx. ctx\<lparr>cc_awaiting_puback :=
                                     (cc_awaiting_puback ctx)(pid \<mapsto> pub_topic pub)\<rparr>)))
                         (publish_accept env on_close x pub msg)
                else if pub_qos pub = ExactlyOnce then
                  if cc_awaiting_pubrel client pid \<noteq> None then connAck on_close x Pubrec pid
                  else seqP (modP (upd_ctx x (\<lambda>ctx. ctx\<lparr>cc_awaiting_pubrel :=
                                     (cc_awaiting_pubrel ctx)(pid \<mapsto> msg)\<rparr>)))
                         (publish_accept env on_close x pub msg)
                else publish_accept env on_close x pub msg))
      | _ \<Rightarrow> throwP ''bad_variant_access'')"

section \<open>SUBSCRIBE and UNSUBSCRIBE\<close>

text \<open>The update of the session's own list of subscriptions.\<close>

fun update_subscription :: "string \<Rightarrow> Qos \<Rightarrow> Subscription list \<Rightarrow> Subscription list" where
  "update_subscription f q [] = [\<lparr>sb_filter = f, sb_qos = q\<rparr>]"
| "update_subscription f q (s # ss) =
     (if sb_filter s = f then s\<lparr>sb_qos := q\<rparr> # ss else s # update_subscription f q ss)"

text \<open>One entry of SUBSCRIBE: the code it adds to \<open>granted\<close>.\<close>

definition subscribe_entry :: "Env \<Rightarrow> close_callback \<Rightarrow> ctx_ref \<Rightarrow> SubscribeEntry \<Rightarrow> byte brokerP" where
  "subscribe_entry env on_close x e =
     bindP (getP (\<lambda>b. cc_client_id (b_ctxs b x))) (\<lambda>client_id.
     if isTopicFilterInvalid (se_filter e) \<or> \<not> canSubscribe (env_security env) client_id (se_filter e)
     then returnP 0x80
     else
       bindP (getP (lock_session x)) (\<lambda>session.
       case session of
         None \<Rightarrow> throwP ''session not found in SUBSCRIBE''
       | Some (s, v) \<Rightarrow>
           seqP (modP (\<lambda>b. b\<lparr>b_topics := topic_add (b_topics b) s (se_filter e) (se_qos e)\<rparr>))
           (seqP (modP (upd_sess s (\<lambda>v. v\<lparr>s_subscriptions :=
                    update_subscription (se_filter e) (se_qos e) (s_subscriptions v)\<rparr>)))
           (bindP (getP (\<lambda>b. retain_all (b_retains b))) (\<lambda>retained.
           seqP (forP retained (\<lambda>m. whenP (isTopicMatchesFilter (se_filter e) (m_topic m))
                                        (deliver on_close x m (se_qos e) True False)))
           (returnP (qos_val (se_qos e))))))))"

fun subscribe_loop :: "Env \<Rightarrow> close_callback \<Rightarrow> ctx_ref \<Rightarrow> SubscribeEntry list \<Rightarrow> byte list \<Rightarrow> byte list brokerP" where
  "subscribe_loop env on_close x [] granted = returnP granted"
| "subscribe_loop env on_close x (e # es) granted =
     bindP (subscribe_entry env on_close x e) (\<lambda>code.
     subscribe_loop env on_close x es (granted @ [code]))"

definition send_reply :: "close_callback \<Rightarrow> ctx_ref \<Rightarrow> Packet \<Rightarrow> unit brokerP" where
  "send_reply on_close x out =
     bindP (getP (lock_channel x)) (\<lambda>channel.
     case channel of
       None \<Rightarrow> returnP ()
     | Some (c, ch) \<Rightarrow> bindP (channel_asyncSend on_close c out) (\<lambda>_. returnP ()))"

definition suback_packet :: "u16 \<Rightarrow> byte list \<Rightarrow> Packet" where
  "suback_packet packet_id granted =
     \<lparr>pkt_type = Suback, pkt_body = SubackBody \<lparr>sa_packet_id = packet_id, sa_granted = granted\<rparr>\<rparr>"

definition SubscribeHandler :: "Env \<Rightarrow> close_callback \<Rightarrow> ctx_ref \<Rightarrow> Packet \<Rightarrow> unit brokerP" where
  "SubscribeHandler env on_close x pkt =
     (case pkt_body pkt of
        SubscribeBody sub \<Rightarrow>
          bindP (getP (\<lambda>b. cc_connected (b_ctxs b x))) (\<lambda>connected.
          if \<not> connected then throwP ''SUBSCRIBE before CONNECT''
          else if sub_entries sub = [] then throwP ''SUBSCRIBE filter empty''
          else
            bindP (subscribe_loop env on_close x (sub_entries sub) []) (\<lambda>granted.
            send_reply on_close x (suback_packet (sub_packet_id sub) granted)))
      | _ \<Rightarrow> throwP ''bad_variant_access'')"

definition unsubscribe_one :: "ctx_ref \<Rightarrow> string \<Rightarrow> unit brokerP" where
  "unsubscribe_one x f =
     bindP (getP (lock_session x)) (\<lambda>session.
     case session of
       None \<Rightarrow> throwP ''session not found in UNSUBSCRIBE''
     | Some (s, v) \<Rightarrow>
         seqP (modP (\<lambda>b. b\<lparr>b_topics := topic_remove (b_topics b) s f\<rparr>))
              (modP (upd_sess s (\<lambda>v. v\<lparr>s_subscriptions :=
                       filter (\<lambda>sub. sb_filter sub \<noteq> f) (s_subscriptions v)\<rparr>))))"

definition UnsubscribeHandler :: "Env \<Rightarrow> close_callback \<Rightarrow> ctx_ref \<Rightarrow> Packet \<Rightarrow> unit brokerP" where
  "UnsubscribeHandler env on_close x pkt =
     (case pkt_body pkt of
        UnsubscribeBody unsub \<Rightarrow>
          bindP (getP (\<lambda>b. cc_connected (b_ctxs b x))) (\<lambda>connected.
          if \<not> connected then throwP ''UNSUBSCRIBE before CONNECT''
          else if unsub_topics unsub = [] then throwP ''UNSUBSCRIBE topic empty''
          else
            seqP (forP (unsub_topics unsub) (unsubscribe_one x))
                 (send_reply on_close x (ack_packet Unsuback (unsub_packet_id unsub))))
      | _ \<Rightarrow> throwP ''bad_variant_access'')"

section \<open>Acknowledgements, PINGREQ, DISCONNECT\<close>

definition AckHandler :: "Env \<Rightarrow> close_callback \<Rightarrow> ctx_ref \<Rightarrow> Packet \<Rightarrow> unit brokerP" where
  "AckHandler env on_close x pkt =
     (case pkt_body pkt of
        AckBody ack \<Rightarrow>
          let packet_id = ack_packet_id ack in
          bindP (getP (\<lambda>b. b_ctxs b x)) (\<lambda>client.
          if \<not> cc_connected client then throwP ''ACKPACKET before CONNECT''
          else case pkt_type pkt of
            Puback \<Rightarrow>
              modP (upd_ctx x (\<lambda>ctx. ctx\<lparr>cc_awaiting_puback := (cc_awaiting_puback ctx)(packet_id := None),
                                        cc_out_inflight := (cc_out_inflight ctx)(packet_id := None)\<rparr>))
          | Pubrec \<Rightarrow>
              (case cc_out_inflight client packet_id of
                 Some item \<Rightarrow>
                   if oi_qos item = ExactlyOnce then
                     seqP (modP (upd_ctx x (\<lambda>ctx. ctx\<lparr>cc_out_inflight :=
                             (cc_out_inflight ctx)(packet_id \<mapsto> item\<lparr>oi_pubrel_sent := True\<rparr>)\<rparr>)))
                          (connAck on_close x Pubrel packet_id)
                   else returnP ()
               | None \<Rightarrow> returnP ())
          | Pubrel \<Rightarrow>
              seqP (case cc_awaiting_pubrel client packet_id of
                      Some msg \<Rightarrow>
                        seqP (route env on_close msg)
                             (modP (upd_ctx x (\<lambda>ctx. ctx\<lparr>cc_awaiting_pubrel :=
                                      (cc_awaiting_pubrel ctx)(packet_id := None)\<rparr>)))
                    | None \<Rightarrow> returnP ())
                   (connAck on_close x Pubcomp packet_id)
          | Pubcomp \<Rightarrow>
              modP (upd_ctx x (\<lambda>ctx. ctx\<lparr>cc_out_inflight := (cc_out_inflight ctx)(packet_id := None)\<rparr>))
          | _ \<Rightarrow> returnP ())
      | _ \<Rightarrow> throwP ''bad_variant_access'')"

definition PingreqHandler :: "Env \<Rightarrow> close_callback \<Rightarrow> ctx_ref \<Rightarrow> Packet \<Rightarrow> unit brokerP" where
  "PingreqHandler env on_close x pkt =
     bindP (getP (\<lambda>b. cc_connected (b_ctxs b x))) (\<lambda>connected.
     if \<not> connected then throwP ''PINGREQ before CONNECT''
     else send_reply on_close x \<lparr>pkt_type = Pingresp, pkt_body = EmptyBody\<rparr>)"

definition DisconnectHandler :: "Env \<Rightarrow> close_callback \<Rightarrow> ctx_ref \<Rightarrow> Packet \<Rightarrow> unit brokerP" where
  "DisconnectHandler env on_close x pkt =
     modP (upd_ctx x (\<lambda>ctx. ctx\<lparr>cc_clean_disconnect := True, cc_connected := False\<rparr>))"

section \<open>The dispatcher\<close>

text \<open>\<open>registerHandlers\<close> of the engine fills the table of \<open>PacketDispatcher\<close>.\<close>

type_synonym handler = "Env \<Rightarrow> close_callback \<Rightarrow> ctx_ref \<Rightarrow> Packet \<Rightarrow> unit brokerP"
type_synonym PacketDispatcher = "nat \<rightharpoonup> handler"

definition registerHandler :: "PacketType \<Rightarrow> handler \<Rightarrow> PacketDispatcher \<Rightarrow> PacketDispatcher" where
  "registerHandler type h handlers = handlers(packet_type_val type \<mapsto> h)"

definition registerHandlers :: "PacketDispatcher \<Rightarrow> PacketDispatcher" where
  "registerHandlers =
     registerHandler Disconnect DisconnectHandler \<circ> registerHandler Pingreq PingreqHandler \<circ>
     registerHandler Pubcomp AckHandler \<circ> registerHandler Pubrel AckHandler \<circ>
     registerHandler Pubrec AckHandler \<circ> registerHandler Puback AckHandler \<circ>
     registerHandler Unsubscribe UnsubscribeHandler \<circ> registerHandler Subscribe SubscribeHandler \<circ>
     registerHandler Publish PublishHandler \<circ> registerHandler Connect ConnectHandler"

definition dispatch :: "PacketDispatcher \<Rightarrow> handler" where
  "dispatch handlers env on_close x pkt =
     (case handlers (packet_type_val (pkt_type pkt)) of
        None \<Rightarrow> throwP ''unhandled packet type''
      | Some h \<Rightarrow> h env on_close x pkt)"

end
