(* ===== verification/Engine.thy ===== *)
theory Engine
  imports Handlers Channel
begin

text \<open>
  \<open>src/broker/BrokerEngine.cpp\<close>, with the construction of channels and the tick service: what
  happens on an accepted connection, a received frame, a closed channel, a queued request and a
  timer tick. Each of these runs to its end before the next one; the interleavings of the I/O
  thread and the worker inside one of them are outside the model.
\<close>

section \<open>Channels\<close>

definition channel_new :: "nat \<Rightarrow> int \<Rightarrow> Channel" where
  "channel_new configSize now =
     \<lparr>ch_closing = False, ch_keepalive = 0, ch_last_read = now, ch_peer = [],
      ch_buffer = replicate configSize 0, ch_transport = transport_new\<rparr>"

text \<open>\<open>ChannelFactory::Impl::create\<close> in a build without OpenSSL.\<close>

definition ChannelFactory_create :: "TransportType \<Rightarrow> nat \<Rightarrow> int \<Rightarrow> Channel option" where
  "ChannelFactory_create type configSize now =
     (case type of ssl \<Rightarrow> None | _ \<Rightarrow> Some (channel_new configSize now))"

text \<open>
  \<open>Channel::start\<close>, with the address and port of \<open>remote_endpoint\<close>, or \<open>None\<close> when it throws. The
  read of the first header that it starts is a later step.
\<close>

definition channel_start :: "(string \<times> nat) option \<Rightarrow> chan_ref \<Rightarrow> unit brokerP" where
  "channel_start endpoint c =
     (case endpoint of
        None \<Rightarrow> throwP ''system_error''
      | Some (address, port) \<Rightarrow>
          modP (upd_chan c (\<lambda>ch. ch\<lparr>ch_peer := address @ '':'' @ to_string port\<rparr>)))"

section \<open>The engine\<close>

definition remove_channel_ref :: "chan_ref \<Rightarrow> unit brokerP" where
  "remove_channel_ref c = modP (\<lambda>b. b\<lparr>b_channels := removeAll c (b_channels b)\<rparr>)"

text \<open>
  \<open>onClose\<close>. Publishing the will can close other channels (when a packet cannot be encoded),
  which calls \<open>onClose\<close> again; the first argument bounds the depth of that recursion.
\<close>

definition publish_will :: "Env \<Rightarrow> close_callback \<Rightarrow> ctx_ref \<Rightarrow> unit brokerP" where
  "publish_will env on_close x =
     bindP (getP (\<lambda>b. b_ctxs b x)) (\<lambda>ctx.
     let w = cc_will ctx;
         will = \<lparr>m_topic = w_topic w, m_payload = w_payload w, m_qos = w_qos w, m_retain = w_retain w,
                 m_source_client = cc_client_id ctx\<rparr>
     in whenP (cc_connected ctx \<and> \<not> cc_clean_disconnect ctx \<and> \<not> cc_taken_over ctx \<and> w_valid w)
          (seqP (whenP (w_retain w)
                   (bindP (liftP (\<lambda>b. retain_store (b_retains b) (w_topic w) will)) (\<lambda>st.
                    modP (\<lambda>b. b\<lparr>b_retains := st\<rparr>))))
                (route env on_close will)))"

fun onClose :: "nat \<Rightarrow> Env \<Rightarrow> close_callback" where
  "onClose 0 env c reason = undefP"
| "onClose (Suc n) env c reason =
     bindP (getP (byChannel c)) (\<lambda>it.
     case it of
       None \<Rightarrow> returnP ()
     | Some x \<Rightarrow>
         seqP (remove_channel_ref c)
         (seqP (publish_will env (onClose n env) x)
         (seqP (modP (\<lambda>b. b\<lparr>b_events := b_events b
                             @ hooks_onClientDisconnected (env_hooks env) (cc_client_id (b_ctxs b x))\<rparr>))
         (seqP (removeChannel c)
               (remove_channel_ref c)))))"

definition onPacket :: "ctx_ref \<Rightarrow> Packet \<Rightarrow> unit brokerP" where
  "onPacket x pkt =
     seqP (modP (\<lambda>b. b\<lparr>b_requests := b_requests b @ [(x, pkt)]\<rparr>))
          (whenP (pkt_type pkt = Disconnect)
             (modP (upd_ctx x (\<lambda>ctx. ctx\<lparr>cc_clean_disconnect := True\<rparr>))))"

text \<open>The callback \<open>on_packet\<close> that \<open>listen\<close> installs.\<close>

definition channel_on_packet :: "chan_ref \<Rightarrow> Packet \<Rightarrow> unit brokerP" where
  "channel_on_packet c pkt =
     bindP (getP (byChannel c)) (\<lambda>ctx. case ctx of Some x \<Rightarrow> onPacket x pkt | None \<Rightarrow> returnP ())"

definition listen :: "Env \<Rightarrow> unit brokerP" where
  "listen env =
     bindP (getP b_now) (\<lambda>now.
     case ChannelFactory_create (env_transport_type env) (env_max_receive_size env) now of
       None \<Rightarrow> undefP
     | Some ch \<Rightarrow>
         bindP (getP b_next_ref) (\<lambda>c.
         seqP (modP (\<lambda>b. b\<lparr>b_chans := (b_chans b)(c \<mapsto> ch), b_next_ref := Suc c, b_channels := b_channels b @ [c]\<rparr>))
         (bindP (addChannel c) (\<lambda>_. returnP ()))))"

definition engine_start :: "Env \<Rightarrow> unit brokerP" where
  "engine_start env =
     bindP (getP b_started) (\<lambda>started.
     if started then returnP ()
     else seqP (listen env) (modP (\<lambda>b. b\<lparr>b_started := True\<rparr>)))"

definition engine_stop :: "unit brokerP" where
  "engine_stop = bindP (getP b_started) (\<lambda>started. whenP started (modP (\<lambda>b. b\<lparr>b_started := False\<rparr>)))"

text \<open>The completion handler of \<open>async_accept\<close>.\<close>

definition on_accept :: "Env \<Rightarrow> bool \<Rightarrow> (string \<times> nat) option \<Rightarrow> chan_ref \<Rightarrow> unit brokerP" where
  "on_accept env ec endpoint c =
     catchP (if ec then engine_start env else seqP (channel_start endpoint c) (listen env))
       (\<lambda>_. returnP ())"

text \<open>
  The end of \<open>asyncReadPayload\<close>: the buffer is decoded, the packet is handed to the engine, the
  buffer is cleared; an exception closes the channel.
\<close>

definition receive_frame :: "Env \<Rightarrow> close_callback \<Rightarrow> chan_ref \<Rightarrow> unit brokerP" where
  "receive_frame env on_close c =
     bindP (getP (\<lambda>b. b_chans b c)) (\<lambda>och.
     case och of
       None \<Rightarrow> returnP ()
     | Some ch \<Rightarrow>
         catchP
           (bindP (liftP (\<lambda>_. decode (env_MaxPacketSize env) (ch_buffer ch))) (\<lambda>pack.
            seqP (case pack of
                    None \<Rightarrow> returnP ()
                  | Some pkt \<Rightarrow>
                      seqP (modP (\<lambda>b. upd_chan c (\<lambda>ch. ch\<lparr>ch_last_read := b_now b\<rparr>) b))
                           (channel_on_packet c pkt))
                 (modP (upd_chan c (\<lambda>ch. ch\<lparr>ch_buffer := []\<rparr>)))))
           (\<lambda>e. requestClose on_close c e))"

definition handleRequest :: "PacketDispatcher \<Rightarrow> Env \<Rightarrow> close_callback \<Rightarrow> unit brokerP" where
  "handleRequest handlers env on_close =
     bindP (getP b_requests) (\<lambda>requests.
     case requests of
       [] \<Rightarrow> returnP ()
     | (x, pkt) # rest \<Rightarrow>
         seqP (modP (\<lambda>b. b\<lparr>b_requests := rest\<rparr>))
         (catchP (dispatch handlers env on_close x pkt)
            (\<lambda>e. bindP (getP (lock_channel x)) (\<lambda>channel.
                 case channel of
                   None \<Rightarrow> returnP ()
                 | Some (c, ch) \<Rightarrow> requestClose on_close c e))))"

text \<open>
  The two tick tasks, each in the try block of \<open>TickService::doTick\<close>. \<open>snapshot\<close>, \<open>chan_order\<close> and
  \<open>pid_order\<close> are the iteration orders of \<open>channels_\<close>, \<open>by_channel_\<close> and the \<open>out_inflight\<close> maps.
\<close>

definition tick_keepalive :: "close_callback \<Rightarrow> chan_ref list \<Rightarrow> unit brokerP" where
  "tick_keepalive on_close snapshot =
     bindP (getP b_now) (\<lambda>now. catchP (checkKeepalive on_close now snapshot) (\<lambda>_. returnP ()))"

definition tick_retransmission :: "close_callback \<Rightarrow> chan_ref list \<Rightarrow> (ctx_ref \<Rightarrow> u16 list) \<Rightarrow> unit brokerP" where
  "tick_retransmission on_close chan_order pid_order =
     bindP (getP b_now) (\<lambda>now. catchP (checkRetransmission on_close now chan_order pid_order) (\<lambda>_. returnP ()))"

definition doTick ::
  "close_callback \<Rightarrow> chan_ref list \<Rightarrow> chan_ref list \<Rightarrow> (ctx_ref \<Rightarrow> u16 list) \<Rightarrow> unit brokerP" where
  "doTick on_close snapshot chan_order pid_order =
     seqP (tick_keepalive on_close snapshot) (tick_retransmission on_close chan_order pid_order)"

text \<open>The state of a freshly constructed engine.\<close>

definition broker_init :: "int \<Rightarrow> Broker" where
  "broker_init now =
     \<lparr>b_topics = empty_node, b_retains = retain_empty, b_outbox = [], b_sess = (\<lambda>_. None),
      b_ctxs = (\<lambda>_. no_context), b_chans = (\<lambda>_. None), b_sessions = [], b_by_channel = [],
      b_by_id = (\<lambda>_. None), b_channels = [], b_requests = [], b_received = 0, b_delivered = 0,
      b_auto_seq = 0, b_events = [], b_started = False, b_next_ref = 0, b_now = now\<rparr>"


section \<open>Executions\<close>

text \<open>
  \<open>handlePacket\<close>, the loop of the worker thread, for at most \<open>k\<close> turns.
\<close>

fun handlePacket :: "nat \<Rightarrow> PacketDispatcher \<Rightarrow> Env \<Rightarrow> close_callback \<Rightarrow> unit brokerP" where
  "handlePacket 0 handlers env on_close = returnP ()"
| "handlePacket (Suc k) handlers env on_close =
     bindP (getP b_started) (\<lambda>started.
     if started then seqP (handleRequest handlers env on_close) (handlePacket k handlers env on_close)
     else returnP ())"

text \<open>
  One step of the broker in its environment. Outside the worker: a connection is accepted, a
  read has filled a channel's buffer and it is decoded, the peer closes, the timer ticks, a
  socket write ends, time passes, or a channel that nothing owns is destroyed. The worker takes
  a request. \<open>n\<close> bounds the depth of nested closings.
\<close>

inductive io_step :: "Env \<Rightarrow> nat \<Rightarrow> Broker \<Rightarrow> Broker \<Rightarrow> bool" for env n where
  step_start: "engine_start env b = Ok () b' \<Longrightarrow> io_step env n b b'"
| step_accept: "on_accept env ec endpoint c b = Ok () b' \<Longrightarrow> io_step env n b b'"
| step_read: "b' = upd_chan c (\<lambda>ch. ch\<lparr>ch_buffer := bytes\<rparr>) b \<Longrightarrow> io_step env n b b'"
| step_frame: "receive_frame env (onClose n env) c b = Ok () b' \<Longrightarrow> io_step env n b b'"
| step_peer_close: "requestClose (onClose n env) c ''peer closed connection'' b = Ok () b' \<Longrightarrow> io_step env n b b'"
| step_tick: "mset snapshot = mset (b_channels b) \<Longrightarrow> tick_keepalive (onClose n env) snapshot b = Ok () b1 \<Longrightarrow>
    mset chan_order = mset (map fst (b_by_channel b1)) \<Longrightarrow>
    tick_retransmission (onClose n env) chan_order pid_order b1 = Ok () b' \<Longrightarrow> io_step env n b b'"
| step_written: "b' = upd_chan c (\<lambda>ch. ch\<lparr>ch_transport := transport_step (WriteDone error) (ch_transport ch)\<rparr>) b \<Longrightarrow>
    io_step env n b b'"
| step_time: "b_now b \<le> t \<Longrightarrow> io_step env n b (b\<lparr>b_now := t\<rparr>)"
| step_expire: "c \<notin> set (b_channels b) \<Longrightarrow> io_step env n b (b\<lparr>b_chans := (b_chans b)(c := None)\<rparr>)"
| step_stop: "engine_stop b = Ok () b' \<Longrightarrow> io_step env n b b'"

definition worker_step :: "Env \<Rightarrow> nat \<Rightarrow> Broker \<Rightarrow> Broker \<Rightarrow> bool" where
  "worker_step env n b b' \<longleftrightarrow> handleRequest (registerHandlers Map.empty) env (onClose n env) b = Ok () b'"

definition engine_step :: "Env \<Rightarrow> nat \<Rightarrow> Broker \<Rightarrow> Broker \<Rightarrow> bool" where
  "engine_step env n b b' \<longleftrightarrow> io_step env n b b' \<or> worker_step env n b b'"

inductive reachable :: "Env \<Rightarrow> nat \<Rightarrow> Broker \<Rightarrow> bool" for env n where
  reachable_init: "reachable env n (broker_init now)"
| reachable_step: "reachable env n b \<Longrightarrow> engine_step env n b b' \<Longrightarrow> reachable env n b'"

lemma doTick_Ok:
  "tick_keepalive on_close snapshot b = Ok () b1 \<Longrightarrow> tick_retransmission on_close chan_order pid_order b1 = Ok () b' \<Longrightarrow>
   doTick on_close snapshot chan_order pid_order b = Ok () b'"
  by (simp add: doTick_def seqP_apply)

inductive_cases io_stepE: "io_step env n b b'"

end
