(* ===== verification/Broker_Inv.thy ===== *)
theory Broker_Inv
  imports Engine
begin

text \<open>
  The invariant of the broker's state and the proof that the router and the session manager
  keep it. It says that the registries agree with each other: the session table owns exactly
  the live sessions, the topic tree holds exactly the subscriptions the sessions list, only
  live sessions have offline queues, and every stored message can be sent.
\<close>

section \<open>The invariant\<close>

definition small_msg :: "Message \<Rightarrow> bool" where
  "small_msg m \<longleftrightarrow> length (m_topic m) < 65536 \<and> length (m_payload m) < 2 ^ 28"

definition small_item :: "OutItem \<Rightarrow> bool" where
  "small_item i \<longleftrightarrow> length (oi_topic i) < 65536 \<and> length (oi_payload i) < 2 ^ 28"

fun small_body :: "PacketBody \<Rightarrow> bool" where
  "small_body (PublishBody pub) \<longleftrightarrow> length (pub_topic pub) < 65536 \<and> length (pub_payload pub) < 2 ^ 28"
| "small_body (ConnectBody cp) \<longleftrightarrow> length (cp_will_topic cp) < 65536 \<and> length (cp_will_payload cp) < 65536"
| "small_body _ \<longleftrightarrow> True"

definition ctx_ok :: "ClientContext \<Rightarrow> bool" where
  "ctx_ok ctx \<longleftrightarrow>
     length (w_topic (cc_will ctx)) < 65536 \<and> length (w_payload (cc_will ctx)) < 65536 \<and>
     (\<forall>pid m. cc_awaiting_pubrel ctx pid = Some m \<longrightarrow> small_msg m \<and> \<not> isTopicNameInvalid (m_topic m)) \<and>
     (\<forall>pid i. cc_out_inflight ctx pid = Some i \<longrightarrow> pid \<noteq> 0 \<and> small_item i \<and> oi_qos i \<noteq> AtMostOnce)"

definition retains_ok :: "RetainStore \<Rightarrow> bool" where
  "retains_ok r \<longleftrightarrow> retain_inv r \<and> (\<forall>m \<in> set (retain_all r). small_msg m)"

definition outbox_ok :: "Outbox \<Rightarrow> (session_ref \<Rightarrow> Session option) \<Rightarrow> bool" where
  "outbox_ok ob sess \<longleftrightarrow> outbox_inv ob \<and>
     (\<forall>s. \<forall>m \<in> set (outbox_queue ob s). small_msg (om_msg m) \<and> sess s \<noteq> None)"

definition sessions_ok :: "(string \<times> session_ref) list \<Rightarrow> (session_ref \<Rightarrow> Session option) \<Rightarrow> nat \<Rightarrow> bool" where
  "sessions_ok tab sess n \<longleftrightarrow>
     distinct (map fst tab) \<and>
     (\<forall>cid s. map_of tab cid = Some s \<longrightarrow> (\<exists>v. sess s = Some v \<and> s_client_id v = cid)) \<and>
     (\<forall>s v. sess s = Some v \<longrightarrow> map_of tab (s_client_id v) = Some s \<and> s < n)"

text \<open>The subscriptions a session lists, as a map.\<close>

definition listed :: "Session option \<Rightarrow> string \<Rightarrow> Qos option" where
  "listed os f = (case os of None \<Rightarrow> None
     | Some v \<Rightarrow> map_option sb_qos (find (\<lambda>sub. sb_filter sub = f) (s_subscriptions v)))"

definition subs_ok :: "Node \<Rightarrow> (session_ref \<Rightarrow> Session option) \<Rightarrow> bool" where
  "subs_ok topics sess \<longleftrightarrow> tree_inv topics \<and>
     (\<forall>s f. subscription topics s f = listed (sess s) f) \<and>
     (\<forall>s v. sess s = Some v \<longrightarrow> distinct (map sb_filter (s_subscriptions v)))"

text \<open>
  Every channel has a context of its own, made right after it; a context refers to no other
  channel, also when it is not registered any more.
\<close>

definition channels_ok :: "(chan_ref \<times> ctx_ref) list \<Rightarrow> (ctx_ref \<Rightarrow> ClientContext) \<Rightarrow> nat \<Rightarrow> bool" where
  "channels_ok tab ctxs n \<longleftrightarrow>
     distinct (map fst tab) \<and> (\<forall>(c, x) \<in> set tab. x = Suc c \<and> x < n) \<and>
     (\<forall>x c. cc_channel (ctxs x) = Some c \<longrightarrow> x = Suc c)"

definition broker_inv :: "Broker \<Rightarrow> bool" where
  "broker_inv b \<longleftrightarrow>
     subs_ok (b_topics b) (b_sess b) \<and>
     sessions_ok (b_sessions b) (b_sess b) (b_next_ref b) \<and>
     outbox_ok (b_outbox b) (b_sess b) \<and>
     retains_ok (b_retains b) \<and>
     (\<forall>x. ctx_ok (b_ctxs b x)) \<and>
     channels_ok (b_by_channel b) (b_ctxs b) (b_next_ref b) \<and>
     (\<forall>(x, pkt) \<in> set (b_requests b). Packet_ok pkt \<and> small_body (pkt_body pkt))"

lemma broker_inv_init: "broker_inv (broker_init now)"
proof -
  have "subs_ok empty_node (\<lambda>_. None)"
    by (simp add: subs_ok_def tree_inv_empty subscription_empty listed_def)
  moreover have "retains_ok retain_empty"
    using retain_inv_empty by (simp add: retains_ok_def retain_all_def) (simp add: retain_empty_def)
  ultimately show ?thesis
    by (simp add: broker_inv_def broker_init_def sessions_ok_def outbox_ok_def outbox_inv_empty
        outbox_queue_def ctx_ok_def channels_ok_def no_context_def new_context_def no_will_def)
qed

text \<open>Updates of fields the invariant does not mention, or mentions one object at a time.\<close>

lemma inv_upd_chan [simp]: "broker_inv (upd_chan c f b) = broker_inv b"
  by (simp add: broker_inv_def)

lemma inv_counters [simp]:
  "broker_inv (b\<lparr>b_delivered := v\<rparr>) = broker_inv b" "broker_inv (b\<lparr>b_received := v\<rparr>) = broker_inv b"
  "broker_inv (b\<lparr>b_auto_seq := v\<rparr>) = broker_inv b" "broker_inv (b\<lparr>b_events := evs\<rparr>) = broker_inv b"
  "broker_inv (b\<lparr>b_by_id := ids\<rparr>) = broker_inv b" "broker_inv (b\<lparr>b_channels := cs\<rparr>) = broker_inv b"
  "broker_inv (b\<lparr>b_started := st\<rparr>) = broker_inv b" "broker_inv (b\<lparr>b_now := t\<rparr>) = broker_inv b"
  "broker_inv (b\<lparr>b_chans := chs\<rparr>) = broker_inv b"
  by (simp_all add: broker_inv_def)

lemma channels_ok_ctx:
  "channels_ok tab ctxs n \<Longrightarrow> cc_channel ctx \<in> {None, cc_channel (ctxs x)} \<Longrightarrow> channels_ok tab (ctxs(x := ctx)) n"
  by (fastforce simp: channels_ok_def)

lemma inv_upd_ctx:
  assumes "broker_inv b" "ctx_ok (b_ctxs b x) \<Longrightarrow> ctx_ok (f (b_ctxs b x))"
    and "cc_channel (f (b_ctxs b x)) \<in> {None, cc_channel (b_ctxs b x)}"
  shows "broker_inv (upd_ctx x f b)"
  using assms channels_ok_ctx by (simp add: broker_inv_def)

lemma channels_ok_snd:
  assumes "channels_ok tab ctxs n"
  shows "distinct (map snd tab)"
proof -
  have "map snd tab = map Suc (map fst tab)" using assms by (auto simp: channels_ok_def)
  moreover have "distinct (map Suc (map fst tab))" using assms by (simp add: channels_ok_def distinct_map [of Suc] del: map_map)
  ultimately show ?thesis by (simp only:)
qed

lemma channels_ok_mono: "channels_ok tab ctxs n \<Longrightarrow> n \<le> m \<Longrightarrow> channels_ok tab ctxs m"
  by (fastforce simp: channels_ok_def)

lemma inv_ctx: "broker_inv b \<Longrightarrow> ctx_ok (b_ctxs b x)"
  by (simp add: broker_inv_def)

lemma inv_channel_ref: "broker_inv b \<Longrightarrow> cc_channel (b_ctxs b x) = Some c \<Longrightarrow> x = Suc c"
  by (simp add: broker_inv_def channels_ok_def)

lemma inv_own_channel:
  assumes "broker_inv b" "cc_channel (b_ctxs b x) = Some c" "byChannel c b = Some y"
  shows "y = x"
proof -
  have "(c, y) \<in> set (b_by_channel b)" using assms(3) by (auto simp: byChannel_def dest: map_of_SomeD)
  then have "y = Suc c" using assms(1) by (auto simp: broker_inv_def channels_ok_def)
  then show ?thesis using inv_channel_ref [OF assms(1,2)] by simp
qed

section \<open>Sending\<close>

definition sendable :: "Packet \<Rightarrow> bool" where
  "sendable pkt \<longleftrightarrow> (\<exists>bytes. encode pkt [] = Ret (True, bytes))"

lemma sendable_ack: "t \<in> {Puback, Pubrec, Pubrel, Pubcomp, Unsuback} \<Longrightarrow> sendable (ack_packet t i)"
  by (auto simp: sendable_def ack_packet_def encode_def serializePacket_def encoders_def serializePubAck_def
      serializePubRec_def serializePubRel_def serializePubComp_def serializeAckPacket_def serializeUnsubAck_def Let_def)

lemma sendable_connack: "sendable (connack_packet sp rc)"
  by (simp add: sendable_def connack_packet_def encode_def serializePacket_def encoders_def serializeConnack_def Let_def)

lemma sendable_suback: "sendable (suback_packet i gs)"
  by (simp add: sendable_def suback_packet_def encode_def serializePacket_def encoders_def serializeSubAck_def Let_def)

lemma sendable_pingresp: "sendable \<lparr>pkt_type = Pingresp, pkt_body = EmptyBody\<rparr>"
  by (simp add: sendable_def encode_def serializePacket_def encoders_def serializePingResp_def)

lemma sendable_publish:
  assumes "length (pub_topic pub) < 65536" "length (pub_payload pub) < 2 ^ 28"
  shows "sendable (publish_packet pub)"
proof -
  have "calcPublishRemainingLength pub = Ret (length (publish_body pub))"
    using assms by (auto simp: calcPublishRemainingLength_def publish_body_def to_int32_small)
  moreover have "length (publish_body pub) \<noteq> 0" by (simp add: publish_body_def)
  ultimately show ?thesis
    by (simp add: sendable_def publish_packet_def encode_def serializePacket_def encoders_def
        serializePublish_def Let_def)
qed

text \<open>A packet that can be encoded never closes the channel.\<close>

definition send_bytes :: "chan_ref \<Rightarrow> Packet \<Rightarrow> Broker \<Rightarrow> Broker" where
  "send_bytes c pkt b =
     (case encode pkt [] of
        Ret (True, bytes) \<Rightarrow> upd_chan c (\<lambda>ch. ch\<lparr>ch_transport := transport_asyncSend bytes (ch_transport ch)\<rparr>) b
      | _ \<Rightarrow> b)"

lemma channel_asyncSend_sendable:
  "sendable pkt \<Longrightarrow> channel_asyncSend on_close c pkt b =
     (if isClosing c b then Ok False b else Ok True (send_bytes c pkt b))"
  by (auto simp: sendable_def channel_asyncSend_def send_bytes_def transport_of_send_def prog_simps)

lemma send_bytes_frame [simp, frame_simps]:
  "b_topics (send_bytes c p b) = b_topics b" "b_retains (send_bytes c p b) = b_retains b"
  "b_outbox (send_bytes c p b) = b_outbox b" "b_sess (send_bytes c p b) = b_sess b"
  "b_ctxs (send_bytes c p b) = b_ctxs b" "b_sessions (send_bytes c p b) = b_sessions b"
  "b_by_channel (send_bytes c p b) = b_by_channel b" "b_by_id (send_bytes c p b) = b_by_id b"
  "b_channels (send_bytes c p b) = b_channels b" "b_requests (send_bytes c p b) = b_requests b"
  "b_now (send_bytes c p b) = b_now b" "b_next_ref (send_bytes c p b) = b_next_ref b"
  "b_delivered (send_bytes c p b) = b_delivered b" "b_events (send_bytes c p b) = b_events b"
  by (auto simp: send_bytes_def split: outcome.split prod.split bool.split)

lemma inv_send_bytes [simp]: "broker_inv (send_bytes c pkt b) = broker_inv b"
  by (auto simp: send_bytes_def split: outcome.split prod.split bool.split)

lemma wp_send [wp_simps]:
  "sendable pkt \<Longrightarrow> wp (channel_asyncSend on_close c pkt) Q E b =
     (if isClosing c b then Q False b else Q True (send_bytes c pkt b))"
  by (simp add: wp_def channel_asyncSend_sendable)


section \<open>Delivery and routing\<close>

lemma nextPacketId_pos: "fst (nextPacketId ctx) \<noteq> 0"
  by (simp add: nextPacketId_def Let_def)

lemma nextPacketId_ctx: "snd (nextPacketId ctx) = ctx\<lparr>cc_next_out_pid := fst (nextPacketId ctx)\<rparr>"
  by (simp add: nextPacketId_def Let_def)

lemma nextPacketId_channel [simp]: "cc_channel (snd (nextPacketId ctx)) = cc_channel ctx"
  by (simp add: nextPacketId_ctx)

lemma ctx_ok_next_pid [simp]: "ctx_ok (ctx\<lparr>cc_next_out_pid := n\<rparr>) = ctx_ok ctx"
  by (simp add: ctx_ok_def)

lemma ctx_ok_inflight:
  "ctx_ok ctx \<Longrightarrow> pid \<noteq> 0 \<Longrightarrow> small_item i \<Longrightarrow> oi_qos i \<noteq> AtMostOnce \<Longrightarrow>
   ctx_ok (ctx\<lparr>cc_out_inflight := (cc_out_inflight ctx)(pid \<mapsto> i)\<rparr>)"
  by (simp add: ctx_ok_def)

lemma ctx_ok_inflight_erase:
  "ctx_ok ctx \<Longrightarrow> ctx_ok (ctx\<lparr>cc_out_inflight := (cc_out_inflight ctx)(pid := None)\<rparr>)"
  by (simp add: ctx_ok_def)

text \<open>What sending to clients leaves alone: everything but contexts, channels, queues and counters.\<close>

definition same_registry :: "Broker \<Rightarrow> Broker \<Rightarrow> bool" where
  "same_registry b b' \<longleftrightarrow>
     b_topics b' = b_topics b \<and> b_retains b' = b_retains b \<and> b_sess b' = b_sess b \<and>
     b_sessions b' = b_sessions b \<and> b_by_channel b' = b_by_channel b \<and> b_by_id b' = b_by_id b \<and>
     b_channels b' = b_channels b \<and> b_requests b' = b_requests b \<and> b_events b' = b_events b \<and>
     b_next_ref b' = b_next_ref b \<and> b_now b' = b_now b"

lemma same_registry_refl [simp]: "same_registry b b"
  by (simp add: same_registry_def)

lemma same_registry_trans: "same_registry a b \<Longrightarrow> same_registry b c \<Longrightarrow> same_registry a c"
  by (simp add: same_registry_def)

lemma same_registry_simps [simp, frame_simps]:
  "same_registry b (upd_ctx x f b') = same_registry b b'" "same_registry b (send_bytes c p b') = same_registry b b'"
  "same_registry b (b'\<lparr>b_delivered := v\<rparr>) = same_registry b b'"
  "same_registry b (b'\<lparr>b_outbox := ob\<rparr>) = same_registry b b'"
  by (simp_all add: same_registry_def)

lemma wp_deliver_inv:
  assumes inv: "broker_inv b" and small: "small_msg msg"
  shows "wp (deliver on_close x msg q r d) (\<lambda>_ b'. broker_inv b' \<and> same_registry b b') never b"
proof (cases "lock_channel x b")
  case None
  then show ?thesis using inv by (simp add: deliver_def)
next
  case (Some cch)
  obtain c ch where cch: "cch = (c, ch)" by (cases cch)
  let ?q = "min_qos q (m_qos msg)"
  let ?pid = "fst (nextPacketId (b_ctxs b x))"
  have sendable: "sendable (publish_packet
      \<lparr>pub_topic = m_topic msg, pub_payload = m_payload msg, pub_qos = qq, pub_retain = r, pub_dup = d,
       pub_packet_id = i, pub_source_client = m_source_client msg\<rparr>)" for i qq
    using small by (intro sendable_publish) (simp_all add: small_msg_def)
  have new: "ctx_ok ((snd (nextPacketId (b_ctxs b x)))\<lparr>cc_out_inflight :=
      (cc_out_inflight (snd (nextPacketId (b_ctxs b x))))(?pid \<mapsto> i)\<rparr>)"
    if "small_item i" "oi_qos i \<noteq> AtMostOnce" for i
    using inv_ctx [OF inv, of x] that nextPacketId_pos
    by (intro ctx_ok_inflight) (simp_all add: nextPacketId_ctx)
  show ?thesis
    using Some cch inv small
    by (auto simp: deliver_def Let_def case_prod_unfold wp_send [OF sendable] small_msg_def small_item_def
        intro!: inv_upd_ctx new ctx_ok_inflight_erase)
qed

lemma in_set_tl: "y \<in> set (tl ys) \<Longrightarrow> y \<in> set ys"
  by (cases ys) simp_all

lemma outbox_queue_enqueue_set:
  "m \<in> set (outbox_queue (outbox_enqueue ob s msg q r) s') \<Longrightarrow>
   m \<in> set (outbox_queue ob s') \<or> (s' = s \<and> om_msg m = msg)"
  by (auto simp: queue_enqueue split: if_splits dest: in_set_tl)

lemma inv_enqueue:
  assumes "broker_inv b" "small_msg msg" "b_sess b s \<noteq> None"
  shows "broker_inv (b\<lparr>b_outbox := outbox_enqueue (b_outbox b) s msg q r\<rparr>)"
  using assms outbox_queue_enqueue_set [of _ "b_outbox b" s msg q r]
  by (fastforce simp: broker_inv_def outbox_ok_def outbox_inv_enqueue)

text \<open>The sessions that \<open>route\<close> has found are live while the message is handed out.\<close>

lemma best_maps_sessions:
  "snd (best_maps b msg) cid = Some (s, c) \<Longrightarrow> b_sess b s \<noteq> None"
proof -
  have "snd (fold (best_step (b_sess b) msg) ms acc) cid = Some (s, c) \<Longrightarrow>
      (\<forall>cid s c. snd acc cid = Some (s, c) \<longrightarrow> b_sess b s \<noteq> None) \<Longrightarrow> b_sess b s \<noteq> None" for ms acc
  proof (induction ms arbitrary: acc)
    case (Cons m ms)
    show ?case
      by (rule Cons.IH [OF Cons.prems(1) [simplified]])
         (use Cons.prems(2) in \<open>auto simp: best_step_def Let_def split: option.splits prod.splits if_splits\<close>)
  qed auto
  then show "snd (best_maps b msg) cid = Some (s, c) \<Longrightarrow> b_sess b s \<noteq> None"
    unfolding best_maps_def by (metis option.distinct(1) snd_conv)
qed


lemma wp_enqueue_offline:
  assumes "broker_inv b" "small_msg msg" "b_sess b (fst session) \<noteq> None"
  shows "wp (enqueue_offline session msg q) (\<lambda>_ b'. broker_inv b' \<and> same_registry b b') never b"
  using assms inv_enqueue [OF assms(1,2)] by (simp add: enqueue_offline_def)

lemma wp_route_one:
  assumes inv: "broker_inv b" and small: "small_msg msg"
    and live: "\<And>session. smap cid = Some session \<Longrightarrow> b_sess b (fst session) \<noteq> None"
  shows "wp (route_one on_close msg smap cid q) (\<lambda>_ b'. broker_inv b' \<and> same_registry b b') never b"
  using wp_deliver_inv [OF inv small] wp_enqueue_offline [OF inv small live] inv
  by (auto simp: route_one_def split: option.split)

lemma wp_route_inv:
  assumes inv: "broker_inv b" and small: "small_msg msg"
  shows "wp (route env on_close msg) (\<lambda>_ b'. broker_inv b' \<and> same_registry b b') never b"
proof -
  obtain best smap where maps: "best_maps b msg = (best, smap)" by (cases "best_maps b msg")
  have live: "b_sess b (fst session) \<noteq> None" if "smap cid = Some session" for cid session
    using best_maps_sessions [of b msg cid "fst session" "snd session"] maps that by simp
  have "wp (forP (env_order env (map fst best)) (\<lambda>cid. case map_of best cid of
          Some qos \<Rightarrow> route_one on_close msg smap cid qos | None \<Rightarrow> returnP ()))
      (\<lambda>_ b'. broker_inv b' \<and> same_registry b b') never b"
  proof (rule wp_forP [where I = "\<lambda>b'. broker_inv b' \<and> same_registry b b'"])
    fix cid b' assume b': "broker_inv b' \<and> same_registry b b'"
    then have "b_sess b' = b_sess b" by (simp add: same_registry_def)
    then have "wp (route_one on_close msg smap cid q) (\<lambda>_ b''. broker_inv b'' \<and> same_registry b b'') never b'" for q
      using b' live by (intro wp_mono [OF wp_route_one [OF _ small]]) (auto intro: same_registry_trans)
    then show "wp (case map_of best cid of Some qos \<Rightarrow> route_one on_close msg smap cid qos | None \<Rightarrow> returnP ())
        (\<lambda>_ b'. broker_inv b' \<and> same_registry b b') never b'"
      using b' by (simp split: option.split)
  qed (use inv in simp_all)
  then show ?thesis by (simp add: route_def maps)
qed

section \<open>Sessions\<close>

lemma listed_filter:
  "listed (Some (v\<lparr>s_subscriptions := filter (\<lambda>sub. sb_filter sub \<noteq> f) (s_subscriptions v)\<rparr>)) g =
     (if g = f then None else listed (Some v) g)"
proof -
  have "find (\<lambda>sub. sb_filter sub = g) (filter (\<lambda>sub. sb_filter sub \<noteq> f) ss) =
      (if g = f then None else find (\<lambda>sub. sb_filter sub = g) ss)" for ss :: "Subscription list"
    by (induction ss) auto
  then show ?thesis by (simp add: listed_def)
qed

lemma listed_update:
  "listed (Some (v\<lparr>s_subscriptions := update_subscription f q (s_subscriptions v)\<rparr>)) g =
     (if g = f then Some q else listed (Some v) g)"
proof -
  have "map_option sb_qos (find (\<lambda>sub. sb_filter sub = g) (update_subscription f q ss)) =
      (if g = f then Some q else map_option sb_qos (find (\<lambda>sub. sb_filter sub = g) ss))" for ss
    by (induction ss) auto
  then show ?thesis by (simp add: listed_def)
qed

lemma filters_update:
  "map sb_filter (update_subscription f q ss) =
     (if f \<in> sb_filter ` set ss then map sb_filter ss else map sb_filter ss @ [f])"
  by (induction ss) auto

lemma listed_None: "listed (Some v) f = None \<longleftrightarrow> f \<notin> sb_filter ` set (s_subscriptions v)"
  by (auto simp: listed_def find_None_iff)

lemma subs_ok_update:
  assumes "subs_ok topics sess" "sess s = Some v" "\<not> isTopicFilterInvalid f"
  shows "subs_ok (topic_add topics s f q)
           (sess(s \<mapsto> v\<lparr>s_subscriptions := update_subscription f q (s_subscriptions v)\<rparr>))"
proof -
  have "distinct (map sb_filter (update_subscription f q (s_subscriptions v)))"
    using assms by (auto simp: filters_update subs_ok_def)
  then show ?thesis
    using assms by (auto simp: subs_ok_def tree.invar_add tree.granted_add listed_update)
qed

lemma subs_ok_remove:
  assumes "subs_ok topics sess" "sess s = Some v"
  shows "subs_ok (topic_remove topics s f)
           (sess(s \<mapsto> v\<lparr>s_subscriptions := filter (\<lambda>sub. sb_filter sub \<noteq> f) (s_subscriptions v)\<rparr>))"
  using assms by (auto simp: subs_ok_def tree.invar_remove tree.granted_remove listed_filter distinct_map_filter)

lemma subs_ok_drop:
  assumes "subs_ok topics sess" "sess s = Some v"
  shows "subs_ok (foldl (\<lambda>t f. topic_remove t s f) topics (map sb_filter (s_subscriptions v))) (sess(s := None))"
proof -
  have "subscription topics s f = None" if "f \<notin> sb_filter ` set (s_subscriptions v)" for f
    using assms that by (simp add: subs_ok_def listed_None)
  then show ?thesis
    using assms by (auto simp: subs_ok_def tree.invar_remove_all tree.granted_remove_all listed_def)
qed

lemma subs_ok_new:
  assumes "subs_ok topics sess" "sess s = None" "s_subscriptions v = []"
  shows "subs_ok topics (sess(s \<mapsto> v))"
proof -
  have "subscription topics s f = None" for f
    using assms(1,2) by (simp add: subs_ok_def listed_def)
  then show ?thesis using assms by (auto simp: subs_ok_def listed_def)
qed


text \<open>
  \<open>dropSession\<close> as one update of the state, when the caller holds the pointer. Called on the
  entry of the table itself, it reads the pointer after it is destroyed.
\<close>

definition dropped :: "session_ref \<Rightarrow> Session \<Rightarrow> Broker \<Rightarrow> Broker" where
  "dropped s v b = b\<lparr>
     b_topics := foldl (\<lambda>t f. topic_remove t s f) (b_topics b) (map sb_filter (s_subscriptions v)),
     b_sess := (case map_of (b_sessions b) (s_client_id v) of Some e \<Rightarrow> (b_sess b)(e := None) | None \<Rightarrow> b_sess b),
     b_sessions := AList.delete (s_client_id v) (b_sessions b),
     b_outbox := outbox_clear (b_outbox b) s\<rparr>"

lemma dropSession_eq: "b_sess b s = Some v \<Longrightarrow> dropSession False s b = Ok () (dropped s v b)"
  and dropSession_entry: "b_sess b s = Some v \<Longrightarrow> map_of (b_sessions b) (s_client_id v) = Some s \<Longrightarrow>
    dropSession True s b = Undef"
proof -
  have loop: "forP subs (\<lambda>sub. modP (\<lambda>b. b\<lparr>b_topics := topic_remove (b_topics b) s (sb_filter sub)\<rparr>)) b =
      Ok () (b\<lparr>b_topics := foldl (\<lambda>t f. topic_remove t s f) (b_topics b) (map sb_filter subs)\<rparr>)"
    for subs :: "Subscription list" and b :: Broker
    by (induction subs arbitrary: b) simp_all
  show "b_sess b s = Some v \<Longrightarrow> dropSession False s b = Ok () (dropped s v b)"
    by (simp add: dropSession_def loop seqP_apply dropped_def split: option.split)
  show "b_sess b s = Some v \<Longrightarrow> map_of (b_sessions b) (s_client_id v) = Some s \<Longrightarrow> dropSession True s b = Undef"
    by (simp add: dropSession_def loop seqP_apply)
qed

lemma sessions_okD:
  assumes "sessions_ok tab sess n"
  shows "map_of tab cid = Some s \<Longrightarrow> \<exists>v. sess s = Some v \<and> s_client_id v = cid"
    and "sess s = Some v \<Longrightarrow> map_of tab (s_client_id v) = Some s"
    and "sess s = Some v \<Longrightarrow> s < n"
    and "sess n = None"
  using assms unfolding sessions_ok_def by (blast, blast, blast, meson less_irrefl not_Some_eq)

lemma inv_sessions: "broker_inv b \<Longrightarrow> sessions_ok (b_sessions b) (b_sess b) (b_next_ref b)"
  by (simp add: broker_inv_def)

lemma sessions_ok_delete:
  assumes ok: "sessions_ok tab sess n" and v: "sess s = Some v"
  shows "sessions_ok (AList.delete (s_client_id v) tab) (sess(s := None)) n"
  unfolding sessions_ok_def
proof (intro conjI allI impI)
  show "distinct (map fst (AList.delete (s_client_id v) tab))"
    using ok by (simp add: sessions_ok_def AList.delete_eq distinct_map_filter)
next
  fix cid s'
  assume "map_of (AList.delete (s_client_id v) tab) cid = Some s'"
  then have s': "map_of tab cid = Some s'" and "cid \<noteq> s_client_id v"
    by (auto simp: delete_conv' split: if_splits)
  obtain v' where "sess s' = Some v'" "s_client_id v' = cid"
    using sessions_okD(1) [OF ok s'] by blast
  with v \<open>cid \<noteq> s_client_id v\<close> show "\<exists>v'. (sess(s := None)) s' = Some v' \<and> s_client_id v' = cid" by auto
next
  fix s' v'
  assume a: "(sess(s := None)) s' = Some v'"
  then have s': "sess s' = Some v'" "s' \<noteq> s" by (auto split: if_splits)
  then have "s_client_id v' \<noteq> s_client_id v"
    using sessions_okD(2) [OF ok s'(1)] sessions_okD(2) [OF ok v] by auto
  then show "map_of (AList.delete (s_client_id v) tab) (s_client_id v') = Some s'" and "s' < n"
    using sessions_okD(2,3) [OF ok s'(1)] by (simp_all add: delete_conv')
qed

lemma sessions_ok_add:
  assumes "sessions_ok tab sess n" "map_of tab cid = None" "s_client_id v = cid"
  shows "sessions_ok ((cid, n) # tab) (sess(n \<mapsto> v)) (Suc n)"
proof -
  have "cid \<notin> fst ` set tab" using assms(2) by (simp add: map_of_eq_None_iff)
  then show ?thesis
    using assms unfolding sessions_ok_def by (fastforce split: if_splits)
qed

lemma inv_dropped:
  assumes inv: "broker_inv b" and v: "b_sess b s = Some v"
  shows "broker_inv (dropped s v b)" and "map_of (b_sessions (dropped s v b)) (s_client_id v) = None"
proof -
  have tab: "map_of (b_sessions b) (s_client_id v) = Some s"
    using inv v by (simp add: broker_inv_def sessions_ok_def)
  have "outbox_ok (outbox_clear (b_outbox b) s) ((b_sess b)(s := None))"
    using inv by (auto simp: broker_inv_def outbox_ok_def outbox_inv_clear queue_clear split: if_splits)
  then show "broker_inv (dropped s v b)"
    using inv v tab subs_ok_drop [of "b_topics b" "b_sess b" s v] sessions_ok_delete [of "b_sessions b" "b_sess b" _ s v]
    by (simp add: broker_inv_def dropped_def)
  show "map_of (b_sessions (dropped s v b)) (s_client_id v) = None"
    by (simp add: dropped_def delete_conv')
qed

lemma wp_dropSession_inv:
  "broker_inv b \<Longrightarrow> b_sess b s = Some v \<Longrightarrow>
   wp (dropSession False s) (\<lambda>_ b'. broker_inv b' \<and> map_of (b_sessions b') (s_client_id v) = None) never b"
  using dropSession_eq [of b s v] inv_dropped [of b s v] by (simp add: wp_def)

lemma wp_new_session_inv:
  assumes inv: "broker_inv b" and none: "map_of (b_sessions b) cid = None"
  shows "wp (new_session cid clean) (\<lambda>s b'. broker_inv b' \<and> b_sess b' s \<noteq> None) never b"
proof -
  let ?n = "b_next_ref b" and ?v = "\<lparr>s_client_id = cid, s_clean_session = clean, s_subscriptions = []\<rparr>"
  have fresh: "b_sess b ?n = None"
    by (rule sessions_okD(4) [OF inv_sessions [OF inv]])
  have "outbox_ok (b_outbox b) ((b_sess b)(?n \<mapsto> ?v))"
    using inv by (auto simp: broker_inv_def outbox_ok_def)
  moreover have "subs_ok (b_topics b) ((b_sess b)(?n \<mapsto> ?v))"
    using inv fresh by (intro subs_ok_new) (simp_all add: broker_inv_def)
  moreover have "sessions_ok ((cid, ?n) # b_sessions b) ((b_sess b)(?n \<mapsto> ?v)) (Suc ?n)"
    using inv none by (intro sessions_ok_add) (simp_all add: broker_inv_def)
  ultimately show ?thesis
    using inv none channels_ok_mono [of "b_by_channel b" "b_ctxs b" ?n "Suc ?n"] by (simp add: new_session_def broker_inv_def)
qed

text \<open>
  \<open>getSession\<close> drops the entry it found through a reference to it: it has no result for a clean
  session in the place of a stored one, and a live session in every other case.
\<close>

lemma getSession_replaces:
  assumes inv: "broker_inv b" and s: "map_of (b_sessions b) cid = Some s"
  shows "getSession cid True b = Undef"
proof -
  obtain v where "b_sess b s = Some v" "s_client_id v = cid"
    using sessions_okD(1) [OF inv_sessions [OF inv] s] by blast
  then have "dropSession True s b = Undef" using s dropSession_entry [of b s v] by simp
  then show ?thesis using s by (simp add: getSession_def seqP_apply)
qed

lemma wp_getSession_inv:
  assumes inv: "broker_inv b" and fresh: "clean \<longrightarrow> map_of (b_sessions b) cid = None"
  shows "wp (getSession cid clean) (\<lambda>s b'. broker_inv b' \<and> b_sess b' s \<noteq> None) never b"
proof (cases "map_of (b_sessions b) cid")
  case None
  then show ?thesis
    using wp_new_session_inv [OF inv None] inv by (auto simp: getSession_def)
next
  case (Some s)
  then obtain v where "b_sess b s = Some v" "s_client_id v = cid"
    using sessions_okD(1) [OF inv_sessions [OF inv]] by blast
  then show ?thesis using Some fresh inv by (simp add: getSession_def)
qed

lemma wlp_getSession_inv:
  assumes inv: "broker_inv b"
  shows "wlp (getSession cid clean) (\<lambda>s b'. broker_inv b' \<and> b_sess b' s \<noteq> None) E b"
proof (cases "clean \<longrightarrow> map_of (b_sessions b) cid = None")
  case True
  show ?thesis by (rule wp_imp_wlp [OF wp_getSession_inv [OF inv True]]) simp
next
  case False
  then have "getSession cid clean b = Undef" using getSession_replaces [OF inv] by auto
  then show ?thesis by (simp add: wlp_def)
qed

lemma ctx_ok_fields [simp]:
  "ctx_ok (ctx\<lparr>cc_session := os\<rparr>) = ctx_ok ctx" "ctx_ok (ctx\<lparr>cc_channel := oc\<rparr>) = ctx_ok ctx"
  "ctx_ok (ctx\<lparr>cc_client_id := cid\<rparr>) = ctx_ok ctx" "ctx_ok (ctx\<lparr>cc_connected := c\<rparr>) = ctx_ok ctx"
  "ctx_ok (ctx\<lparr>cc_clean_disconnect := c\<rparr>) = ctx_ok ctx" "ctx_ok (ctx\<lparr>cc_taken_over := c\<rparr>) = ctx_ok ctx"
  "ctx_ok (ctx\<lparr>cc_awaiting_puback := m\<rparr>) = ctx_ok ctx"
  by (simp_all add: ctx_ok_def)

lemma channels_ok_delete: "channels_ok tab ctxs n \<Longrightarrow> channels_ok (AList.delete c tab) ctxs n"
  by (auto simp: channels_ok_def AList.delete_eq distinct_map_filter)

lemma inv_by_channel_delete:
  "broker_inv b \<Longrightarrow> broker_inv (b\<lparr>b_by_channel := AList.delete c (b_by_channel b)\<rparr>)"
  by (simp add: broker_inv_def channels_ok_delete)

lemma inv_forget:
  "broker_inv b \<Longrightarrow> broker_inv (upd_ctx x (\<lambda>ctx. ctx\<lparr>cc_session := None\<rparr>) b
     \<lparr>b_by_channel := AList.delete c (b_by_channel b)\<rparr>)"
  by (simp add: broker_inv_def channels_ok_delete channels_ok_ctx)

lemma lock_session_live: "lock_session x b = Some (s, v) \<Longrightarrow> b_sess b s = Some v"
  by (auto simp: lock_session_def split: option.splits)

lemma wp_removeChannel_inv:
  assumes inv: "broker_inv b"
  shows "wp (removeChannel c) (\<lambda>_. broker_inv) never b"
proof (cases "byChannel c b")
  case None
  then show ?thesis using inv by (simp add: removeChannel_def)
next
  case (Some x)
  define b1 where "b1 = (let cid = cc_client_id (b_ctxs b x)
     in if cid \<noteq> [] \<and> b_by_id b cid = Some x then b\<lparr>b_by_id := (b_by_id b)(cid := None)\<rparr> else b)"
  have inv1: "broker_inv b1" using inv by (simp add: b1_def Let_def)
  show ?thesis
  proof (cases "lock_session x b1")
    case None
    then show ?thesis
      using Some inv_by_channel_delete [OF inv1] by (simp add: removeChannel_def b1_def [symmetric])
  next
    case (Some sv)
    obtain s v where sv: "sv = (s, v)" by (cases sv)
    have "wp (dropSession False s) (\<lambda>_ b'. broker_inv (upd_ctx x (\<lambda>ctx. ctx\<lparr>cc_session := None\<rparr>) b'
        \<lparr>b_by_channel := AList.delete c (b_by_channel b')\<rparr>)) never b1"
      using wp_dropSession_inv [OF inv1 lock_session_live] Some sv inv_forget by (blast intro: wp_mono)
    then show ?thesis
      using \<open>byChannel c b = Some x\<close> Some sv inv_by_channel_delete [OF inv1]
      by (simp add: removeChannel_def b1_def [symmetric] wp_whenP)
  qed
qed

end
