(* ===== verification/Broker_Proofs.thy ===== *)
theory Broker_Proofs
  imports Broker_Inv
begin

text \<open>
  The handlers and the engine keep the invariant, and only the CONNECT handler and the
  retransmission pass may have undefined behaviour. The interface between them is the callback \<open>on_close\<close>: the locale \<open>closing\<close> states what the channel
  and the handlers rely on, and it is interpreted with the engine's \<open>onClose\<close>.
\<close>

section \<open>Retained messages\<close>

lemma wp_store_inv:
  assumes "broker_inv b" "small_msg msg" "m_topic msg = t"
  shows "wp (bindP (liftP (\<lambda>b. retain_store (b_retains b) t msg)) (\<lambda>st. modP (\<lambda>b. b\<lparr>b_retains := st\<rparr>)))
           (\<lambda>_ b'. broker_inv b') never b"
proof -
  have inv: "retain_inv (b_retains b)" using assms(1) by (simp add: broker_inv_def retains_ok_def)
  obtain r' where r': "retain_store (b_retains b) t msg = Ret r'" "retain_inv r'"
    using retain.store_law [OF inv assms(3)] by blast
  have "set (retain_all r') = insert msg {m \<in> set (retain_all (b_retains b)). m_topic m \<noteq> t}"
    by (rule retain.all_of_store [OF inv assms(3) r'(1)])
  then have "retains_ok r'" using r'(2) assms(1,2) by (auto simp: retains_ok_def broker_inv_def)
  then show ?thesis using r'(1) assms(1) by (simp add: wp_liftP broker_inv_def)
qed

lemma wp_clear_inv:
  assumes "broker_inv b"
  shows "wp (bindP (liftP (\<lambda>b. retain_clear (b_retains b) t)) (\<lambda>st. modP (\<lambda>b. b\<lparr>b_retains := st\<rparr>)))
           (\<lambda>_ b'. broker_inv b') never b"
proof -
  have inv: "retain_inv (b_retains b)" using assms(1) by (simp add: broker_inv_def retains_ok_def)
  obtain r' where r': "retain_clear (b_retains b) t = Ret r'" "retain_inv r'"
      "retained r' = (retained (b_retains b))(t := None)"
    using retain.clear_law [OF inv] by blast
  have "m \<in> set (retain_all (b_retains b))" if "m \<in> set (retain_all r')" for m
  proof -
    have "retained r' (m_topic m) = Some m" using retain.all_law [OF r'(2)] that by blast
    then have "retained (b_retains b) (m_topic m) = Some m" using r'(3) by (simp split: if_splits)
    then show ?thesis using retain.all_law [OF inv] by blast
  qed
  then have "retains_ok r'" using r'(2) assms by (auto simp: retains_ok_def broker_inv_def)
  then show ?thesis using r'(1) assms by (simp add: wp_liftP broker_inv_def)
qed

section \<open>Decoded packets can be handled\<close>

lemma readString16_length: "readString16 buf i [] = Ret (s, j) \<Longrightarrow> length s < 65536"
  by (auto simp: readString16_def bind_out_eq_Ret split: if_splits)

lemma decodeRemainingLength_bound: "fst (decodeRemainingLength buf i) < 2 ^ 28"
proof -
  obtain len' index' where "decode_length_loop 4 buf i 0 (128 ^ 0) = (len', index')"
    by (cases "decode_length_loop 4 buf i 0 (128 ^ 0)")
  then show ?thesis
    using decode_length_loop_bound [of 4 buf i 0 0 len' index']
    by (simp add: decodeRemainingLength_def MAX_REMAINING_SIZE_def)
qed

lemma deserializeConnect_small: "deserializeConnect buf = Ret (Some p) \<Longrightarrow> small_body (pkt_body p)"
  unfolding deserializeConnect_def Let_def case_prod_unfold outcome_inversion
  by (elim exE conjE, drule sym, drule sym)
     (auto dest: readString16_length simp: outcome_inversion split: if_splits)

lemma deserializePublish_small: "deserializePublish buf = Ret (Some p) \<Longrightarrow> small_body (pkt_body p)"
  unfolding deserializePublish_def Let_def case_prod_unfold outcome_inversion
  using decodeRemainingLength_bound
  by clarsimp (meson decodeRemainingLength_bound diff_le_self le_less_trans min.cobounded2 readString16_length)

lemma deserialize_other_small:
  "deserializeSubscribe buf = Ret (Some p) \<or> deserializeUnsubscribe buf = Ret (Some p) \<Longrightarrow> small_body (pkt_body p)"
  "deserializeAckPacket buf = Ret (Some p) \<or> deserializeEmptyPacket buf = Ret (Some p) \<Longrightarrow> small_body (pkt_body p)"
  unfolding deserializeSubscribe_def deserializeUnsubscribe_def deserializeAckPacket_def
    deserializeEmptyPacket_def Let_def case_prod_unfold outcome_inversion
  by (auto simp: outcome_inversion split: option.splits)

text \<open>Every packet the decoder returns is well formed and small enough to be sent on.\<close>

lemma decoded_packet:
  assumes "decode MaxPacketSize buf = Ret (Some p)"
  shows "Packet_ok p \<and> small_body (pkt_body p)"
  using decode_ok [OF assms] decode_cases [OF assms] deserializeConnect_small deserializePublish_small
    deserialize_other_small by blast

section \<open>What is assumed of plugins\<close>

text \<open>
  A plugin may inspect a message, throw, discard it and change its payload and flags, but not
  the topic under which it was published; and it has no undefined behaviour of its own.
\<close>

definition hooks_keep_topic :: "HookRegistry \<Rightarrow> bool" where
  "hooks_keep_topic hooks \<longleftrightarrow>
     (\<forall>events pub client_id.
        case hooks_onMessageIn hooks events pub client_id of
          Ret (ok, pub') \<Rightarrow> pub_topic pub' = pub_topic pub | Throw e \<Rightarrow> True | UB \<Rightarrow> False)"

section \<open>Closing a channel\<close>

lemma wp_publish_will_inv:
  assumes inv: "broker_inv b"
  shows "wp (publish_will env on_close x) (\<lambda>_. broker_inv) never b"
proof -
  define ctx where "ctx = b_ctxs b x"
  define will where "will = \<lparr>m_topic = w_topic (cc_will ctx), m_payload = w_payload (cc_will ctx),
    m_qos = w_qos (cc_will ctx), m_retain = w_retain (cc_will ctx), m_source_client = cc_client_id ctx\<rparr>"
  have small: "small_msg will"
    using inv_ctx [OF inv, of x] by (simp add: small_msg_def ctx_ok_def will_def ctx_def)
  have route: "wp (route env on_close will) (\<lambda>_. broker_inv) never b'" if "broker_inv b'" for b'
    using wp_route_inv [OF that small] by (rule wp_mono) simp_all
  have topic: "m_topic will = w_topic (cc_will ctx)" by (simp add: will_def)
  have "wp (bindP (liftP (\<lambda>b. retain_store (b_retains b) (w_topic (cc_will ctx)) will))
      (\<lambda>st. modP (\<lambda>b. b\<lparr>b_retains := st\<rparr>))) (\<lambda>_. wp (route env on_close will) (\<lambda>_. broker_inv) never) never b"
    using wp_store_inv [OF inv small topic] by (rule wp_mono) (simp_all add: route)
  then show ?thesis
    unfolding publish_will_def using route [OF inv] inv
    by (simp add: Let_def wp_whenP flip: ctx_def will_def)
qed

lemma wp_onClose_inv:
  assumes inv: "broker_inv b"
  shows "wp (onClose (Suc n) env c reason) (\<lambda>_. broker_inv) never b"
proof (cases "byChannel c b")
  case None
  then show ?thesis using inv by simp
next
  case (Some x)
  have "wp (publish_will env (onClose n env) x)
      (\<lambda>_ b'. wp (removeChannel c) (\<lambda>_ b'. broker_inv (b'\<lparr>b_channels := removeAll c (b_channels b')\<rparr>)) never
        (b'\<lparr>b_events := b_events b' @ hooks_onClientDisconnected (env_hooks env) (cc_client_id (b_ctxs b' x))\<rparr>)) never
      (b\<lparr>b_channels := removeAll c (b_channels b)\<rparr>)"
    using wp_publish_will_inv [of "b\<lparr>b_channels := removeAll c (b_channels b)\<rparr>"] inv
    by (intro wp_mono [OF wp_publish_will_inv]) (simp_all add: wp_removeChannel_inv)
  then show ?thesis using Some by (simp add: remove_channel_ref_def)
qed

lemma sessions_ok_cong:
  assumes "sess s = Some v" "s_client_id v' = s_client_id v"
  shows "sessions_ok tab (sess(s \<mapsto> v')) n = sessions_ok tab sess n"
proof -
  have dom: "(\<exists>w. (sess(s \<mapsto> v')) s' = Some w \<and> s_client_id w = cid) \<longleftrightarrow> (\<exists>w. sess s' = Some w \<and> s_client_id w = cid)" for s' cid
    using assms by auto
  have ids: "(\<forall>s' w. (sess(s \<mapsto> v')) s' = Some w \<longrightarrow> P (s_client_id w) s') \<longleftrightarrow>
      (\<forall>s' w. sess s' = Some w \<longrightarrow> P (s_client_id w) s')" for P
    using assms by auto
  show ?thesis
    unfolding sessions_ok_def dom ids [of "\<lambda>cid s'. map_of tab cid = Some s' \<and> s' < n"] by (rule refl)
qed

lemma onPacket_inv:
  assumes "broker_inv b" "Packet_ok pkt" "small_body (pkt_body pkt)"
  shows "wp (onPacket x pkt) (\<lambda>_. broker_inv) never b"
proof -
  have "broker_inv (b\<lparr>b_requests := b_requests b @ [(x, pkt)]\<rparr>)"
    using assms unfolding broker_inv_def by auto
  then show ?thesis by (auto simp: onPacket_def wp_whenP intro: inv_upd_ctx)
qed

lemma inv_subscribe:
  assumes inv: "broker_inv b" and v: "b_sess b s = Some v" and f: "\<not> isTopicFilterInvalid f"
  shows "broker_inv (upd_sess s (\<lambda>v. v\<lparr>s_subscriptions := update_subscription f q (s_subscriptions v)\<rparr>)
           (b\<lparr>b_topics := topic_add (b_topics b) s f q\<rparr>))"
  using inv v subs_ok_update [of "b_topics b" "b_sess b" s v f q] f
    sessions_ok_cong [of "b_sess b" s v "v\<lparr>s_subscriptions := update_subscription f q (s_subscriptions v)\<rparr>"]
  by (auto simp: broker_inv_def outbox_ok_def)

lemma inv_unsubscribe:
  assumes inv: "broker_inv b" and v: "b_sess b s = Some v"
  shows "broker_inv (upd_sess s (\<lambda>v. v\<lparr>s_subscriptions := filter (\<lambda>sub. sb_filter sub \<noteq> f) (s_subscriptions v)\<rparr>)
           (b\<lparr>b_topics := topic_remove (b_topics b) s f\<rparr>))"
  using inv v subs_ok_remove [of "b_topics b" "b_sess b" s v f]
    sessions_ok_cong [of "b_sess b" s v "v\<lparr>s_subscriptions := filter (\<lambda>sub. sb_filter sub \<noteq> f) (s_subscriptions v)\<rparr>"]
  by (auto simp: broker_inv_def outbox_ok_def)

locale closing =
  fixes on_close :: close_callback
  assumes on_close_inv: "broker_inv b \<Longrightarrow> wp (on_close c reason) (\<lambda>_. broker_inv) never b"
begin

lemma requestClose_inv: "broker_inv b \<Longrightarrow> wp (requestClose on_close c reason) (\<lambda>_. broker_inv) never b"
  using on_close_inv [of b c reason] by (simp add: requestClose_def channel_close_def)

lemma channel_tick_inv: "broker_inv b \<Longrightarrow> wp (channel_tick on_close now c) (\<lambda>_. broker_inv) never b"
  using requestClose_inv by (simp add: channel_tick_def Let_def split: option.split)

lemma checkKeepalive_inv:
  "broker_inv b \<Longrightarrow> wp (checkKeepalive on_close now cs) (\<lambda>_. broker_inv) never b"
  unfolding checkKeepalive_def by (rule wp_forP [where I = broker_inv]) (simp_all add: channel_tick_inv)

lemma connAck_inv:
  assumes "broker_inv b" "t \<in> {Puback, Pubrec, Pubrel, Pubcomp, Unsuback}"
  shows "wp (connAck on_close x t i) (\<lambda>_. broker_inv) never b"
  using assms by (auto simp: connAck_def wp_send [OF sendable_ack] split: option.split)

lemma send_reply_inv: "broker_inv b \<Longrightarrow> sendable p \<Longrightarrow> wp (send_reply on_close x p) (\<lambda>_. broker_inv) never b"
  by (auto simp: send_reply_def wp_send split: option.split)

lemma connect_reject_inv: "broker_inv b \<Longrightarrow> wp (connect_reject on_close x rc) (\<lambda>_. broker_inv) never b"
  by (auto simp: connect_reject_def wp_send [OF sendable_connack] requestClose_inv split: option.split)

lemma connect_client_id_inv: "broker_inv b \<Longrightarrow> wp (connect_client_id cp) (\<lambda>_. broker_inv) never b"
  by (simp add: connect_client_id_def nextAutoSeq_def)

lemma connect_takeover_inv:
  assumes "broker_inv b"
  shows "wp (connect_takeover on_close x cid) (\<lambda>_. broker_inv) never b"
proof -
  have close: "wp (requestClose on_close c r)
      (\<lambda>_ b'. broker_inv (upd_ctx y (\<lambda>ctx. ctx\<lparr>cc_channel := None\<rparr>) b')) never b'" if "broker_inv b'" for b' y c r
    using requestClose_inv [OF that] by (rule wp_mono) (simp_all add: inv_upd_ctx)
  have taken: "broker_inv (upd_ctx y (\<lambda>ctx. ctx\<lparr>cc_taken_over := True, cc_session := None\<rparr>) b)" for y
    using assms by (intro inv_upd_ctx) simp_all
  then have "broker_inv (upd_ctx y (\<lambda>ctx. ctx\<lparr>cc_channel := None\<rparr>)
      (upd_ctx y (\<lambda>ctx. ctx\<lparr>cc_taken_over := True, cc_session := None\<rparr>) b))" for y
    by (rule inv_upd_ctx) simp_all
  then show ?thesis
    using assms taken by (auto simp: connect_takeover_def close split: option.split)
qed

lemma drain_inv:
  assumes inv: "broker_inv b"
  shows "wp (outbox_drain b_outbox b_outbox_update (\<lambda>m q r. deliver on_close x m q r True) s)
           (\<lambda>_. broker_inv) never b"
proof (cases "map_of (b_outbox b) s")
  case None
  then show ?thesis using inv by (simp add: outbox_drain_def)
next
  case (Some q)
  have small: "small_msg (om_msg m)" if "m \<in> set q" for m
    using inv that Some by (auto simp: broker_inv_def outbox_ok_def outbox_queue_def dest: spec [of _ s])
  have clear: "broker_inv (b_outbox_update (AList.delete s) b')" if "broker_inv b'" for b'
    using that outbox_inv_clear [of "b_outbox b'" s] queue_clear [of "b_outbox b'" s]
    by (auto simp: broker_inv_def outbox_ok_def outbox_clear_def split: if_splits)
  have "wp (forP q (\<lambda>m. deliver on_close x (om_msg m) (om_granted_qos m) (om_retained m) True))
      (\<lambda>_ b'. broker_inv (b_outbox_update (AList.delete s) b')) never b"
  proof (rule wp_forP [where I = broker_inv])
    fix m b' assume "m \<in> set q" "broker_inv b'"
    then show "wp (deliver on_close x (om_msg m) (om_granted_qos m) (om_retained m) True) (\<lambda>_. broker_inv) never b'"
      using small by (intro wp_mono [OF wp_deliver_inv]) simp_all
  qed (use inv clear in simp_all)
  then show ?thesis using Some by (simp add: outbox_drain_def)
qed

lemma connect_finish_inv:
  assumes inv: "broker_inv b"
  shows "wp (connect_finish env on_close x cp cid existed) (\<lambda>_. broker_inv) (\<lambda>_. broker_inv) b"
proof (cases "lock_channel x b")
  case None
  then show ?thesis using inv by (simp add: connect_finish_def)
next
  case (Some cch)
  obtain c ch where cch: "cch = (c, ch)" by (cases cch)
  have drain: "wp (outbox_drain b_outbox b_outbox_update (\<lambda>m q r. deliver on_close x m q r True) s)
      (\<lambda>_ b. broker_inv (b\<lparr>b_events := b_events b @ evs\<rparr>)) (\<lambda>_. broker_inv) b'" if "broker_inv b'" for b' evs s
    using drain_inv [OF that] by (rule wp_mono) simp_all
  have rest: "wp (bindP (getP (lock_session x)) (\<lambda>session.
           case session of
             None \<Rightarrow> returnP ()
           | Some (s, v) \<Rightarrow>
               bindP (outbox_drain b_outbox b_outbox_update
                        (\<lambda>msg qos retained. deliver on_close x msg qos retained True) s) (\<lambda>_. returnP ())))
         (\<lambda>_ b. broker_inv (b\<lparr>b_events := b_events b @ evs\<rparr>)) (\<lambda>_. broker_inv) b'" if "broker_inv b'" for b' evs
    using that drain [OF that] by (auto split: option.split)
  show ?thesis
    using Some cch inv rest
    by (simp add: connect_finish_def wp_whenP channel_setKeepalive_def bindId_def wp_send [OF sendable_connack])
qed

text \<open>
  CONNECT keeps the invariant whenever it has a result; \<open>getSession\<close> has none for a clean session in
  the place of a stored one.
\<close>

lemma connect_accept_inv:
  assumes inv: "broker_inv b" and small: "length (cp_will_topic cp) < 65536" "length (cp_will_payload cp) < 65536"
  shows "wlp (connect_accept env on_close x cp cid) (\<lambda>_. broker_inv) (\<lambda>_. broker_inv) b"
proof -
  have bind: "broker_inv (bind_client x cp cid s b')" if "broker_inv b'" for s b'
    using that small unfolding bind_client_def by (intro inv_upd_ctx) (simp_all add: ctx_ok_def)
  have finish: "wlp (connect_finish env on_close x cp cid existed) (\<lambda>_. broker_inv) (\<lambda>_. broker_inv) b'" if "broker_inv b'" for b' existed
    using connect_finish_inv [OF that] by (rule wp_imp_wlp)
  have "wlp (getSession cid clean) (\<lambda>s b'. wlp (connect_finish env on_close x cp cid existed) (\<lambda>_. broker_inv)
      (\<lambda>_. broker_inv) (bind_client x cp cid s b')) (\<lambda>_. broker_inv) b'" if "broker_inv b'" for b' clean existed
    using wlp_getSession_inv [OF that] by (rule wlp_mono) (simp_all add: finish bind)
  then show ?thesis
    unfolding connect_accept_def by (simp, intro wlp_mono [OF wp_imp_wlp [OF connect_takeover_inv [OF inv]]]) simp_all
qed

lemma ConnectHandler_inv:
  assumes inv: "broker_inv b" and small: "small_body (pkt_body pkt)"
  shows "wlp (ConnectHandler env on_close x pkt) (\<lambda>_. broker_inv) (\<lambda>_. broker_inv) b"
proof (cases "pkt_body pkt")
  case (ConnectBody cp)
  have reject: "wlp (connect_reject on_close x rc) (\<lambda>_. broker_inv) (\<lambda>_. broker_inv) b'" if "broker_inv b'" for b' rc
    using connect_reject_inv [OF that] by (rule wp_imp_wlp) simp
  have "wlp (connect_client_id cp) (\<lambda>ocid. wlp
          (case ocid of
             None \<Rightarrow> connect_reject on_close x id_rejected
           | Some cid \<Rightarrow>
               if \<not> authenticate (env_security env) cid (cp_username cp) (cp_password cp)
               then connect_reject on_close x bad_username_password
               else if \<not> canConnect (env_security env) cid then connect_reject on_close x not_authorized
               else connect_accept env on_close x cp cid) (\<lambda>_. broker_inv) (\<lambda>_. broker_inv)) (\<lambda>_. broker_inv) b"
    using wp_imp_wlp [OF connect_client_id_inv [OF inv]] by (rule wlp_mono)
      (use small ConnectBody in \<open>auto simp: reject connect_accept_inv split: option.split\<close>)
  then show ?thesis
    using ConnectBody inv reject [OF inv] by (auto simp: ConnectHandler_def)
qed (use inv in \<open>simp_all add: ConnectHandler_def\<close>)

lemma publish_ack_inv: "broker_inv b \<Longrightarrow> wp (publish_ack on_close x pub) (\<lambda>_. broker_inv) (\<lambda>_. broker_inv) b"
  by (simp add: publish_ack_def) (auto intro!: wp_mono [OF connAck_inv])

lemma publish_filtered_inv:
  assumes inv: "broker_inv b" and small: "small_msg msg" and topic: "m_topic msg = pub_topic pub"
  shows "wp (publish_filtered env on_close x msg ok pub) (\<lambda>_. broker_inv) (\<lambda>_. broker_inv) b"
proof -
  have ack: "wp (publish_ack on_close x pub) (\<lambda>_. broker_inv) (\<lambda>_. broker_inv) b'" if "broker_inv b'" for b'
    using that by (rule publish_ack_inv)
  have routed: "wp (whenP c (route env on_close msg))
      (\<lambda>_. wp (publish_ack on_close x pub) (\<lambda>_. broker_inv) (\<lambda>_. broker_inv)) (\<lambda>_. broker_inv) b'" if "broker_inv b'" for b' c
    using wp_mono [OF wp_route_inv [OF that small]] that ack by (auto simp: wp_whenP)
  have cleared: "wp (bindP (liftP (\<lambda>b. retain_clear (b_retains b) (pub_topic pub))) (\<lambda>st. modP (\<lambda>b. b\<lparr>b_retains := st\<rparr>)))
      (\<lambda>_. wp (publish_ack on_close x pub) (\<lambda>_. broker_inv) (\<lambda>_. broker_inv)) (\<lambda>_. broker_inv) b"
    using wp_clear_inv [OF inv] by (rule wp_mono) (simp_all add: ack)
  have stored: "wp (bindP (liftP (\<lambda>b. retain_store (b_retains b) (pub_topic pub) msg)) (\<lambda>st. modP (\<lambda>b. b\<lparr>b_retains := st\<rparr>)))
      (\<lambda>_. wp (whenP c (route env on_close msg))
        (\<lambda>_. wp (publish_ack on_close x pub) (\<lambda>_. broker_inv) (\<lambda>_. broker_inv)) (\<lambda>_. broker_inv)) (\<lambda>_. broker_inv) b" for c
    using wp_store_inv [OF inv small topic] by (rule wp_mono) (simp_all add: routed)
  show ?thesis
    unfolding publish_filtered_def
    using inv cleared stored routed [OF inv]
    by (simp add: wp_whenP [of "pub_retain pub"] del: wp_bindP)
qed

lemma publish_accept_inv:
  assumes inv: "broker_inv b" and small: "small_msg msg" and topic: "m_topic msg = pub_topic pub"
    and hooks: "hooks_keep_topic (env_hooks env)"
  shows "wp (publish_accept env on_close x pub msg) (\<lambda>_. broker_inv) (\<lambda>_. broker_inv) b"
proof -
  define cid where "cid = cc_client_id (b_ctxs b x)"
  define b0 where "b0 = b\<lparr>b_events := b_events b @ [MessageIn pub cid]\<rparr>"
  have inv0: "broker_inv b0" using inv by (simp add: b0_def)
  have filtered: "wp (publish_filtered env on_close x msg ok pub') (\<lambda>_. broker_inv) (\<lambda>_. broker_inv) b0"
    if "pub_topic pub' = pub_topic pub" for ok pub'
    using publish_filtered_inv [OF inv0 small] topic that by simp
  show ?thesis
    using hooks [unfolded hooks_keep_topic_def, rule_format, where events = "b_events b" and pub = pub and client_id = cid] filtered inv0
    by (simp add: publish_accept_def wp_liftP flip: cid_def b0_def split: outcome.splits prod.splits)
qed

lemma PublishHandler_inv:
  assumes inv: "broker_inv b" and small: "small_body (pkt_body pkt)" and hooks: "hooks_keep_topic (env_hooks env)"
  shows "wp (PublishHandler env on_close x pkt) (\<lambda>_. broker_inv) (\<lambda>_. broker_inv) b"
proof (cases "pkt_body pkt")
  case (PublishBody pub)
  define cid where "cid = cc_client_id (b_ctxs b x)"
  define msg where "msg = publish_message (pub\<lparr>pub_source_client := cid\<rparr>) cid"
  define b1 where "b1 = b\<lparr>b_received := b_received b + 1\<rparr>"
  have inv1: "broker_inv b1" using inv by (simp add: b1_def)
  have sm: "small_msg msg" using small PublishBody by (simp add: small_msg_def msg_def publish_message_def)
  have accept: "wp (publish_accept env on_close x (pub\<lparr>pub_source_client := cid\<rparr>) msg) (\<lambda>_. broker_inv) (\<lambda>_. broker_inv) b'"
    if "broker_inv b'" for b'
    using that sm hooks by (intro publish_accept_inv) (simp_all add: msg_def publish_message_def)
  have ack: "wp (connAck on_close x t i) (\<lambda>_. broker_inv) (\<lambda>_. broker_inv) b1" if "t \<in> {Puback, Pubrec}" for t i
    using connAck_inv [OF inv1] that by (auto intro: wp_mono)
  have "broker_inv (upd_ctx x (\<lambda>ctx. ctx\<lparr>cc_awaiting_puback := (cc_awaiting_puback ctx)(i \<mapsto> t)\<rparr>) b1)" for i t
    using inv1 by (intro inv_upd_ctx) simp_all
  moreover have "broker_inv (upd_ctx x (\<lambda>ctx. ctx\<lparr>cc_awaiting_pubrel := (cc_awaiting_pubrel ctx)(i \<mapsto> msg)\<rparr>) b1)"
    if "\<not> isTopicNameInvalid (pub_topic pub)" for i
    using inv1 sm that by (intro inv_upd_ctx) (simp_all add: ctx_ok_def msg_def publish_message_def)
  ultimately show ?thesis
    using PublishBody inv accept accept [OF inv1] ack
    by (simp add: PublishHandler_def Let_def flip: b1_def cid_def msg_def)
qed (use inv in \<open>simp_all add: PublishHandler_def\<close>)

lemma subscribe_entry_inv:
  assumes inv: "broker_inv b"
  shows "wp (subscribe_entry env on_close x e) (\<lambda>_. broker_inv) (\<lambda>_. broker_inv) b"
proof (cases "isTopicFilterInvalid (se_filter e) \<or> \<not> canSubscribe (env_security env) (cc_client_id (b_ctxs b x)) (se_filter e)
    \<or> lock_session x b = None")
  case True
  then show ?thesis using inv by (auto simp: subscribe_entry_def)
next
  case False
  then obtain s v where sv: "lock_session x b = Some (s, v)" by auto
  define b1 where "b1 = upd_sess s (\<lambda>v. v\<lparr>s_subscriptions := update_subscription (se_filter e) (se_qos e) (s_subscriptions v)\<rparr>)
      (b\<lparr>b_topics := topic_add (b_topics b) s (se_filter e) (se_qos e)\<rparr>)"
  have inv1: "broker_inv b1"
    unfolding b1_def using inv_subscribe [OF inv lock_session_live [OF sv]] False by blast
  have "wp (forP (retain_all (b_retains b1)) (\<lambda>m. whenP (isTopicMatchesFilter (se_filter e) (m_topic m))
      (deliver on_close x m (se_qos e) True False))) (\<lambda>_. broker_inv) (\<lambda>_. broker_inv) b1"
  proof (rule wp_forP [where I = broker_inv])
    fix m b' assume m: "m \<in> set (retain_all (b_retains b1))" and b': "broker_inv b'"
    have "small_msg m" using inv1 m by (simp add: broker_inv_def retains_ok_def)
    then show "wp (whenP (isTopicMatchesFilter (se_filter e) (m_topic m)) (deliver on_close x m (se_qos e) True False))
        (\<lambda>_. broker_inv) (\<lambda>_. broker_inv) b'"
      using wp_mono [OF wp_deliver_inv [OF b']] b' by (simp add: wp_whenP)
  qed (use inv1 in simp_all)
  moreover have "b_retains b1 = b_retains b" by (simp add: b1_def)
  ultimately show ?thesis using False sv by (simp add: subscribe_entry_def flip: b1_def)
qed

lemma subscribe_loop_inv:
  "broker_inv b \<Longrightarrow> wp (subscribe_loop env on_close x es granted) (\<lambda>_. broker_inv) (\<lambda>_. broker_inv) b"
proof (induction es arbitrary: b granted)
  case (Cons e es)
  show ?case
    using subscribe_entry_inv [OF Cons.prems, of env x e] by simp (erule wp_mono; simp add: Cons.IH)
qed simp

lemma SubscribeHandler_inv:
  assumes inv: "broker_inv b"
  shows "wp (SubscribeHandler env on_close x pkt) (\<lambda>_. broker_inv) (\<lambda>_. broker_inv) b"
proof (cases "pkt_body pkt")
  case (SubscribeBody sub)
  have reply: "wp (send_reply on_close x (suback_packet i gs)) (\<lambda>_. broker_inv) (\<lambda>_. broker_inv) b'" if "broker_inv b'" for b' i gs
    using send_reply_inv [OF that sendable_suback] by (rule wp_mono) simp_all
  have "wp (subscribe_loop env on_close x (sub_entries sub) []) (\<lambda>granted. wp (send_reply on_close x
      (suback_packet (sub_packet_id sub) granted)) (\<lambda>_. broker_inv) (\<lambda>_. broker_inv)) (\<lambda>_. broker_inv) b"
    using subscribe_loop_inv [OF inv] by (rule wp_mono) (simp_all add: reply)
  then show ?thesis using SubscribeBody inv by (simp add: SubscribeHandler_def)
qed (use inv in \<open>simp_all add: SubscribeHandler_def\<close>)

lemma UnsubscribeHandler_inv:
  assumes inv: "broker_inv b"
  shows "wp (UnsubscribeHandler env on_close x pkt) (\<lambda>_. broker_inv) (\<lambda>_. broker_inv) b"
proof (cases "pkt_body pkt")
  case (UnsubscribeBody unsub)
  have one: "wp (unsubscribe_one x f) (\<lambda>_. broker_inv) (\<lambda>_. broker_inv) b'" if "broker_inv b'" for b' f
    using that inv_unsubscribe [OF that lock_session_live] by (auto simp: unsubscribe_one_def split: option.split)
  have reply: "wp (send_reply on_close x (ack_packet Unsuback i)) (\<lambda>_. broker_inv) (\<lambda>_. broker_inv) b'" if "broker_inv b'" for b' i
    using send_reply_inv [OF that sendable_ack] by (intro wp_mono [OF send_reply_inv [OF that sendable_ack]]) simp_all
  have "wp (forP (unsub_topics unsub) (unsubscribe_one x)) (\<lambda>_. wp (send_reply on_close x
      (ack_packet Unsuback (unsub_packet_id unsub))) (\<lambda>_. broker_inv) (\<lambda>_. broker_inv)) (\<lambda>_. broker_inv) b"
    by (rule wp_forP [where I = broker_inv]) (simp_all add: inv one reply)
  then show ?thesis using UnsubscribeBody inv by (simp add: UnsubscribeHandler_def)
qed (use inv in \<open>simp_all add: UnsubscribeHandler_def\<close>)

lemma AckHandler_inv:
  assumes inv: "broker_inv b"
  shows "wp (AckHandler env on_close x pkt) (\<lambda>_. broker_inv) (\<lambda>_. broker_inv) b"
proof (cases "pkt_body pkt")
  case (AckBody ack)
  let ?pid = "ack_packet_id ack"
  note ctx = inv_ctx [OF inv, of x]
  have erase: "broker_inv (upd_ctx x (\<lambda>ctx. ctx\<lparr>cc_awaiting_puback := (cc_awaiting_puback ctx)(?pid := None),
        cc_out_inflight := (cc_out_inflight ctx)(?pid := None)\<rparr>) b)"
      "broker_inv (upd_ctx x (\<lambda>ctx. ctx\<lparr>cc_out_inflight := (cc_out_inflight ctx)(?pid := None)\<rparr>) b)"
    using inv by (auto intro!: inv_upd_ctx simp: ctx_ok_def)
  have ack': "wp (connAck on_close x t i) (\<lambda>_. broker_inv) (\<lambda>_. broker_inv) b'"
    if "broker_inv b'" "t \<in> {Pubrel, Pubcomp}" for b' t i
    using connAck_inv [OF that(1)] that(2) by (auto intro: wp_mono)
  have rel: "wp (connAck on_close x Pubrel ?pid) (\<lambda>_. broker_inv) (\<lambda>_. broker_inv)
      (upd_ctx x (\<lambda>ctx. ctx\<lparr>cc_out_inflight := (cc_out_inflight ctx)(?pid \<mapsto> item\<lparr>oi_pubrel_sent := True\<rparr>)\<rparr>) b)"
    if "cc_out_inflight (b_ctxs b x) ?pid = Some item" for item
    using ctx that by (intro ack' inv_upd_ctx [OF inv]) (auto simp: ctx_ok_def small_item_def)
  have routed: "wp (route env on_close msg) (\<lambda>_ b'. wp (connAck on_close x Pubcomp ?pid) (\<lambda>_. broker_inv) (\<lambda>_. broker_inv)
      (upd_ctx x (\<lambda>ctx. ctx\<lparr>cc_awaiting_pubrel := (cc_awaiting_pubrel ctx)(?pid := None)\<rparr>) b')) (\<lambda>_. broker_inv) b"
    if "cc_awaiting_pubrel (b_ctxs b x) ?pid = Some msg" for msg
  proof (rule wp_mono [OF wp_route_inv [OF inv]])
    show "small_msg msg" using ctx that by (simp add: ctx_ok_def)
    fix b' assume "broker_inv b' \<and> same_registry b b'"
    then show "wp (connAck on_close x Pubcomp ?pid) (\<lambda>_. broker_inv) (\<lambda>_. broker_inv)
      (upd_ctx x (\<lambda>ctx. ctx\<lparr>cc_awaiting_pubrel := (cc_awaiting_pubrel ctx)(?pid := None)\<rparr>) b')"
      by (intro ack' inv_upd_ctx) (auto simp: ctx_ok_def)
  qed simp
  show ?thesis
    using AckBody inv erase rel routed ack' [OF inv]
    by (cases "pkt_type pkt") (auto simp: AckHandler_def Let_def split: option.split)
qed (use inv in \<open>simp_all add: AckHandler_def\<close>)

lemma PingreqHandler_inv:
  "broker_inv b \<Longrightarrow> wp (PingreqHandler env on_close x pkt) (\<lambda>_. broker_inv) (\<lambda>_. broker_inv) b"
  using wp_mono [OF send_reply_inv [OF _ sendable_pingresp]] by (simp add: PingreqHandler_def)

lemma DisconnectHandler_inv:
  "broker_inv b \<Longrightarrow> wp (DisconnectHandler env on_close x pkt) (\<lambda>_. broker_inv) (\<lambda>_. broker_inv) b"
  by (simp add: DisconnectHandler_def inv_upd_ctx)

lemma dispatch_wp_inv:
  assumes "broker_inv b" "small_body (pkt_body pkt)" "hooks_keep_topic (env_hooks env)" "pkt_type pkt \<noteq> Connect"
  shows "wp (dispatch (registerHandlers Map.empty) env on_close x pkt) (\<lambda>_. broker_inv) (\<lambda>_. broker_inv) b"
  using assms
  by (cases "pkt_type pkt")
     (simp_all add: dispatch_def registerHandlers_def registerHandler_def PublishHandler_inv
        SubscribeHandler_inv UnsubscribeHandler_inv AckHandler_inv PingreqHandler_inv DisconnectHandler_inv)

lemma dispatch_inv:
  assumes "broker_inv b" "small_body (pkt_body pkt)" "hooks_keep_topic (env_hooks env)"
  shows "wlp (dispatch (registerHandlers Map.empty) env on_close x pkt) (\<lambda>_. broker_inv) (\<lambda>_. broker_inv) b"
proof (cases "pkt_type pkt = Connect")
  case True
  then show ?thesis
    using ConnectHandler_inv assms(1,2) by (simp add: dispatch_def registerHandlers_def registerHandler_def)
next
  case False
  show ?thesis using dispatch_wp_inv [OF assms False] by (rule wp_imp_wlp)
qed

lemma close_sender_inv:
  assumes "broker_inv b"
  shows "wp (bindP (getP (lock_channel x)) (\<lambda>channel.
     case channel of None \<Rightarrow> returnP () | Some (c, ch) \<Rightarrow> requestClose on_close c e)) (\<lambda>_. broker_inv) never b"
  using assms requestClose_inv [OF assms] by (auto split: option.split)

lemma inv_request:
  assumes "broker_inv b" "b_requests b = (x, pkt) # rest"
  shows "broker_inv (b\<lparr>b_requests := rest\<rparr>)" and "small_body (pkt_body pkt)" and "Packet_ok pkt"
  using assms by (simp_all add: broker_inv_def)

lemma handleRequest_wp_inv:
  assumes inv: "broker_inv b"
    and req: "\<And>x pkt rest. b_requests b = (x, pkt) # rest \<Longrightarrow>
      wp (dispatch (registerHandlers Map.empty) env on_close x pkt) (\<lambda>_. broker_inv) (\<lambda>_. broker_inv) (b\<lparr>b_requests := rest\<rparr>)"
  shows "wp (handleRequest (registerHandlers Map.empty) env on_close) (\<lambda>_. broker_inv) never b"
proof (cases "b_requests b")
  case Nil
  then show ?thesis using inv by (simp add: handleRequest_def)
next
  case (Cons xp rest)
  obtain x pkt where xp: "xp = (x, pkt)" by (cases xp)
  have "wp (dispatch (registerHandlers Map.empty) env on_close x pkt) (\<lambda>_. broker_inv)
      (\<lambda>e. wp (bindP (getP (lock_channel x)) (\<lambda>channel.
                 case channel of None \<Rightarrow> returnP () | Some (c, ch) \<Rightarrow> requestClose on_close c e)) (\<lambda>_. broker_inv) never)
      (b\<lparr>b_requests := rest\<rparr>)"
    using req [OF Cons [unfolded xp]] by (rule wp_mono) (blast intro: close_sender_inv)+
  then show ?thesis using Cons xp by (simp add: handleRequest_def)
qed

lemma handleRequest_inv:
  assumes inv: "broker_inv b" and hooks: "hooks_keep_topic (env_hooks env)"
  shows "wlp (handleRequest (registerHandlers Map.empty) env on_close) (\<lambda>_. broker_inv) never b"
proof (cases "b_requests b")
  case Nil
  then show ?thesis using inv by (simp add: handleRequest_def)
next
  case (Cons xp rest)
  obtain x pkt where xp: "xp = (x, pkt)" by (cases xp)
  note head = inv_request [OF inv Cons [unfolded xp]]
  have close: "wlp (bindP (getP (lock_channel x)) (\<lambda>channel.
      case channel of None \<Rightarrow> returnP () | Some (c, ch) \<Rightarrow> requestClose on_close c e)) (\<lambda>_. broker_inv) never b'"
    if "broker_inv b'" for e b'
    by (rule wp_imp_wlp [OF close_sender_inv [OF that]])
  have "wlp (dispatch (registerHandlers Map.empty) env on_close x pkt) (\<lambda>_. broker_inv)
      (\<lambda>e. wlp (bindP (getP (lock_channel x)) (\<lambda>channel.
                 case channel of None \<Rightarrow> returnP () | Some (c, ch) \<Rightarrow> requestClose on_close c e)) (\<lambda>_. broker_inv) never)
      (b\<lparr>b_requests := rest\<rparr>)"
    using dispatch_inv [OF head(1,2) hooks] by (rule wlp_mono) (blast intro: close)+
  then show ?thesis using Cons xp by (simp add: handleRequest_def)
qed

lemma resend_inv:
  assumes inv: "broker_inv b"
  shows "wp (resend on_close x pid) (\<lambda>_. broker_inv) never b"
proof (cases "cc_out_inflight (b_ctxs b x) pid")
  case None
  then show ?thesis using inv by (simp add: resend_def)
next
  case (Some item)
  have item: "small_item item" "pid \<noteq> 0" using inv_ctx [OF inv, of x] Some by (auto simp: ctx_ok_def)
  have send: "sendable (publish_packet \<lparr>pub_topic = oi_topic item, pub_payload = oi_payload item, pub_qos = qq,
       pub_retain = False, pub_dup = True, pub_packet_id = pid, pub_source_client = oi_source_client item\<rparr>)" for qq
    using item by (intro sendable_publish) (simp_all add: small_item_def)
  have bump: "broker_inv (upd_ctx x (\<lambda>ctx. ctx\<lparr>cc_out_inflight := (cc_out_inflight ctx)(pid := map_option
        (\<lambda>i. i\<lparr>oi_sent_time := t, oi_retry_count := oi_retry_count i + 1\<rparr>) (cc_out_inflight ctx pid))\<rparr>) b')"
    if "broker_inv b'" for t b'
    using that inv_ctx [OF that, of x] by (intro inv_upd_ctx) (auto simp: ctx_ok_def small_item_def)
  show ?thesis
    using Some inv bump
    by (auto simp: resend_def wp_send [OF send] wp_send [OF sendable_ack] split: option.split)
qed

lemma retransmit_items_inv:
  "broker_inv b \<Longrightarrow> wlp (retransmit_items on_close now x c pids) (\<lambda>_. broker_inv) (\<lambda>_. broker_inv) b"
proof (induction pids arbitrary: b)
  case (Cons pid pids)
  have close: "wlp (requestClose on_close c r) (\<lambda>_. broker_inv) (\<lambda>_. broker_inv) b" for r
    using requestClose_inv [OF Cons.prems] by (rule wp_imp_wlp) simp
  have rest: "wlp (retransmit_items on_close now x c pids) (\<lambda>_. broker_inv) (\<lambda>_. broker_inv) b'" if "broker_inv b'" for b'
    using Cons.IH [OF that] .
  have send: "wlp (resend on_close x pid) (\<lambda>_. wlp (retransmit_items on_close now x c pids) (\<lambda>_. broker_inv) (\<lambda>_. broker_inv))
      (\<lambda>_. broker_inv) b"
    using wp_imp_wlp [OF resend_inv [OF Cons.prems]] by (rule wlp_mono) (simp_all add: rest)
  show ?case
  proof (cases "cc_out_inflight (b_ctxs b x) pid")
    case None
    then show ?thesis by (simp add: wlp_def)
  next
    case (Some out)
    let ?rest = "retransmit_items on_close now x c pids"
    have "wlp (if oi_retry_count out \<ge> cc_max_retries (b_ctxs b x) then requestClose on_close c ''retry limit reached''
        else seqP (if now - oi_sent_time out \<ge> cc_retry_interval (b_ctxs b x) then resend on_close x pid else returnP ()) ?rest)
        (\<lambda>_. broker_inv) (\<lambda>_. broker_inv) b"
      using rest [OF Cons.prems] send close by simp
    then show ?thesis using Some by (simp add: wlp_def)
  qed
qed simp

lemma checkRetransmission_inv:
  assumes "broker_inv b"
  shows "wlp (checkRetransmission on_close now order pids) (\<lambda>_. broker_inv) (\<lambda>_. broker_inv) b"
  unfolding checkRetransmission_def
proof (rule wlp_forP [where I = broker_inv])
  fix key b' assume b': "broker_inv b'"
  have "wlp (retransmit_items on_close now x c ps)
      (\<lambda>_ b. wlp (if byChannel key b = None then undefP else returnP ()) (\<lambda>_. broker_inv) (\<lambda>_. broker_inv) b) (\<lambda>_. broker_inv) b'" for x c ps
    using retransmit_items_inv [OF b'] by (rule wlp_mono) simp_all
  then show "wlp (retransmit_client on_close now pids key) (\<lambda>_. broker_inv) (\<lambda>_. broker_inv) b'"
    using b' by (auto simp: retransmit_client_def split: option.split)
qed (use assms in simp_all)

lemma doTick_inv:
  assumes "broker_inv b"
  shows "wlp (doTick on_close snapshot order pids) (\<lambda>_. broker_inv) (\<lambda>_. broker_inv) b"
proof -
  have retr: "wlp (tick_retransmission on_close order pids) (\<lambda>_. broker_inv) (\<lambda>_. broker_inv) b'" if "broker_inv b'" for b'
    unfolding tick_retransmission_def wlp_bindP wlp_prim wlp_catchP
    by (rule wlp_mono [OF checkRetransmission_inv [OF that]]) simp_all
  have "wlp (checkKeepalive on_close (b_now b) snapshot)
      (\<lambda>_. wlp (tick_retransmission on_close order pids) (\<lambda>_. broker_inv) (\<lambda>_. broker_inv))
      (\<lambda>_. wlp (tick_retransmission on_close order pids) (\<lambda>_. broker_inv) (\<lambda>_. broker_inv)) b"
    using wp_imp_wlp [OF checkKeepalive_inv [OF assms]] by (rule wlp_mono) (simp_all add: retr)
  then show ?thesis by (simp add: doTick_def tick_keepalive_def)
qed

lemma receive_frame_inv:
  assumes inv: "broker_inv b" and ch: "b_chans b c = Some ch"
    and ub: "decode (env_MaxPacketSize env) (ch_buffer ch) \<noteq> UB"
  shows "wp (receive_frame env on_close c) (\<lambda>_. broker_inv) never b"
proof (cases "decode (env_MaxPacketSize env) (ch_buffer ch)")
  case (Ret pack)
  show ?thesis
  proof (cases pack)
    case None
    then show ?thesis using Ret ch inv by (simp add: receive_frame_def wp_liftP)
  next
    case (Some pkt)
    have ok: "Packet_ok pkt" "small_body (pkt_body pkt)"
      using decoded_packet Ret Some by simp_all
    have packet: "wp (channel_on_packet c pkt) (\<lambda>_. broker_inv) never b'" if "broker_inv b'" for b'
      using that onPacket_inv [OF that ok] by (simp add: channel_on_packet_def split: option.split)
    have "wp (channel_on_packet c pkt) (\<lambda>_. broker_inv) E (upd_chan c f b)" for f E
      by (rule wp_mono [OF packet]) (simp_all add: inv)
    then show ?thesis using Ret Some ch by (simp add: receive_frame_def wp_liftP)
  qed
next
  case (Throw e)
  then show ?thesis using ch requestClose_inv [OF inv] by (simp add: receive_frame_def wp_liftP)
qed (use ub in simp)

end

interpretation engine: closing "onClose (Suc n) env" for n env
  by unfold_locales (rule wp_onClose_inv)

end
