(* ===== verification/Delivery.thy ===== *)
theory Delivery
  imports Broker_Inv
begin

text \<open>
  Delivery and routing as functions on the state. A stored message can always be encoded, so
  \<open>deliver\<close> and \<open>route\<close> return, never call \<open>on_close\<close>, and are equal to the total functions below.
\<close>

section \<open>Delivery to one client\<close>

definition delivery_packet :: "Message \<Rightarrow> Qos \<Rightarrow> bool \<Rightarrow> bool \<Rightarrow> u16 \<Rightarrow> Packet" where
  "delivery_packet msg q as_retained dup pid = publish_packet
     \<lparr>pub_topic = m_topic msg, pub_payload = m_payload msg, pub_qos = q, pub_retain = as_retained,
      pub_dup = dup, pub_packet_id = pid, pub_source_client = m_source_client msg\<rparr>"

definition inflight_item :: "Message \<Rightarrow> Qos \<Rightarrow> int \<Rightarrow> OutItem" where
  "inflight_item msg q now = \<lparr>oi_qos = q, oi_pubrel_sent = False, oi_topic = m_topic msg,
     oi_payload = m_payload msg, oi_source_client = m_source_client msg, oi_sent_time = now, oi_retry_count = 0\<rparr>"

definition delivered :: "ctx_ref \<Rightarrow> chan_ref \<Rightarrow> Message \<Rightarrow> Qos \<Rightarrow> bool \<Rightarrow> bool \<Rightarrow> Broker \<Rightarrow> Broker" where
  "delivered x c msg granted_qos as_retained dup b =
     (let q = min_qos granted_qos (m_qos msg); pid = fst (nextPacketId (b_ctxs b x)) in
      if q = AtMostOnce then
        send_bytes c (delivery_packet msg q as_retained dup 0) b\<lparr>b_delivered := b_delivered b + 1\<rparr>
      else
        send_bytes c (delivery_packet msg q as_retained dup pid)
          (upd_ctx x (\<lambda>ctx. ctx\<lparr>cc_next_out_pid := pid,
             cc_out_inflight := (cc_out_inflight ctx)(pid \<mapsto> inflight_item msg q (b_now b))\<rparr>) b)
          \<lparr>b_delivered := b_delivered b + 1\<rparr>)"

definition open_channel :: "ctx_ref \<Rightarrow> Broker \<Rightarrow> chan_ref option" where
  "open_channel x b =
     (case lock_channel x b of Some (c, ch) \<Rightarrow> if ch_closing ch then None else Some c | None \<Rightarrow> None)"

lemma sendable_delivery: "small_msg msg \<Longrightarrow> sendable (delivery_packet msg q r d pid)"
  unfolding delivery_packet_def by (rule sendable_publish) (simp_all add: small_msg_def)

lemma deliver_eq:
  assumes small: "small_msg msg"
  shows "deliver on_close x msg q r d b =
           Ok () (case open_channel x b of Some c \<Rightarrow> delivered x c msg q r d b | None \<Rightarrow> b)"
proof (cases "lock_channel x b")
  case None
  then show ?thesis by (simp add: deliver_def open_channel_def)
next
  case (Some cch)
  obtain c ch where cch: "cch = (c, ch)" by (cases cch)
  have "b_chans b c = Some ch"
    using Some cch by (auto simp: lock_channel_def split: option.splits)
  then have sent: "isClosing c (b\<lparr>b_ctxs := ctxs\<rparr>) = ch_closing ch" "isClosing c b = ch_closing ch" for ctxs
    by (simp_all add: isClosing_def)
  obtain pid where pid: "nextPacketId (b_ctxs b x) = (pid, (b_ctxs b x)\<lparr>cc_next_out_pid := pid\<rparr>)"
    by (metis nextPacketId_ctx prod.collapse)
  show ?thesis
    using Some cch pid sendable_delivery [OF small]
    by (simp add: deliver_def open_channel_def delivered_def Let_def bindP_apply seqP_apply
        channel_asyncSend_sendable sent inflight_item_def upd_ctx_def flip: delivery_packet_def)
qed

lemma delivered_frame [simp, frame_simps]:
  "b_outbox (delivered x c msg q r d b) = b_outbox b" "b_by_id (delivered x c msg q r d b) = b_by_id b"
  "b_sess (delivered x c msg q r d b) = b_sess b" "b_topics (delivered x c msg q r d b) = b_topics b"
  "b_retains (delivered x c msg q r d b) = b_retains b" "b_now (delivered x c msg q r d b) = b_now b"
  "b_requests (delivered x c msg q r d b) = b_requests b" "b_by_channel (delivered x c msg q r d b) = b_by_channel b"
  "b_channels (delivered x c msg q r d b) = b_channels b" "b_sessions (delivered x c msg q r d b) = b_sessions b"
  "b_events (delivered x c msg q r d b) = b_events b" "b_delivered (delivered x c msg q r d b) = b_delivered b + 1"
  by (simp_all add: delivered_def Let_def)

lemma send_bytes_other: "c' \<noteq> c \<Longrightarrow> b_chans (send_bytes c pkt b) c' = b_chans b c'"
  by (auto simp: send_bytes_def split: outcome.split prod.split bool.split)

lemma send_bytes_chan:
  "encode pkt [] = Ret (True, bytes) \<Longrightarrow> b_chans (send_bytes c pkt b) c =
     map_option (\<lambda>ch. ch\<lparr>ch_transport := transport_asyncSend bytes (ch_transport ch)\<rparr>) (b_chans b c)"
  by (simp add: send_bytes_def)

lemma send_bytes_closing [simp]: "map_option ch_closing (b_chans (send_bytes c pkt b) c') = map_option ch_closing (b_chans b c')"
  by (auto simp: send_bytes_def option.map_comp comp_def split: outcome.split prod.split bool.split)

lemma delivered_other:
  "y \<noteq> x \<Longrightarrow> b_ctxs (delivered x c msg q r d b) y = b_ctxs b y"
  "c' \<noteq> c \<Longrightarrow> b_chans (delivered x c msg q r d b) c' = b_chans b c'"
  by (simp_all add: delivered_def Let_def send_bytes_other)

lemma open_channel_alt:
  "open_channel x b = (case cc_channel (b_ctxs b x) of None \<Rightarrow> None
     | Some c \<Rightarrow> if map_option ch_closing (b_chans b c) = Some False then Some c else None)"
  by (auto simp: open_channel_def lock_channel_def split: option.split)

lemma delivered_status [simp]:
  "cc_channel (b_ctxs (delivered x c msg q r d b) y) = cc_channel (b_ctxs b y)"
  "cc_connected (b_ctxs (delivered x c msg q r d b) y) = cc_connected (b_ctxs b y)"
  "open_channel y (delivered x c msg q r d b) = open_channel y b"
  by (simp_all add: delivered_def Let_def open_channel_alt split: option.split)

section \<open>Routing\<close>

text \<open>The context a client identifier is reached by: connected, with an open channel.\<close>

definition online :: "string \<Rightarrow> Broker \<Rightarrow> (ctx_ref \<times> chan_ref) option" where
  "online cid b =
     (case byId cid b of None \<Rightarrow> None
      | Some x \<Rightarrow> if cc_connected (b_ctxs b x) then map_option (Pair x) (open_channel x b) else None)"

definition routed_one :: "Message \<Rightarrow> (string \<rightharpoonup> session_ref \<times> bool) \<Rightarrow> string \<Rightarrow> Qos \<Rightarrow> Broker \<Rightarrow> Broker" where
  "routed_one msg session_map cid q b =
     (case online cid b of
        Some (x, c) \<Rightarrow> delivered x c msg q False False b
      | None \<Rightarrow>
          (case session_map cid of
             Some (s, clean) \<Rightarrow>
               if \<not> clean \<and> q \<noteq> AtMostOnce
               then b\<lparr>b_outbox := outbox_enqueue (b_outbox b) s msg q False\<rparr> else b
           | None \<Rightarrow> b))"

definition routed :: "Message \<Rightarrow> route_maps \<Rightarrow> string list \<Rightarrow> Broker \<Rightarrow> Broker" where
  "routed msg maps = fold (\<lambda>cid b. case map_of (fst maps) cid of
     Some q \<Rightarrow> routed_one msg (snd maps) cid q b | None \<Rightarrow> b)"

lemma enqueue_offline_eq:
  "enqueue_offline (s, clean) msg q b =
     Ok () (if \<not> clean \<and> q \<noteq> AtMostOnce then b\<lparr>b_outbox := outbox_enqueue (b_outbox b) s msg q False\<rparr> else b)"
  by (cases q) (simp_all add: enqueue_offline_def less_Qos_def)

lemma route_one_eq:
  "small_msg msg \<Longrightarrow> route_one on_close msg smap cid q b = Ok () (routed_one msg smap cid q b)"
  by (auto simp: route_one_def routed_one_def online_def open_channel_def deliver_eq enqueue_offline_eq
      split: option.split prod.split)

lemma forP_fold: "(\<And>x b. f x b = Ok () (g x b)) \<Longrightarrow> forP xs f b = Ok () (fold g xs b)"
  by (induction xs arbitrary: b) (simp_all add: seqP_apply)

lemma route_eq:
  assumes "small_msg msg"
  shows "route env on_close msg b =
           Ok () (routed msg (best_maps b msg) (env_order env (map fst (fst (best_maps b msg)))) b)"
  unfolding route_def routed_def
  by (auto simp: bindP_apply case_prod_unfold route_one_eq [OF assms] intro!: forP_fold split: option.split)

lemma deliver_on_close: "small_msg msg \<Longrightarrow> deliver f x msg q r d = deliver g x msg q r d"
  by (rule ext) (simp add: deliver_eq)

lemma route_on_close: "small_msg msg \<Longrightarrow> route env f msg = route env g msg"
  by (rule ext) (simp add: route_eq)

end
