(* ===== verification/Scenario.thy ===== *)
theory Scenario
  imports Broker_Proofs
begin

text \<open>
  A concrete broker for the witnesses: anonymous access, no plugins, one connected client
  \<open>a\<close> with a persistent session, and the empty offline session of a client \<open>b\<close>.
\<close>

definition demo_env :: Env where
  "demo_env = \<lparr>env_security = registerSecurity True SecurityChain_empty, env_hooks = [],
     env_MaxConnections = 1000, env_MaxPacketSize = 256, env_order = (\<lambda>cids. cids),
     env_transport_type = tcp, env_max_receive_size = 64\<rparr>"

definition demo_session :: "string \<Rightarrow> Session" where
  "demo_session cid = \<lparr>s_client_id = cid, s_clean_session = False, s_subscriptions = []\<rparr>"

definition demo_client :: ClientContext where
  "demo_client = (new_context 0)\<lparr>cc_session := Some 2, cc_client_id := ''a'', cc_connected := True,
     cc_will := \<lparr>w_topic = ''gone/a'', w_payload = ''bye'', w_qos = AtLeastOnce, w_retain = True, w_valid = True\<rparr>\<rparr>"

definition demo_broker :: Broker where
  "demo_broker = (broker_init 0)\<lparr>
     b_sess := [2 \<mapsto> demo_session ''a'', 3 \<mapsto> demo_session ''b''],
     b_sessions := [(''a'', 2), (''b'', 3)],
     b_ctxs := (\<lambda>_. no_context)(1 := demo_client),
     b_chans := [0 \<mapsto> channel_new 64 0], b_channels := [0], b_by_channel := [(0, 1)],
     b_by_id := [''a'' \<mapsto> 1], b_started := True, b_next_ref := 4\<rparr>"

lemma demo_inv: "broker_inv demo_broker"
proof -
  have init: "subs_ok empty_node (\<lambda>_. None)" "retains_ok retain_empty"
    using broker_inv_init [of 0] by (simp_all add: broker_inv_def broker_init_def)
  have "subs_ok empty_node [2 \<mapsto> demo_session ''a'', 3 \<mapsto> demo_session ''b'']"
    by (intro subs_ok_new init) (simp_all add: demo_session_def)
  moreover have "sessions_ok [(''a'', 2), (''b'', 3)] [2 \<mapsto> demo_session ''a'', 3 \<mapsto> demo_session ''b''] 4"
    by (auto simp: sessions_ok_def demo_session_def split: if_splits)
  ultimately show ?thesis
    using init(2)
    by (auto simp: broker_inv_def demo_broker_def broker_init_def outbox_ok_def outbox_inv_empty
        outbox_queue_def ctx_ok_def channels_ok_def no_context_def new_context_def no_will_def demo_client_def)
qed

lemma demo_hooks: "hooks_keep_topic (env_hooks demo_env)"
  by (simp add: hooks_keep_topic_def demo_env_def)

lemma demo_started:
  "reachable demo_env n ((broker_init 0)\<lparr>b_chans := [0 \<mapsto> channel_new 64 0], b_channels := [0],
     b_ctxs := (\<lambda>_. no_context)(1 := new_context 0), b_by_channel := [(0, 1)], b_next_ref := 2, b_started := True\<rparr>)"
  by (rule reachable_step [OF reachable_init [of _ _ 0], unfolded engine_step_def, OF disjI1 [OF step_start]])
     (simp add: engine_start_def listen_def ChannelFactory_create_def addChannel_def bindP_apply seqP_apply
       demo_env_def broker_init_def fun_upd_idem)

end
