(* ===== verification/Broker_Safety.thy ===== *)
theory Broker_Safety
  imports Scenario Delivery
begin

text \<open>
  Executions of the broker: every reachable state satisfies the invariant, nested closings do
  not depend on the depth allowed, and the retransmission pass returns or has undefined
  behaviour. When the other operations return is the subject of \<open>Availability\<close>.
\<close>

section \<open>Accepting connections\<close>

lemma sessions_ok_mono: "sessions_ok tab sess n \<Longrightarrow> n \<le> n' \<Longrightarrow> sessions_ok tab sess n'"
  unfolding sessions_ok_def by (meson less_le_trans)

lemma channels_ok_add:
  assumes "channels_ok tab ctxs n"
  shows "channels_ok (AList.update n (Suc n) tab) (ctxs(Suc n := new_context n)) (Suc (Suc n))"
proof -
  have "n \<notin> fst ` set tab" using assms by (auto simp: channels_ok_def)
  then have "AList.update n (Suc n) tab = tab @ [(n, Suc n)]" by (induction tab) auto
  then show ?thesis
    using assms by (fastforce simp: channels_ok_def new_context_def)
qed

lemma inv_add_channel:
  assumes "broker_inv b" "n = b_next_ref b"
  shows "broker_inv (b\<lparr>b_chans := chs, b_channels := cs, b_ctxs := (b_ctxs b)(Suc n := new_context n),
           b_by_channel := AList.update n (Suc n) (b_by_channel b), b_next_ref := Suc (Suc n)\<rparr>)"
proof -
  have "ctx_ok (new_context n)" by (simp add: ctx_ok_def new_context_def no_will_def)
  then show ?thesis
    using assms sessions_ok_mono [of "b_sessions b" "b_sess b" n "Suc (Suc n)"]
      channels_ok_add [of "b_by_channel b" "b_ctxs b" n]
    by (simp add: broker_inv_def)
qed

lemma listen_eq:
  assumes "env_transport_type env \<noteq> ssl"
  defines "ch b \<equiv> channel_new (env_max_receive_size env) (b_now b)"
  shows "listen env b = Ok () (b\<lparr>b_chans := (b_chans b)(b_next_ref b \<mapsto> ch b), b_channels := b_channels b @ [b_next_ref b],
           b_ctxs := (b_ctxs b)(Suc (b_next_ref b) := new_context (b_next_ref b)),
           b_by_channel := AList.update (b_next_ref b) (Suc (b_next_ref b)) (b_by_channel b),
           b_next_ref := Suc (Suc (b_next_ref b))\<rparr>)"
  using assms(1) by (cases "env_transport_type env")
    (simp_all add: listen_def ChannelFactory_create_def addChannel_def bindP_apply seqP_apply ch_def)

lemma listen_inv: "broker_inv b \<Longrightarrow> wlp (listen env) (\<lambda>_. broker_inv) E b"
proof (cases "env_transport_type env = ssl")
  case True
  then show ?thesis by (simp add: listen_def ChannelFactory_create_def wlp_def)
next
  case False
  assume "broker_inv b"
  then show ?thesis
    using inv_add_channel [of b] by (simp add: wlp_def listen_eq [OF False])
qed

lemma engine_start_inv: "broker_inv b \<Longrightarrow> wlp (engine_start env) (\<lambda>_. broker_inv) (\<lambda>_. broker_inv) b"
  unfolding engine_start_def wlp_bindP wlp_prim
  by (auto intro!: wlp_mono [OF listen_inv])

lemma on_accept_inv: "broker_inv b \<Longrightarrow> wlp (on_accept env ec endpoint c) (\<lambda>_. broker_inv) (\<lambda>_. broker_inv) b"
  unfolding on_accept_def wlp_catchP channel_start_def
  by (auto simp: listen_inv intro!: wlp_mono [OF engine_start_inv] split: option.split)

section \<open>Reachable states\<close>

lemma io_step_inv:
  assumes step: "io_step env (Suc n) b b'" and inv: "broker_inv b"
  shows "broker_inv b'"
  using step
proof cases
  case step_start
  then show ?thesis using wlp_OkD [OF engine_start_inv [OF inv]] by blast
next
  case step_accept
  then show ?thesis using wlp_OkD [OF on_accept_inv [OF inv]] by blast
next
  case (step_frame c)
  show ?thesis
  proof (cases "b_chans b c")
    case None
    then show ?thesis using step_frame inv by (simp add: receive_frame_def)
  next
    case (Some ch)
    then have "decode (env_MaxPacketSize env) (ch_buffer ch) \<noteq> UB"
      using step_frame by (auto simp: receive_frame_def prog_simps liftP_def)
    then show ?thesis
      using wp_OkD [OF engine.receive_frame_inv [OF inv Some] step_frame] by blast
  qed
next
  case step_peer_close
  then show ?thesis using wp_OkD [OF engine.requestClose_inv [OF inv]] by blast
next
  case step_tick
  then show ?thesis using wlp_OkD [OF engine.doTick_inv [OF inv]] doTick_Ok by blast
next
  case step_stop
  then show ?thesis using inv by (cases "b_started b") (auto simp: engine_stop_def)
qed (use inv in simp_all)

lemma engine_step_inv:
  assumes "engine_step env (Suc n) b b'" and "hooks_keep_topic (env_hooks env)" and "broker_inv b"
  shows "broker_inv b'"
  using assms io_step_inv wlp_OkD [OF engine.handleRequest_inv [OF assms(3,2)]] unfolding engine_step_def worker_step_def by blast

lemma reachable_inv:
  assumes "reachable env (Suc n) b" "hooks_keep_topic (env_hooks env)"
  shows "broker_inv b"
  using assms by induction (auto simp: broker_inv_init dest: engine_step_inv)

section \<open>Nested closings\<close>

text \<open>
  Packets of stored messages can always be encoded, so delivering them never calls \<open>on_close\<close>
  and one level of \<open>onClose\<close> is enough.
\<close>

lemma onClose_depth:
  assumes "broker_inv b"
  shows "onClose (Suc n) env c reason b = onClose (Suc m) env c reason b"
proof (cases "byChannel c b")
  case None
  then show ?thesis by simp
next
  case (Some x)
  let ?b = "b\<lparr>b_channels := removeAll c (b_channels b)\<rparr>"
  define msg where "msg = \<lparr>m_topic = w_topic (cc_will (b_ctxs b x)), m_payload = w_payload (cc_will (b_ctxs b x)),
    m_qos = w_qos (cc_will (b_ctxs b x)), m_retain = w_retain (cc_will (b_ctxs b x)), m_source_client = cc_client_id (b_ctxs b x)\<rparr>"
  have "small_msg msg"
    using inv_ctx [OF assms, of x] by (simp add: small_msg_def ctx_ok_def msg_def)
  then have "route env (onClose n env) msg = route env (onClose m env) msg"
    by (rule route_on_close)
  then have "publish_will env (onClose n env) x ?b = publish_will env (onClose m env) x ?b"
    by (simp add: publish_will_def Let_def flip: msg_def)
  then show ?thesis
    using Some by (simp add: remove_channel_ref_def seqP_apply)
qed

lemma requestClose_closes:
  assumes "broker_inv b"
  shows "wp (requestClose (onClose (Suc n) env) c reason) (\<lambda>_ b'. broker_inv b' \<and> isClosing c b') never b"
proof (cases "isClosing c b")
  case True
  then show ?thesis using assms by (simp add: requestClose_def)
next
  case False
  have "wp (onClose (Suc n) env c reason) (\<lambda>_. wp (channel_close c) (\<lambda>_ b'. broker_inv b' \<and> isClosing c b') never) never b"
    using wp_onClose_inv [OF assms]
    by (rule wp_mono) (auto simp: channel_close_def isClosing_def split: option.split)
  then show ?thesis
    using False unfolding requestClose_def wp_bindP wp_prim by simp
qed

lemma wlp_last: "(\<And>s. wlp n Q (\<lambda>_ _. True) s) \<Longrightarrow> wlp (seqP m n) Q (\<lambda>_ _. True) s"
  by (auto simp: wlp_def seqP_apply split: res.splits)

lemma wp_wlp: "wp m Q E s \<Longrightarrow> wlp m Q' E' s \<Longrightarrow> wp m Q' E s"
  by (auto simp: wp_def wlp_def split: res.splits)

lemma removeChannel_removes: "wlp (removeChannel c) (\<lambda>_ b'. byChannel c b' = None) (\<lambda>_ _. True) b"
  unfolding removeChannel_def wlp_bindP wlp_prim
  by (auto simp: byChannel_def delete_conv' intro!: wlp_last split: option.split)

lemma onClose_removes:
  assumes "broker_inv b"
  shows "wp (onClose (Suc n) env c reason) (\<lambda>_ b'. byChannel c b' = None) never b"
proof (rule wp_wlp [OF wp_onClose_inv [OF assms]])
  have "wlp (seqP (removeChannel c) (remove_channel_ref c)) (\<lambda>_ b'. byChannel c b' = None) (\<lambda>_ _. True) b'" for b'
    using removeChannel_removes [of c b'] by (simp add: remove_channel_ref_def byChannel_def)
  then show "wlp (onClose (Suc n) env c reason) (\<lambda>_ b'. byChannel c b' = None) (\<lambda>_ _. True) b"
    unfolding onClose.simps wlp_bindP wlp_prim by (auto intro!: wlp_last split: option.split)
qed

section \<open>Retransmission\<close>

text \<open>What a pass over one client keeps.\<close>

definition others_kept :: "ctx_ref \<Rightarrow> Broker \<Rightarrow> Broker \<Rightarrow> bool" where
  "others_kept x b b' \<longleftrightarrow> broker_inv b' \<and> b_by_channel b' = b_by_channel b \<and> (\<forall>y. y \<noteq> x \<longrightarrow> b_ctxs b' y = b_ctxs b y)"

lemma others_kept_trans: "others_kept x a b \<Longrightarrow> others_kept x b c \<Longrightarrow> others_kept x a c"
  by (simp add: others_kept_def)

definition below_limit :: "ClientContext \<Rightarrow> u16 \<Rightarrow> bool" where
  "below_limit ctx pid \<longleftrightarrow>
     (case cc_out_inflight ctx pid of Some out \<Rightarrow> oi_retry_count out < cc_max_retries ctx | None \<Rightarrow> False)"

lemma resend_kept:
  assumes inv: "broker_inv b"
  shows "wp (resend on_close x pid) (\<lambda>_ b'. others_kept x b b' \<and>
           (\<forall>p. p \<noteq> pid \<longrightarrow> below_limit (b_ctxs b' x) p = below_limit (b_ctxs b x) p)) never b"
proof (cases "cc_out_inflight (b_ctxs b x) pid")
  case None
  then show ?thesis using inv by (simp add: resend_def others_kept_def)
next
  case (Some item)
  have item: "small_item item" "pid \<noteq> 0" using inv_ctx [OF inv, of x] Some by (auto simp: ctx_ok_def)
  have send: "sendable (publish_packet \<lparr>pub_topic = oi_topic item, pub_payload = oi_payload item, pub_qos = qq,
       pub_retain = False, pub_dup = True, pub_packet_id = pid, pub_source_client = oi_source_client item\<rparr>)" for qq
    using item by (intro sendable_publish) (simp_all add: small_item_def)
  have bump: "broker_inv (upd_ctx x (\<lambda>ctx. ctx\<lparr>cc_out_inflight := (cc_out_inflight ctx)(pid := map_option
        (\<lambda>i. i\<lparr>oi_sent_time := t, oi_retry_count := oi_retry_count i + 1\<rparr>) (cc_out_inflight ctx pid))\<rparr>) b')"
    if "broker_inv b'" for t b'
    using that inv_ctx [OF that, of x] by (intro inv_upd_ctx) (auto simp: ctx_ok_def small_item_def)
  show ?thesis
    using Some inv bump
    by (auto simp: resend_def wp_send [OF send] wp_send [OF sendable_ack] others_kept_def below_limit_def
        split: option.split)
qed

lemma retransmit_items_kept:
  assumes "broker_inv b" "distinct pids" "\<forall>pid \<in> set pids. below_limit (b_ctxs b x) pid"
  shows "wp (retransmit_items on_close now x c pids) (\<lambda>_. others_kept x b) never b"
  using assms
proof (induction pids arbitrary: b)
  case Nil
  then show ?case by (simp add: others_kept_def wp_def)
next
  case (Cons pid pids)
  let ?rest = "retransmit_items on_close now x c pids"
  obtain out where out: "cc_out_inflight (b_ctxs b x) pid = Some out" "oi_retry_count out < cc_max_retries (b_ctxs b x)"
    using Cons.prems(3) by (auto simp: below_limit_def split: option.splits)
  have rest: "wp ?rest (\<lambda>_. others_kept x b) never b'"
    if "others_kept x b b'" "\<forall>p. p \<noteq> pid \<longrightarrow> below_limit (b_ctxs b' x) p = below_limit (b_ctxs b x) p" for b'
    using that Cons.prems others_kept_trans [OF that(1)]
    by (intro wp_mono [OF Cons.IH]) (auto simp: others_kept_def)
  have now: "wp ?rest (\<lambda>_. others_kept x b) never b"
    using Cons.prems by (intro rest) (simp_all add: others_kept_def)
  have send: "wp (resend on_close x pid) (\<lambda>_. wp ?rest (\<lambda>_. others_kept x b) never) never b"
    using resend_kept [OF Cons.prems(1)] by (rule wp_mono) (use rest in blast)+
  let ?once = "seqP (if now - oi_sent_time out \<ge> cc_retry_interval (b_ctxs b x) then resend on_close x pid else returnP ()) ?rest"
  have "wp ?once (\<lambda>_. others_kept x b) never b"
    using now send by simp
  moreover have "retransmit_items on_close now x c (pid # pids) b = ?once b"
    using out not_le [THEN iffD2, OF out(2)] by simp
  ultimately show ?case unfolding wp_def by simp
qed

lemma checkRetransmission_kept:
  assumes "broker_inv b" "distinct order" "\<forall>key \<in> set order. \<exists>x. byChannel key b = Some x \<and>
     distinct (pids x) \<and> (\<forall>pid \<in> set (pids x). below_limit (b_ctxs b x) pid)"
  shows "wp (checkRetransmission on_close now order pids)
           (\<lambda>_ b'. broker_inv b' \<and> b_by_channel b' = b_by_channel b) never b"
  unfolding checkRetransmission_def using assms
proof (induction order arbitrary: b)
  case (Cons key order)
  let ?Q = "\<lambda>_ b'. broker_inv b' \<and> b_by_channel b' = b_by_channel b"
  obtain x where x: "byChannel key b = Some x" "distinct (pids x)" "\<forall>pid \<in> set (pids x). below_limit (b_ctxs b x) pid"
    using Cons.prems(3) by auto
  have other: "y \<noteq> x" if "key' \<in> set order" "byChannel key' b = Some y" for key' y
  proof
    assume "y = x"
    then have "map_of (b_by_channel b) key = Some x" "map_of (b_by_channel b) key' = Some x" "key \<noteq> key'"
      using x that Cons.prems(2) by (auto simp: byChannel_def)
    moreover have "distinct (map snd (b_by_channel b))" using Cons.prems(1) channels_ok_snd by (auto simp: broker_inv_def)
    ultimately show False by (metis distinct_map inj_onD map_of_SomeD prod.inject snd_conv)
  qed
  have rest: "wp (forP order (retransmit_client on_close now pids)) ?Q never b'" if "others_kept x b b'" for b'
  proof (rule wp_mono [OF Cons.IH])
    show "\<forall>key \<in> set order. \<exists>x. byChannel key b' = Some x \<and> distinct (pids x) \<and>
        (\<forall>pid \<in> set (pids x). below_limit (b_ctxs b' x) pid)"
      using Cons.prems(3) other that by (fastforce simp: others_kept_def byChannel_def)
  qed (use that Cons.prems in \<open>auto simp: others_kept_def\<close>)
  have "wp (retransmit_items on_close now x c (pids x)) (\<lambda>_ b'. (if byChannel key b' = None then False else
      wp (forP order (retransmit_client on_close now pids)) ?Q never b')) never b" for c
    using retransmit_items_kept [OF Cons.prems(1) x(2,3)]
    by (rule wp_mono) (use rest x(1) in \<open>auto simp: others_kept_def byChannel_def\<close>)
  then have "wp (retransmit_items on_close now x c (pids x)) (\<lambda>_ b'. wp (if byChannel key b' = None then undefP else returnP ())
      (\<lambda>_. wp (forP order (retransmit_client on_close now pids)) ?Q never) never b') never b" for c
    by (rule wp_mono) (auto split: if_splits)
  moreover have "wp (forP order (retransmit_client on_close now pids)) ?Q never b"
    using Cons.prems(1) by (intro rest) (simp add: others_kept_def)
  ultimately have "wp (retransmit_client on_close now pids key) (\<lambda>_. wp (forP order (retransmit_client on_close now pids)) ?Q never) never b"
    unfolding retransmit_client_def [of _ _ _ key] wp_bindP wp_prim x(1)
    by (simp split: option.split)
  then show ?case by simp
qed simp

section \<open>Properties\<close>

text \<open>
  C1. In every state the broker can reach, whatever the clients, the network and the timer do,
  and with plugins that leave topics alone, the invariant holds: the topic tree holds exactly
  the subscriptions the live sessions list, the session table owns exactly the live sessions,
  offline queues belong to live sessions, every channel has a context of its own, in-flight
  packet identifiers are not zero, and every stored message and queued packet can be sent.
\<close>

theorem reachable_invariant:
  assumes "reachable env (Suc n) b" "hooks_keep_topic (env_hooks env)"
  shows "broker_inv b"
  using assms by (rule reachable_inv)

theorem reachable_invariant_witness:
  "hooks_keep_topic (env_hooks demo_env) \<and>
   broker_inv ((broker_init 0)\<lparr>b_chans := [0 \<mapsto> channel_new 64 0], b_channels := [0],
     b_ctxs := (\<lambda>_. no_context)(1 := new_context 0), b_by_channel := [(0, 1)], b_next_ref := 2, b_started := True\<rparr>)"
  using reachable_invariant [OF demo_started demo_hooks] demo_hooks by blast

text \<open>
  What a complete frame does. A packet is queued for the worker with the context of its
  channel, the keep-alive clock restarts and the buffer is cleared; a frame of an unknown or
  oversized packet is dropped; a malformed one closes the channel with the decoder's message.
  The only way out is a frame that makes the decoder read past the buffer, which is undefined.
\<close>

lemma receive_frame_outcomes:
  assumes "broker_inv b" "b_chans b c = Some ch"
  shows "case decode (env_MaxPacketSize env) (ch_buffer ch) of
      Ret (Some pkt) \<Rightarrow> \<exists>b'. receive_frame env (onClose (Suc n) env) c b = Ok () b' \<and> broker_inv b' \<and>
        b_requests b' = b_requests b @ (case byChannel c b of Some x \<Rightarrow> [(x, pkt)] | None \<Rightarrow> []) \<and>
        b_chans b' = (b_chans b)(c \<mapsto> ch\<lparr>ch_last_read := b_now b, ch_buffer := []\<rparr>)
    | Ret None \<Rightarrow> receive_frame env (onClose (Suc n) env) c b =
        Ok () (upd_chan c (\<lambda>ch. ch\<lparr>ch_buffer := []\<rparr>) b)
    | Throw e \<Rightarrow> receive_frame env (onClose (Suc n) env) c b = requestClose (onClose (Suc n) env) c e b \<and>
        (\<exists>b'. receive_frame env (onClose (Suc n) env) c b = Ok () b' \<and> broker_inv b' \<and> isClosing c b')
    | UB \<Rightarrow> receive_frame env (onClose (Suc n) env) c b = Undef"
proof (cases "decode (env_MaxPacketSize env) (ch_buffer ch)")
  case (Ret pack)
  show ?thesis
  proof (cases pack)
    case None
    then show ?thesis using Ret assms(2) by (simp add: receive_frame_def prog_simps liftP_def)
  next
    case (Some pkt)
    have "decode (env_MaxPacketSize env) (ch_buffer ch) \<noteq> UB" using Ret by simp
    then obtain b' where b': "receive_frame env (onClose (Suc n) env) c b = Ok () b'" "broker_inv b'"
      using wp_Ok_unit [OF engine.receive_frame_inv [OF assms]] by blast
    show ?thesis
    proof (cases "byChannel c b")
      case None
      then show ?thesis
        using Ret Some b' assms(2)
        by (auto simp: receive_frame_def prog_simps liftP_def channel_on_packet_def byChannel_def)
    next
      case (Some x)
      then show ?thesis
        using Ret \<open>pack = Some pkt\<close> b' assms(2)
        by (auto simp: receive_frame_def prog_simps liftP_def channel_on_packet_def byChannel_def onPacket_def
            whenP_def split: if_splits)
    qed
  qed
next
  case (Throw e)
  have eq: "receive_frame env (onClose (Suc n) env) c b = requestClose (onClose (Suc n) env) c e b"
    using Throw assms(2) by (simp add: receive_frame_def prog_simps liftP_def)
  have "wp (requestClose (onClose (Suc n) env) c e) (\<lambda>_ b'. broker_inv b' \<and> isClosing c b') never b"
    by (rule requestClose_closes [OF assms(1)])
  then show ?thesis using Throw eq wp_Ok_unit [of "requestClose (onClose (Suc n) env) c e"] by simp
next
  case UB
  then show ?thesis using assms(2) by (simp add: receive_frame_def prog_simps liftP_def)
qed

lemma receive_frame_outcomes_instance:
  "\<exists>b'. receive_frame demo_env (onClose 1 demo_env) 0 (upd_chan 0 (\<lambda>ch. ch\<lparr>ch_buffer := [0xC0, 0x00]\<rparr>) demo_broker) = Ok () b' \<and>
     broker_inv b' \<and> b_requests b' = [(1, \<lparr>pkt_type = Pingreq, pkt_body = EmptyBody\<rparr>)]"
proof -
  let ?b = "upd_chan 0 (\<lambda>ch. ch\<lparr>ch_buffer := [0xC0, 0x00]\<rparr>) demo_broker"
  let ?ch = "(channel_new 64 0)\<lparr>ch_buffer := [0xC0, 0x00]\<rparr>"
  have dec: "decode (env_MaxPacketSize demo_env) (ch_buffer ?ch) = Ret (Some \<lparr>pkt_type = Pingreq, pkt_body = EmptyBody\<rparr>)"
    by (simp add: demo_env_def decode_def deserializePacket_def) code_simp
  have ch: "b_chans ?b 0 = Some ?ch" by (simp add: demo_broker_def)
  have inv: "broker_inv ?b" using demo_inv by simp
  have req: "byChannel 0 ?b = Some 1" "b_requests ?b = []"
    by (simp_all add: byChannel_def demo_broker_def broker_init_def)
  show ?thesis
    using receive_frame_outcomes [OF inv ch, of demo_env 0]
    unfolding dec outcome.case option.case req append_Nil One_nat_def by blast
qed

text \<open>
  C25. The retransmission pass returns, in any iteration order, when no in-flight message has
  used up its retries: it closes no channel and keeps the invariant.
\<close>

theorem retransmission_returns:
  assumes "broker_inv b" "mset chan_order = mset (map fst (b_by_channel b))"
    and "\<And>x. distinct (pid_order x) \<and> set (pid_order x) = dom (cc_out_inflight (b_ctxs b x))"
    and "\<And>x pid out. cc_out_inflight (b_ctxs b x) pid = Some out \<Longrightarrow> oi_retry_count out < cc_max_retries (b_ctxs b x)"
  shows "\<exists>b'. tick_retransmission on_close chan_order pid_order b = Ok () b' \<and> broker_inv b' \<and>
           b_by_channel b' = b_by_channel b"
proof -
  have chans: "channels_ok (b_by_channel b) (b_ctxs b) (b_next_ref b)"
    using assms(1) by (simp add: broker_inv_def)
  have keys: "set chan_order = fst ` set (b_by_channel b)"
    using mset_eq_setD [OF assms(2)] by simp
  have "distinct chan_order"
    using mset_eq_imp_distinct_iff [OF assms(2)] chans by (simp add: channels_ok_def)
  moreover have "\<exists>x. byChannel key b = Some x" if "key \<in> set chan_order" for key
    using that unfolding keys byChannel_def by (meson map_of_eq_None_iff not_None_eq)
  moreover have "below_limit (b_ctxs b x) pid" if "pid \<in> set (pid_order x)" for x pid
    using that assms(3,4) by (auto simp: below_limit_def split: option.split)
  ultimately have "wp (checkRetransmission on_close (b_now b) chan_order pid_order)
      (\<lambda>_ b'. broker_inv b' \<and> b_by_channel b' = b_by_channel b) never b"
    using assms(3) by (intro checkRetransmission_kept [OF assms(1)]) blast+
  then obtain b' where "checkRetransmission on_close (b_now b) chan_order pid_order b = Ok () b'"
      "broker_inv b' \<and> b_by_channel b' = b_by_channel b"
    using wp_Ok_unit [of _ "\<lambda>b'. broker_inv b' \<and> b_by_channel b' = b_by_channel b"] by blast
  then show ?thesis by (simp add: tick_retransmission_def catchP_apply)
qed

theorem retransmission_returns_witness:
  "\<exists>b'. tick_retransmission (onClose 1 demo_env) [0] (\<lambda>_. []) demo_broker = Ok () b' \<and> b_by_channel b' = [(0, 1)]"
proof -
  have ctx: "cc_out_inflight (b_ctxs demo_broker x) = (\<lambda>_. None)" for x
    by (simp add: demo_broker_def demo_client_def no_context_def new_context_def)
  have tab: "b_by_channel demo_broker = [(0, 1)]" by (simp add: demo_broker_def)
  show ?thesis
    using retransmission_returns [OF demo_inv, of "[0]" "\<lambda>_. []" "onClose 1 demo_env"] by (auto simp: ctx tab)
qed

text \<open>
  C28. When the first message of a pass has used up its retries, closing its channel erases the
  entry of the table the pass is iterating over, and the pass has undefined behaviour.
\<close>

theorem retransmission_limit_undefined:
  assumes "broker_inv b" "byChannel c b = Some x" "lock_channel x b = Some (c, ch)" "\<not> ch_closing ch"
    and "cc_out_inflight (b_ctxs b x) pid = Some out" "cc_max_retries (b_ctxs b x) \<le> oi_retry_count out"
    and "chan_order = c # cs" "pid_order x = pid # pids"
  shows "tick_retransmission (onClose (Suc n) env) chan_order pid_order b = Undef"
proof -
  have "wp (onClose (Suc n) env c ''retry limit reached'') (\<lambda>_ b'. byChannel c b' = None) never b"
    by (rule onClose_removes [OF assms(1)])
  then have "wp (requestClose (onClose (Suc n) env) c ''retry limit reached'') (\<lambda>_ b'. byChannel c b' = None) never b"
    unfolding requestClose_def wp_bindP wp_prim
    using assms(3,4) by (auto simp: isClosing_def lock_channel_def channel_close_def byChannel_def split: option.splits)
  then obtain b' where close: "requestClose (onClose (Suc n) env) c ''retry limit reached'' b = Ok () b'" "byChannel c b' = None"
    using wp_Ok_unit [of _ "\<lambda>b'. byChannel c b' = None"] by blast
  have "retransmit_items (onClose (Suc n) env) (b_now b) x c (pid # pids) b = Ok () b'"
    using assms(5,6) close by (simp del: onClose.simps)
  then have "retransmit_client (onClose (Suc n) env) (b_now b) pid_order c b = Undef"
    using assms(2,3,4,8) close(2)
    by (simp add: retransmit_client_def seqP_apply del: onClose.simps retransmit_items.simps)
  then show ?thesis
    using assms(7) by (simp add: tick_retransmission_def checkRetransmission_def catchP_apply seqP_apply del: onClose.simps)
qed

theorem retransmission_limit_undefined_witness:
  "tick_retransmission (onClose (Suc 0) demo_env) [0] (\<lambda>_. [7]) (upd_ctx 1 (\<lambda>ctx. ctx\<lparr>cc_out_inflight :=
     [7 \<mapsto> \<lparr>oi_qos = AtLeastOnce, oi_pubrel_sent = False, oi_topic = ''t'', oi_payload = [], oi_source_client = ''b'',
            oi_sent_time = 0, oi_retry_count = 10\<rparr>]\<rparr>) demo_broker) = Undef" (is "tick_retransmission _ _ _ ?b = Undef")
proof -
  have "ctx_ok (b_ctxs demo_broker 1)" by (rule inv_ctx [OF demo_inv])
  then have inv: "broker_inv ?b"
    by (intro inv_upd_ctx [OF demo_inv]) (auto simp: ctx_ok_def small_item_def)
  have chan: "byChannel 0 ?b = Some 1" "lock_channel 1 ?b = Some (0, channel_new 64 0)" "\<not> ch_closing (channel_new 64 0)"
    by (simp_all add: byChannel_def lock_channel_def demo_broker_def demo_client_def new_context_def channel_new_def)
  have out: "cc_out_inflight (b_ctxs ?b 1) 7 = Some \<lparr>oi_qos = AtLeastOnce, oi_pubrel_sent = False, oi_topic = ''t'',
      oi_payload = [], oi_source_client = ''b'', oi_sent_time = 0, oi_retry_count = 10\<rparr>" by simp
  have "cc_max_retries (b_ctxs ?b 1) \<le> 10"
    by (simp add: demo_broker_def demo_client_def no_context_def new_context_def)
  then show ?thesis
    using retransmission_limit_undefined [OF inv chan out _ refl refl] by simp
qed

end
