(* ===== verification/Routing.thy ===== *)
theory Routing
  imports Delivery Scenario
begin

text \<open>
  What routing does to a message: which clients it is for and at what quality of service, in
  terms of the sessions' own lists of subscriptions, and what each of them gets.
\<close>

section \<open>Who a message is for\<close>

text \<open>The effective qualities of service of the subscriptions of a client that match a message.\<close>

definition interests :: "Broker \<Rightarrow> Message \<Rightarrow> string \<Rightarrow> Qos set" where
  "interests b msg cid =
     {min_qos q (m_qos msg) | s v f q. map_of (b_sessions b) cid = Some s \<and> b_sess b s = Some v \<and>
        \<lparr>sb_filter = f, sb_qos = q\<rparr> \<in> set (s_subscriptions v) \<and> isTopicMatchesFilter f (m_topic msg)}"

lemma interests_list:
  assumes "map_of (b_sessions b) cid = Some s" "b_sess b s = Some v"
  shows "interests b msg cid = set (map (\<lambda>sub. min_qos (sb_qos sub) (m_qos msg))
           (filter (\<lambda>sub. isTopicMatchesFilter (sb_filter sub) (m_topic msg)) (s_subscriptions v)))"
proof (rule set_eqI)
  fix e
  have "(\<exists>f q. e = min_qos q (m_qos msg) \<and> \<lparr>sb_filter = f, sb_qos = q\<rparr> \<in> set ss \<and> isTopicMatchesFilter f (m_topic msg)) \<longleftrightarrow>
      (\<exists>sub \<in> set ss. e = min_qos (sb_qos sub) (m_qos msg) \<and> isTopicMatchesFilter (sb_filter sub) (m_topic msg))"
    for ss :: "Subscription list"
    by (metis Subscription.cases Subscription.select_convs)
  from this [of "s_subscriptions v"]
  show "e \<in> interests b msg cid \<longleftrightarrow> e \<in> set (map (\<lambda>sub. min_qos (sb_qos sub) (m_qos msg))
      (filter (\<lambda>sub. isTopicMatchesFilter (sb_filter sub) (m_topic msg)) (s_subscriptions v)))"
    using assms by (auto simp: interests_def)
qed

definition effective :: "(session_ref \<Rightarrow> Session option) \<Rightarrow> Message \<Rightarrow> Match list \<Rightarrow> string \<Rightarrow> Qos set" where
  "effective sess msg ms cid =
     {min_qos (mt_qos m) (m_qos msg) | m v. m \<in> set ms \<and> sess (mt_session m) = Some v \<and> s_client_id v = cid}"

lemma effective_Nil [simp]: "effective sess msg [] cid = {}"
  by (simp add: effective_def)

lemma effective_snoc:
  "effective sess msg (ms @ [m]) cid =
     (case sess (mt_session m) of
        Some v \<Rightarrow> if s_client_id v = cid then insert (min_qos (mt_qos m) (m_qos msg)) (effective sess msg ms cid)
                  else effective sess msg ms cid
      | None \<Rightarrow> effective sess msg ms cid)"
  by (auto simp: effective_def split: option.split)

lemma finite_Qos: "finite (A :: Qos set)"
proof (rule finite_subset)
  show "A \<subseteq> {AtMostOnce, AtLeastOnce, ExactlyOnce}" by (auto intro: Qos.exhaust)
qed simp

lemma max_Qos_step:
  "(if qos_val e > qos_val q then e else q) = max e q" "max e AtMostOnce = e"
  by (auto simp: max_def less_eq_Qos_def) (cases e; simp)+

lemma best_fold:
  fixes sess :: "session_ref \<Rightarrow> Session option" and msg :: Message
  defines "acc ms \<equiv> fold (best_step sess msg) ms ([], (\<lambda>_. None))"
  shows "distinct (map fst (fst (acc ms))) \<and>
    (\<forall>cid. map_of (fst (acc ms)) cid = (if effective sess msg ms cid = {} then None else Some (Max (effective sess msg ms cid)))) \<and>
    (\<forall>cid. (snd (acc ms) cid = None \<longleftrightarrow> effective sess msg ms cid = {})) \<and>
    (\<forall>cid s clean. snd (acc ms) cid = Some (s, clean) \<longrightarrow> (\<exists>v. sess s = Some v \<and> s_client_id v = cid \<and> s_clean_session v = clean))"
proof (induction ms rule: rev_induct)
  case Nil
  then show ?case by (simp add: acc_def)
next
  case (snoc m ms)
  show ?case
  proof (cases "sess (mt_session m)")
    case None
    then show ?thesis using snoc.IH by (simp add: acc_def best_step_def effective_snoc)
  next
    case (Some v)
    obtain best smap where am: "acc ms = (best, smap)" by (cases "acc ms")
    let ?e = "min_qos (mt_qos m) (m_qos msg)"
    let ?q = "case map_of best (s_client_id v) of Some q \<Rightarrow> q | None \<Rightarrow> AtMostOnce"
    have acc: "acc (ms @ [m]) = (AList.update (s_client_id v) (max ?e ?q) best,
        smap(s_client_id v \<mapsto> (mt_session m, s_clean_session v)))"
      using am Some by (simp add: acc_def best_step_def Let_def max_Qos_step)
    have "max ?e ?q = Max (insert ?e (effective sess msg ms (s_client_id v)))"
      using snoc.IH am finite_Qos by (auto simp: max_Qos_step Max_insert split: option.split if_splits)
    then show ?thesis
      using snoc.IH am Some unfolding acc
      by (auto simp: effective_snoc update_conv' distinct_update)
  qed
qed

lemma find_subscription:
  "distinct (map sb_filter ss) \<Longrightarrow>
   map_option sb_qos (find (\<lambda>sub. sb_filter sub = f) ss) = Some q \<longleftrightarrow> \<lparr>sb_filter = f, sb_qos = q\<rparr> \<in> set ss"
  for ss :: "Subscription list"
proof (induction ss)
  case (Cons a ss)
  obtain g p where "a = \<lparr>sb_filter = g, sb_qos = p\<rparr>" by (cases a)
  then show ?case using Cons by (auto simp: rev_image_eqI)
qed simp

lemma interests_effective:
  assumes inv: "broker_inv b" and t: "\<not> isTopicNameInvalid (m_topic msg)"
  shows "effective (b_sess b) msg (topic_match (b_topics b) (m_topic msg)) cid = interests b msg cid"
proof -
  have tree: "tree_inv (b_topics b)" and subs: "subscription (b_topics b) s f = listed (b_sess b s) f"
    and dist: "b_sess b s = Some v \<Longrightarrow> distinct (map sb_filter (s_subscriptions v))" for s f v
    using inv by (simp_all add: broker_inv_def subs_ok_def)
  have listed_iff: "listed (b_sess b s) f = Some q \<longleftrightarrow> \<lparr>sb_filter = f, sb_qos = q\<rparr> \<in> set (s_subscriptions v)"
    if "b_sess b s = Some v" for s f q v
    unfolding listed_def that option.case using dist [OF that] by (rule find_subscription)
  have iff: "m \<in> set (topic_match (b_topics b) (m_topic msg)) \<longleftrightarrow>
      \<lparr>sb_filter = mt_filter m, sb_qos = mt_qos m\<rparr> \<in> set (s_subscriptions v) \<and> isTopicMatchesFilter (mt_filter m) (m_topic msg)"
    if "b_sess b (mt_session m) = Some v" for m v
    using tree.matching_iff [OF tree t, of m] listed_iff [OF that] by (simp add: subs)
  have id: "b_sess b s = Some v \<and> s_client_id v = cid \<longleftrightarrow> map_of (b_sessions b) cid = Some s \<and> b_sess b s = Some v" for s v
    using sessions_okD(1,2) [OF inv_sessions [OF inv]] by fastforce
  show ?thesis
    unfolding effective_def interests_def
  proof (intro set_eqI iffI; clarify)
    fix m v assume "m \<in> set (topic_match (b_topics b) (m_topic msg))" "b_sess b (mt_session m) = Some v" "cid = s_client_id v"
    then show "\<exists>s v' f q. min_qos (mt_qos m) (m_qos msg) = min_qos q (m_qos msg) \<and> map_of (b_sessions b) (s_client_id v) = Some s \<and>
        b_sess b s = Some v' \<and> \<lparr>sb_filter = f, sb_qos = q\<rparr> \<in> set (s_subscriptions v') \<and> isTopicMatchesFilter f (m_topic msg)"
      using id iff by blast
  next
    fix s v f q assume "map_of (b_sessions b) cid = Some s" "b_sess b s = Some v"
      "\<lparr>sb_filter = f, sb_qos = q\<rparr> \<in> set (s_subscriptions v)" "isTopicMatchesFilter f (m_topic msg)"
    then show "\<exists>m v. min_qos q (m_qos msg) = min_qos (mt_qos m) (m_qos msg) \<and>
        m \<in> set (topic_match (b_topics b) (m_topic msg)) \<and> b_sess b (mt_session m) = Some v \<and> s_client_id v = cid"
      using id iff [of "\<lparr>mt_session = s, mt_filter = f, mt_qos = q\<rparr>" v]
      by (intro exI [of _ "\<lparr>mt_session = s, mt_filter = f, mt_qos = q\<rparr>"] exI [of _ v]) auto
  qed
qed

lemma best_maps_spec:
  assumes inv: "broker_inv b" and t: "\<not> isTopicNameInvalid (m_topic msg)"
  shows "distinct (map fst (fst (best_maps b msg)))"
    and "map_of (fst (best_maps b msg)) cid = (if interests b msg cid = {} then None else Some (Max (interests b msg cid)))"
    and "snd (best_maps b msg) cid = None \<longleftrightarrow> interests b msg cid = {}"
    and "snd (best_maps b msg) cid = Some (s, clean) \<Longrightarrow>
           map_of (b_sessions b) cid = Some s \<and> (\<exists>v. b_sess b s = Some v \<and> s_client_id v = cid \<and> s_clean_session v = clean)"
  using best_fold [of "b_sess b" msg "topic_match (b_topics b) (m_topic msg)"] sessions_okD(2) [OF inv_sessions [OF inv]]
  unfolding interests_effective [OF inv t] best_maps_def by blast+

section \<open>What each client gets\<close>

text \<open>A loop in which only one iteration touches a part of the state.\<close>

lemma fold_local:
  assumes "distinct xs" "I s" "\<And>y s. I s \<Longrightarrow> I (f y s)"
    and "\<And>y s. I s \<Longrightarrow> y \<in> set xs \<Longrightarrow> y \<noteq> x \<Longrightarrow> proj (f y s) = proj s"
    and "\<And>s. I s \<Longrightarrow> proj (f x s) = g (proj s)"
  shows "proj (fold f xs s) = (if x \<in> set xs then g (proj s) else proj s)"
  using assms
proof (induction xs arbitrary: s)
  case (Cons y xs)
  have "proj (fold f xs (f y s)) = (if x \<in> set xs then g (proj (f y s)) else proj (f y s))"
    using Cons.prems by (intro Cons.IH) auto
  moreover have "proj (f y s) = proj s" if "y \<noteq> x" using Cons.prems that by simp
  ultimately show ?case using Cons.prems by (cases "y = x") auto
qed simp

definition route_step :: "Message \<Rightarrow> route_maps \<Rightarrow> string \<Rightarrow> Broker \<Rightarrow> Broker" where
  "route_step msg maps cid b = (case map_of (fst maps) cid of
     Some q \<Rightarrow> routed_one msg (snd maps) cid q b | None \<Rightarrow> b)"

lemma routed_fold: "routed msg maps xs b = fold (route_step msg maps) xs b"
  unfolding routed_def route_step_def [abs_def] ..

text \<open>While a message is handed out nobody goes offline or comes online.\<close>

definition same_status :: "Broker \<Rightarrow> Broker \<Rightarrow> bool" where
  "same_status b b' \<longleftrightarrow> b_now b' = b_now b \<and> (\<forall>cid. online cid b' = online cid b)"

lemma online_delivered [simp]: "online cid (delivered x c msg q r d b) = online cid b"
  by (simp add: online_def byId_def split: option.split)

lemma open_channel_outbox [simp]: "open_channel x (b\<lparr>b_outbox := ob\<rparr>) = open_channel x b"
  by (simp add: open_channel_alt split: option.split)

lemma online_outbox [simp]: "online cid (b\<lparr>b_outbox := ob\<rparr>) = online cid b"
  by (simp add: online_def byId_def split: option.split)

lemma same_status_refl: "same_status b b"
  by (simp add: same_status_def)

lemma same_status_step: "same_status b b' \<Longrightarrow> same_status b (route_step msg maps cid b')"
  by (auto simp: same_status_def route_step_def routed_one_def split: option.split prod.split)

lemma route_queue:
  assumes inv: "broker_inv b" and t: "\<not> isTopicNameInvalid (m_topic msg)"
    and v: "b_sess b s = Some v" and xs: "mset xs = mset (map fst (fst (best_maps b msg)))"
  defines "Q \<equiv> interests b msg (s_client_id v)"
  shows "outbox_queue (b_outbox (routed msg (best_maps b msg) xs b)) s =
     (if Q \<noteq> {} \<and> online (s_client_id v) b = None \<and> \<not> s_clean_session v
      then outbox_queue (outbox_enqueue (b_outbox b) s msg (Max Q) False) s else outbox_queue (b_outbox b) s)"
proof -
  note spec = best_maps_spec [OF inv t]
  have tab: "map_of (b_sessions b) (s_client_id v) = Some s"
    using sessions_okD(2) [OF inv_sessions [OF inv] v] .
  have dist: "distinct xs" using mset_eq_imp_distinct_iff [OF xs] spec(1) by simp
  have set_xs: "cid \<in> set xs \<longleftrightarrow> interests b msg cid \<noteq> {}" for cid
    using mset_eq_setD [OF xs] spec(2) [of cid] map_of_eq_None_iff [of "fst (best_maps b msg)" cid] by (auto split: if_splits)
  have other: "outbox_queue (b_outbox (route_step msg (best_maps b msg) cid b')) s = outbox_queue (b_outbox b') s"
    if "cid \<noteq> s_client_id v" for cid b'
    using that spec(4) [of cid s] v
    by (auto simp: route_step_def routed_one_def queue_enqueue split: option.split)
  have this_one: "outbox_queue (b_outbox (route_step msg (best_maps b msg) (s_client_id v) b')) s =
      (if online (s_client_id v) b = None \<and> \<not> s_clean_session v \<and> Q \<noteq> {} \<and> Max Q \<noteq> AtMostOnce
       then (if length (outbox_queue (b_outbox b') s) \<ge> MaxQueueSize then tl (outbox_queue (b_outbox b') s)
             else outbox_queue (b_outbox b') s) @ [\<lparr>om_msg = msg, om_granted_qos = Max Q, om_retained = False\<rparr>]
       else outbox_queue (b_outbox b') s)" if "same_status b b'" for b'
    using that spec(2) [of "s_client_id v"] spec(3) [of "s_client_id v"] spec(4) [of "s_client_id v"] tab v
    by (auto simp: route_step_def routed_one_def queue_enqueue same_status_def Q_def split: option.split if_splits)
  have "outbox_queue (b_outbox (fold (route_step msg (best_maps b msg)) xs b)) s =
     (if s_client_id v \<in> set xs then
        (\<lambda>qu. if online (s_client_id v) b = None \<and> \<not> s_clean_session v \<and> Q \<noteq> {} \<and> Max Q \<noteq> AtMostOnce
          then (if length qu \<ge> MaxQueueSize then tl qu else qu) @ [\<lparr>om_msg = msg, om_granted_qos = Max Q, om_retained = False\<rparr>]
          else qu) (outbox_queue (b_outbox b) s)
      else outbox_queue (b_outbox b) s)"
    by (rule fold_local [where I = "same_status b" and proj = "\<lambda>b. outbox_queue (b_outbox b) s", OF dist])
       (simp_all add: same_status_def other this_one same_status_step [unfolded same_status_def])
  then show ?thesis
    unfolding routed_fold set_xs by (auto simp: queue_enqueue Q_def)
qed

text \<open>The part of the state that a delivery touches: one context and one channel.\<close>

definition endpoint_of :: "ctx_ref \<Rightarrow> chan_ref \<Rightarrow> Broker \<Rightarrow> ClientContext \<times> Channel option" where
  "endpoint_of x c b = (b_ctxs b x, b_chans b c)"

lemma delivered_local:
  assumes "b_now b' = b_now b"
  shows "endpoint_of x c (delivered x c msg q r d b') =
    (\<lambda>(ctx, och). endpoint_of x c (delivered x c msg q r d
       (b\<lparr>b_ctxs := (b_ctxs b)(x := ctx), b_chans := (b_chans b)(c := och)\<rparr>))) (endpoint_of x c b')"
  using assms
  by (simp add: endpoint_of_def delivered_def Let_def send_bytes_def split: outcome.split prod.split bool.split)

lemma endpoint_other:
  "y \<noteq> x \<Longrightarrow> c' \<noteq> c \<Longrightarrow> endpoint_of x c (delivered y c' msg q r d b) = endpoint_of x c b"
  by (simp add: endpoint_of_def delivered_other)

lemma online_channel: "broker_inv b \<Longrightarrow> online cid b = Some (x, c) \<Longrightarrow> x = Suc c"
  using inv_channel_ref [of b x c]
  by (auto simp: online_def open_channel_def lock_channel_def split: option.splits if_splits)

lemma route_endpoint:
  assumes inv: "broker_inv b" and t: "\<not> isTopicNameInvalid (m_topic msg)"
    and xs: "mset xs = mset (map fst (fst (best_maps b msg)))"
    and on: "online cid b = Some (x, c)"
    and alone: "\<And>cid' x' c'. interests b msg cid' \<noteq> {} \<Longrightarrow> cid' \<noteq> cid \<Longrightarrow> online cid' b = Some (x', c') \<Longrightarrow> x' \<noteq> x"
  shows "endpoint_of x c (routed msg (best_maps b msg) xs b) =
     (if interests b msg cid = {} then endpoint_of x c b
      else endpoint_of x c (delivered x c msg (Max (interests b msg cid)) False False b))"
proof -
  note spec = best_maps_spec [OF inv t]
  define g where "g = (\<lambda>(ctx, och). endpoint_of x c (delivered x c msg (Max (interests b msg cid)) False False
       (b\<lparr>b_ctxs := (b_ctxs b)(x := ctx), b_chans := (b_chans b)(c := och)\<rparr>)))"
  have dist: "distinct xs" using mset_eq_imp_distinct_iff [OF xs] spec(1) by simp
  have set_xs: "cid \<in> set xs \<longleftrightarrow> interests b msg cid \<noteq> {}" for cid
    using mset_eq_setD [OF xs] spec(2) [of cid] map_of_eq_None_iff [of "fst (best_maps b msg)" cid] by (auto split: if_splits)
  have other: "endpoint_of x c (route_step msg (best_maps b msg) cid' b') = endpoint_of x c b'"
    if "same_status b b'" "cid' \<in> set xs" "cid' \<noteq> cid" for cid' b'
  proof (cases "online cid' b")
    case None
    then show ?thesis using that(1)
      by (auto simp: route_step_def routed_one_def same_status_def endpoint_of_def split: option.split)
  next
    case (Some p)
    then have "snd p \<noteq> c" if "fst p \<noteq> x" using that online_channel [OF inv on] online_channel [OF inv, of cid' "fst p" "snd p"] by auto
    then show ?thesis using Some that alone [of cid'] set_xs
      by (cases p) (auto simp: route_step_def routed_one_def same_status_def endpoint_other split: option.split)
  qed
  have step: "route_step msg (best_maps b msg) cid b' =
      (if interests b msg cid = {} then b' else delivered x c msg (Max (interests b msg cid)) False False b')"
    if "same_status b b'" for b'
    using that on spec(2) [of cid] by (simp add: route_step_def routed_one_def same_status_def)
  show ?thesis
  proof (cases "interests b msg cid = {}")
    case True
    have "endpoint_of x c (fold (route_step msg (best_maps b msg)) xs b) =
        (if cid \<in> set xs then endpoint_of x c b else endpoint_of x c b)"
      by (rule fold_local [where I = "same_status b" and g = "\<lambda>p. p", OF dist])
         (simp_all add: same_status_refl same_status_step other step True)
    then show ?thesis using True by (simp add: routed_fold)
  next
    case False
    have own: "endpoint_of x c (route_step msg (best_maps b msg) cid b') = g (endpoint_of x c b')"
      if "same_status b b'" for b'
      using delivered_local [of b' b] that False by (simp add: step same_status_def g_def)
    have "endpoint_of x c (fold (route_step msg (best_maps b msg)) xs b) =
        (if cid \<in> set xs then g (endpoint_of x c b) else endpoint_of x c b)"
      by (rule fold_local [where I = "same_status b", OF dist])
         (simp_all add: same_status_refl same_status_step other own del: split_paired_All)
    then show ?thesis
      using False set_xs [of cid] by (simp add: routed_fold endpoint_of_def g_def)
  qed
qed

section \<open>Properties\<close>

text \<open>
  C13. The first loop of \<open>route\<close> computes, for every client whose session lists a subscription
  that matches the topic, and for no other, the highest effective quality of service over all
  its matching subscriptions, once per client, together with its session.
\<close>

theorem route_best_qos:
  assumes "broker_inv b" "\<not> isTopicNameInvalid (m_topic msg)"
  shows "distinct (map fst (fst (best_maps b msg))) \<and>
    map_of (fst (best_maps b msg)) cid = (if interests b msg cid = {} then None else Some (Max (interests b msg cid))) \<and>
    snd (best_maps b msg) cid = (if interests b msg cid = {} then None
       else map_option (\<lambda>s. (s, s_clean_session (the (b_sess b s)))) (map_of (b_sessions b) cid))"
proof -
  note spec = best_maps_spec [OF assms]
  have "snd (best_maps b msg) cid = (if interests b msg cid = {} then None
       else map_option (\<lambda>s. (s, s_clean_session (the (b_sess b s)))) (map_of (b_sessions b) cid))"
  proof (cases "snd (best_maps b msg) cid")
    case (Some p)
    obtain s clean where "p = (s, clean)" by (cases p)
    with Some spec(4) [of cid s clean] obtain v where "map_of (b_sessions b) cid = Some s" "b_sess b s = Some v" "clean = s_clean_session v"
      by auto
    then show ?thesis using spec(3) [of cid] Some \<open>p = (s, clean)\<close> by simp
  qed (use spec(3) [of cid] in simp)
  then show ?thesis using spec(1,2) by blast
qed

text \<open>Two subscribers of one topic: \<open>a\<close>, online, with two overlapping subscriptions, and \<open>b\<close>, offline.\<close>

definition demo_subscribe :: "session_ref \<Rightarrow> string \<Rightarrow> Qos \<Rightarrow> Broker \<Rightarrow> Broker" where
  "demo_subscribe s f q b = upd_sess s (\<lambda>v. v\<lparr>s_subscriptions := update_subscription f q (s_subscriptions v)\<rparr>)
     (b\<lparr>b_topics := topic_add (b_topics b) s f q\<rparr>)"

definition demo_subscribed :: Broker where
  "demo_subscribed = demo_subscribe 3 ''a/#'' AtLeastOnce
     (demo_subscribe 2 ''+/b'' ExactlyOnce (demo_subscribe 2 ''a/#'' AtMostOnce demo_broker))"

definition demo_msg :: Message where
  "demo_msg = \<lparr>m_topic = ''a/b'', m_payload = ''x'', m_qos = ExactlyOnce, m_retain = False, m_source_client = ''c''\<rparr>"

lemma demo_sess:
  "b_sess demo_subscribed = [2 \<mapsto> (demo_session ''a'')\<lparr>s_subscriptions :=
       [\<lparr>sb_filter = ''a/#'', sb_qos = AtMostOnce\<rparr>, \<lparr>sb_filter = ''+/b'', sb_qos = ExactlyOnce\<rparr>]\<rparr>,
     3 \<mapsto> (demo_session ''b'')\<lparr>s_subscriptions := [\<lparr>sb_filter = ''a/#'', sb_qos = AtLeastOnce\<rparr>]\<rparr>]"
  by (rule ext) (simp add: demo_subscribed_def demo_subscribe_def demo_broker_def demo_session_def)

lemma demo_frame [simp]:
  "b_sessions demo_subscribed = [(''a'', 2), (''b'', 3)]" "b_ctxs demo_subscribed = b_ctxs demo_broker"
  "b_by_id demo_subscribed = [''a'' \<mapsto> 1]" "b_chans demo_subscribed = [0 \<mapsto> channel_new 64 0]" "b_outbox demo_subscribed = []"
  by (simp_all add: demo_subscribed_def demo_subscribe_def demo_broker_def broker_init_def)

lemma demo_subscribed_inv: "broker_inv demo_subscribed"
proof -
  have step: "broker_inv (demo_subscribe s f q b)"
    if "broker_inv b" "b_sess b s \<noteq> None" "\<not> isTopicFilterInvalid f" for s f q b
    using that inv_subscribe [of b s] unfolding demo_subscribe_def by auto
  show ?thesis
    unfolding demo_subscribed_def
    by (intro step demo_inv sample_filters) (simp_all add: demo_subscribe_def demo_broker_def)
qed

lemma demo_topic: "\<not> isTopicNameInvalid (m_topic demo_msg)" "small_msg demo_msg"
  by (simp_all add: demo_msg_def isTopicNameInvalid_def small_msg_def)

lemma demo_interests:
  "interests demo_subscribed demo_msg ''a'' = {AtMostOnce, ExactlyOnce}"
  "interests demo_subscribed demo_msg ''b'' = {AtLeastOnce}"
proof -
  have "isTopicMatchesFilter ''a/#'' ''a/b''" "isTopicMatchesFilter ''+/b'' ''a/b''"
    by (simp_all add: isTopicMatchesFilter_def splitTopic_def splitTopic_loop.simps)
  then show "interests demo_subscribed demo_msg ''a'' = {AtMostOnce, ExactlyOnce}"
      "interests demo_subscribed demo_msg ''b'' = {AtLeastOnce}"
    by (simp_all add: interests_list demo_sess demo_msg_def min_qos_def)
qed

lemma demo_max: "Max {AtMostOnce, ExactlyOnce} = ExactlyOnce"
  by (simp add: max_def less_eq_Qos_def)

theorem route_best_qos_witness:
  "map_of (fst (best_maps demo_subscribed demo_msg)) ''a'' = Some ExactlyOnce"
  using route_best_qos [OF demo_subscribed_inv demo_topic(1), of "''a''"] by (simp add: demo_interests demo_max)

text \<open>
  C4. Routing returns and does the following, whatever the order in which the table of
  recipients is iterated: a persistent session that is offline and has a matching subscription
  gets the message in its offline queue once, at the highest effective quality of service; no
  other queue changes; and a client that is online gets exactly one PUBLISH at that quality of
  service on its channel, or nothing when none of its subscriptions matches. The condition is
  that no other recipient's identifier leads to the same connection.
\<close>

theorem route_delivers_once:
  assumes inv: "broker_inv b" and small: "small_msg msg" and t: "\<not> isTopicNameInvalid (m_topic msg)"
    and order: "\<And>cids. mset (env_order env cids) = mset cids"
  shows "\<exists>b'. route env on_close msg b = Ok () b' \<and> broker_inv b' \<and>
    (\<forall>s v. b_sess b s = Some v \<longrightarrow> outbox_queue (b_outbox b') s =
       (if interests b msg (s_client_id v) \<noteq> {} \<and> online (s_client_id v) b = None \<and> \<not> s_clean_session v
        then outbox_queue (outbox_enqueue (b_outbox b) s msg (Max (interests b msg (s_client_id v))) False) s
        else outbox_queue (b_outbox b) s)) \<and>
    (\<forall>cid x c. online cid b = Some (x, c) \<longrightarrow>
       (\<forall>cid' x' c'. interests b msg cid' \<noteq> {} \<longrightarrow> cid' \<noteq> cid \<longrightarrow> online cid' b = Some (x', c') \<longrightarrow> x' \<noteq> x) \<longrightarrow>
       endpoint_of x c b' =
         (if interests b msg cid = {} then endpoint_of x c b
          else endpoint_of x c (delivered x c msg (Max (interests b msg cid)) False False b)))"
proof -
  let ?b' = "routed msg (best_maps b msg) (env_order env (map fst (fst (best_maps b msg)))) b"
  have eq: "route env on_close msg b = Ok () ?b'" by (rule route_eq [OF small])
  have "broker_inv ?b'" using wp_OkD [OF wp_route_inv [OF inv small] eq] by simp
  with eq show ?thesis
    using route_queue [OF inv t _ order] route_endpoint [OF inv t order] by blast
qed

theorem route_delivers_once_witness:
  "\<exists>b'. route demo_env (onClose 1 demo_env) demo_msg demo_subscribed = Ok () b' \<and>
     outbox_queue (b_outbox b') 3 = [\<lparr>om_msg = demo_msg, om_granted_qos = AtLeastOnce, om_retained = False\<rparr>] \<and>
     endpoint_of 1 0 b' = endpoint_of 1 0 (delivered 1 0 demo_msg ExactlyOnce False False demo_subscribed)"
proof -
  have order: "mset (env_order demo_env cids) = mset cids" for cids by (simp add: demo_env_def)
  have on: "online cid demo_subscribed = (if cid = ''a'' then Some (1, 0) else None)" for cid
    by (simp add: online_def byId_def open_channel_def lock_channel_def demo_broker_def demo_client_def new_context_def channel_new_def)
  obtain b' where b': "route demo_env (onClose 1 demo_env) demo_msg demo_subscribed = Ok () b'"
    and queue: "\<And>s v. b_sess demo_subscribed s = Some v \<Longrightarrow> outbox_queue (b_outbox b') s =
       (if interests demo_subscribed demo_msg (s_client_id v) \<noteq> {} \<and> online (s_client_id v) demo_subscribed = None \<and> \<not> s_clean_session v
        then outbox_queue (outbox_enqueue (b_outbox demo_subscribed) s demo_msg (Max (interests demo_subscribed demo_msg (s_client_id v))) False) s
        else outbox_queue (b_outbox demo_subscribed) s)"
    and out: "\<And>cid x c. online cid demo_subscribed = Some (x, c) \<Longrightarrow>
       (\<forall>cid' x' c'. interests demo_subscribed demo_msg cid' \<noteq> {} \<longrightarrow> cid' \<noteq> cid \<longrightarrow> online cid' demo_subscribed = Some (x', c') \<longrightarrow> x' \<noteq> x) \<Longrightarrow>
       endpoint_of x c b' = (if interests demo_subscribed demo_msg cid = {} then endpoint_of x c demo_subscribed
          else endpoint_of x c (delivered x c demo_msg (Max (interests demo_subscribed demo_msg cid)) False False demo_subscribed))"
    using route_delivers_once [OF demo_subscribed_inv demo_topic(2,1) order, of "onClose 1 demo_env"] by blast
  have "b_sess demo_subscribed 3 = Some ((demo_session ''b'')\<lparr>s_subscriptions := [\<lparr>sb_filter = ''a/#'', sb_qos = AtLeastOnce\<rparr>]\<rparr>)"
    by (simp add: demo_sess)
  from queue [OF this]
  have "outbox_queue (b_outbox b') 3 = [\<lparr>om_msg = demo_msg, om_granted_qos = AtLeastOnce, om_retained = False\<rparr>]"
    by (simp add: demo_session_def demo_interests on queue_enqueue) (simp add: outbox_queue_def MaxQueueSize_def)
  moreover have "endpoint_of 1 0 b' = endpoint_of 1 0 (delivered 1 0 demo_msg ExactlyOnce False False demo_subscribed)"
    using out [of "''a''" 1 0] by (simp add: on demo_interests demo_max)
  ultimately show ?thesis using b' by blast
qed

end
