(* ===== verification/Protocol.thy ===== *)
theory Protocol
  imports Broker_Safety Routing
begin

text \<open>
  What the packet handlers do, beyond keeping the invariant: the QoS 1 and QoS 2 exchanges, the
  outcome of CONNECT, subscriptions, wills and keep-alive.
\<close>

section \<open>Replies\<close>

definition reply :: "ctx_ref \<Rightarrow> Packet \<Rightarrow> Broker \<Rightarrow> Broker" where
  "reply x pkt b = (case open_channel x b of Some c \<Rightarrow> send_bytes c pkt b | None \<Rightarrow> b)"

lemma lock_channel_live: "lock_channel x b = Some (c, ch) \<Longrightarrow> b_chans b c = Some ch"
  by (auto simp: lock_channel_def split: option.splits)

lemma lock_channel_ctx: "lock_channel x b = Some (c, ch) \<Longrightarrow> cc_channel (b_ctxs b x) = Some c"
  by (auto simp: lock_channel_def split: option.splits)

lemma connAck_eq:
  "t \<in> {Puback, Pubrec, Pubrel, Pubcomp, Unsuback} \<Longrightarrow> connAck on_close x t i b = Ok () (reply x (ack_packet t i) b)"
  using lock_channel_live [of x b]
  by (auto simp: connAck_def reply_def open_channel_def bindP_apply channel_asyncSend_sendable [OF sendable_ack] isClosing_def
      split: option.split)

lemma send_reply_eq: "sendable p \<Longrightarrow> send_reply on_close x p b = Ok () (reply x p b)"
  using lock_channel_live [of x b]
  by (auto simp: send_reply_def reply_def open_channel_def bindP_apply channel_asyncSend_sendable isClosing_def
      split: option.split)

lemma reply_frame [simp, frame_simps]:
  "b_ctxs (reply x p b) = b_ctxs b" "b_outbox (reply x p b) = b_outbox b" "b_retains (reply x p b) = b_retains b"
  "b_delivered (reply x p b) = b_delivered b" "b_sess (reply x p b) = b_sess b" "b_topics (reply x p b) = b_topics b"
  "b_sessions (reply x p b) = b_sessions b" "b_by_id (reply x p b) = b_by_id b" "b_by_channel (reply x p b) = b_by_channel b"
  by (simp_all add: reply_def split: option.split)

section \<open>The publisher's side of QoS 1 and QoS 2\<close>

text \<open>What a delivery leaves alone in every context: everything but the in-flight table.\<close>

definition publisher_side :: "ClientContext \<Rightarrow> ClientContext" where
  "publisher_side ctx = ctx\<lparr>cc_out_inflight := (\<lambda>_. None), cc_next_out_pid := 0\<rparr>"

lemma publisher_side_delivered: "publisher_side (b_ctxs (delivered y c msg q r d b) x) = publisher_side (b_ctxs b x)"
  by (simp add: delivered_def Let_def publisher_side_def)

lemma publisher_side_routed: "publisher_side (b_ctxs (routed msg maps xs b) x) = publisher_side (b_ctxs b x)"
proof (induction xs arbitrary: b)
  case (Cons cid xs)
  have "publisher_side (b_ctxs (routed_one msg smap cid q b) x) = publisher_side (b_ctxs b x)" for smap q
    by (simp add: routed_one_def publisher_side_delivered split: option.split prod.split)
  then show ?case using Cons.IH by (simp add: routed_def split: option.split)
qed (simp add: routed_def)

lemma publisher_sideD:
  assumes "publisher_side ctx = publisher_side ctx'"
  shows "cc_connected ctx = cc_connected ctx'" "cc_client_id ctx = cc_client_id ctx'"
    "cc_awaiting_puback ctx = cc_awaiting_puback ctx'" "cc_awaiting_pubrel ctx = cc_awaiting_pubrel ctx'"
    "cc_session ctx = cc_session ctx'" "cc_taken_over ctx = cc_taken_over ctx'" "cc_channel ctx = cc_channel ctx'"
  using assms by (cases ctx; cases ctx'; simp add: publisher_side_def)+

lemma routed_frame [simp]:
  "b_retains (routed msg maps xs b) = b_retains b" "b_sess (routed msg maps xs b) = b_sess b"
  "b_by_channel (routed msg maps xs b) = b_by_channel b"
  by (induction xs arbitrary: b) (simp_all add: routed_def routed_one_def split: option.split prod.split)

definition publish_pkt :: "PublishPacket \<Rightarrow> Packet" where
  "publish_pkt pub = \<lparr>pkt_type = Publish, pkt_body = PublishBody pub\<rparr>"

definition may_publish :: "Env \<Rightarrow> ctx_ref \<Rightarrow> string \<Rightarrow> Broker \<Rightarrow> bool" where
  "may_publish env x topic b \<longleftrightarrow> cc_connected (b_ctxs b x) \<and> \<not> isTopicNameInvalid topic \<and>
     canPublish (env_security env) (cc_client_id (b_ctxs b x)) topic"

lemma PublishHandler_known_id:
  assumes "may_publish env x (pub_topic pub) b"
    and "pub_qos pub = AtLeastOnce \<and> cc_awaiting_puback (b_ctxs b x) (pub_packet_id pub) \<noteq> None \<and> t = Puback \<or>
         pub_qos pub = ExactlyOnce \<and> cc_awaiting_pubrel (b_ctxs b x) (pub_packet_id pub) \<noteq> None \<and> t = Pubrec"
  shows "PublishHandler env on_close x (publish_pkt pub) b =
           Ok () (reply x (ack_packet t (pub_packet_id pub)) (b\<lparr>b_received := b_received b + 1\<rparr>))"
  using assms by (auto simp: PublishHandler_def publish_pkt_def may_publish_def Let_def connAck_eq)

text \<open>The packet as the plugins see it.\<close>

definition stamped :: "ctx_ref \<Rightarrow> PublishPacket \<Rightarrow> Broker \<Rightarrow> PublishPacket" where
  "stamped x pub b = pub\<lparr>pub_source_client := cc_client_id (b_ctxs b x)\<rparr>"

definition hooks_unchanged :: "Env \<Rightarrow> ctx_ref \<Rightarrow> PublishPacket \<Rightarrow> Broker \<Rightarrow> bool" where
  "hooks_unchanged env x pub b \<longleftrightarrow>
     (\<exists>ok. hooks_onMessageIn (env_hooks env) (b_events b) (stamped x pub b) (cc_client_id (b_ctxs b x)) =
        Ret (ok, stamped x pub b))"

lemma demo_hooks_unchanged: "hooks_unchanged demo_env x pub b"
  by (auto simp: hooks_unchanged_def demo_env_def)

lemma retain_update_returns:
  assumes "broker_inv b" "m_topic msg = t"
  shows "\<exists>st. retain_store (b_retains b) t msg = Ret st" "\<exists>st. retain_clear (b_retains b) t = Ret st"
proof -
  have inv: "retain_inv (b_retains b)" using assms(1) by (simp add: broker_inv_def retains_ok_def)
  show "\<exists>st. retain_store (b_retains b) t msg = Ret st" using retain.store_law [OF inv assms(2)] by blast
  show "\<exists>st. retain_clear (b_retains b) t = Ret st" using retain.clear_law [OF inv] by blast
qed

lemma PublishHandler_qos2_new:
  assumes inv: "broker_inv b" and may: "may_publish env x (pub_topic pub) b" and hooks: "hooks_unchanged env x pub b"
    and q: "pub_qos pub = ExactlyOnce" and new: "cc_awaiting_pubrel (b_ctxs b x) (pub_packet_id pub) = None"
  shows "\<exists>b'. PublishHandler env on_close x (publish_pkt pub) b = Ok () b' \<and>
     b_ctxs b' = (b_ctxs b)(x := (b_ctxs b x)\<lparr>cc_awaiting_pubrel := (cc_awaiting_pubrel (b_ctxs b x))
       (pub_packet_id pub \<mapsto> publish_message pub (cc_client_id (b_ctxs b x)))\<rparr>) \<and>
     b_outbox b' = b_outbox b \<and> b_delivered b' = b_delivered b"
proof -
  define cid msg where "cid = cc_client_id (b_ctxs b x)" and "msg = publish_message pub cid"
  obtain st st' where st: "retain_store (b_retains b) (pub_topic pub) msg = Ret st" "retain_clear (b_retains b) (pub_topic pub) = Ret st'"
    using retain_update_returns [OF inv, of msg "pub_topic pub"] by (auto simp: msg_def publish_message_def)
  obtain ok where ok: "hooks_onMessageIn (env_hooks env) (b_events b) (pub\<lparr>pub_source_client := cid\<rparr>) cid =
      Ret (ok, pub\<lparr>pub_source_client := cid\<rparr>)"
    using hooks unfolding hooks_unchanged_def stamped_def cid_def by blast
  have msg: "publish_message (pub\<lparr>pub_source_client := cid\<rparr>) cid = msg" by (simp add: msg_def publish_message_def)
  show ?thesis
    using may q new ok st
    unfolding PublishHandler_def publish_pkt_def may_publish_def publish_accept_def publish_filtered_def publish_ack_def
    by (auto simp: Let_def seqP_apply bindP_apply liftP_def connAck_eq whenP_def msg simp flip: cid_def msg_def split: if_splits)
qed

text \<open>
  C8. QoS 2 from a publisher is exactly once. The first PUBLISH with a packet identifier is
  remembered and delivered to nobody; a repetition is answered with PUBREC and changes nothing
  else; PUBREL routes the remembered message, forgets it and is answered with PUBCOMP; a
  repeated PUBREL is answered with PUBCOMP and changes nothing else. (The message is remembered
  before the plugins are asked, so PUBREL routes it even when a plugin discards it.)
\<close>

theorem qos2_exactly_once:
  assumes inv: "broker_inv b" and may: "may_publish env x (pub_topic pub) b" and hooks: "hooks_unchanged env x pub b"
    and q: "pub_qos pub = ExactlyOnce" and pid: "pid = pub_packet_id pub"
  shows "case cc_awaiting_pubrel (b_ctxs b x) pid of
      None \<Rightarrow>
        (\<exists>b'. PublishHandler env on_close x (publish_pkt pub) b = Ok () b' \<and>
           b_ctxs b' = (b_ctxs b)(x := (b_ctxs b x)\<lparr>cc_awaiting_pubrel := (cc_awaiting_pubrel (b_ctxs b x))
             (pid \<mapsto> publish_message pub (cc_client_id (b_ctxs b x)))\<rparr>) \<and>
           b_outbox b' = b_outbox b \<and> b_delivered b' = b_delivered b) \<and>
        AckHandler env on_close x (ack_packet Pubrel pid) b = Ok () (reply x (ack_packet Pubcomp pid) b)
    | Some msg \<Rightarrow>
        PublishHandler env on_close x (publish_pkt pub) b =
          Ok () (reply x (ack_packet Pubrec pid) (b\<lparr>b_received := b_received b + 1\<rparr>)) \<and>
        (\<exists>b'. route env on_close msg b = Ok () b' \<and>
           AckHandler env on_close x (ack_packet Pubrel pid) b = Ok () (reply x (ack_packet Pubcomp pid)
             (upd_ctx x (\<lambda>ctx. ctx\<lparr>cc_awaiting_pubrel := (cc_awaiting_pubrel ctx)(pid := None)\<rparr>) b')))"
proof (cases "cc_awaiting_pubrel (b_ctxs b x) pid")
  case None
  have "cc_connected (b_ctxs b x)" using may by (simp add: may_publish_def)
  then show ?thesis
    using PublishHandler_qos2_new [OF inv may hooks q] None pid
    by (auto simp: AckHandler_def Let_def ack_packet_def connAck_eq [unfolded ack_packet_def])
next
  case (Some msg)
  have "cc_connected (b_ctxs b x)" using may by (simp add: may_publish_def)
  moreover have "small_msg msg" using inv_ctx [OF inv, of x] Some by (auto simp: ctx_ok_def)
  moreover note PublishHandler_known_id [OF may, of Pubrec]
  ultimately show ?thesis
    using Some pid q
    by (auto simp: AckHandler_def Let_def ack_packet_def connAck_eq [unfolded ack_packet_def] route_eq seqP_apply)
qed

theorem qos2_exactly_once_witness:
  "\<exists>b'. PublishHandler demo_env (onClose 1 demo_env) 1 (publish_pkt \<lparr>pub_topic = ''t'', pub_payload = ''x'', pub_qos = ExactlyOnce,
       pub_retain = False, pub_dup = False, pub_packet_id = 5, pub_source_client = []\<rparr>) demo_broker = Ok () b' \<and>
     cc_awaiting_pubrel (b_ctxs b' 1) 5 \<noteq> None \<and> b_delivered b' = b_delivered demo_broker"
proof -
  let ?pub = "\<lparr>pub_topic = ''t'', pub_payload = ''x'', pub_qos = ExactlyOnce, pub_retain = False, pub_dup = False,
    pub_packet_id = 5, pub_source_client = []\<rparr>"
  have may: "may_publish demo_env 1 (pub_topic ?pub) demo_broker"
    by (simp add: may_publish_def demo_broker_def demo_client_def isTopicNameInvalid_def demo_env_def canPublish_def
        registerSecurity_def addAuthenticator_def addAuthorizer_def SecurityChain_empty_def AllowAllAuthorizer_def)
  have hooks: "hooks_unchanged demo_env 1 ?pub demo_broker" by (rule demo_hooks_unchanged)
  have "cc_awaiting_pubrel (b_ctxs demo_broker 1) 5 = None"
    by (simp add: demo_broker_def demo_client_def new_context_def)
  then show ?thesis
    using qos2_exactly_once [OF demo_inv may hooks _ refl, of "onClose 1 demo_env"] by auto
qed

lemma PublishHandler_qos1_new:
  assumes inv: "broker_inv b" and may: "may_publish env x (pub_topic pub) b" and hooks: "hooks_unchanged env x pub b"
    and q: "pub_qos pub = AtLeastOnce" and new: "cc_awaiting_puback (b_ctxs b x) (pub_packet_id pub) = None"
    and small: "small_body (PublishBody pub)"
  shows "\<exists>b'. PublishHandler env on_close x (publish_pkt pub) b = Ok () b' \<and>
     publisher_side (b_ctxs b' x) = publisher_side ((b_ctxs b x)\<lparr>cc_awaiting_puback := (cc_awaiting_puback (b_ctxs b x))
       (pub_packet_id pub \<mapsto> pub_topic pub)\<rparr>)"
proof -
  define cid msg where "cid = cc_client_id (b_ctxs b x)" and "msg = publish_message pub cid"
  obtain st st' where st: "retain_store (b_retains b) (pub_topic pub) msg = Ret st" "retain_clear (b_retains b) (pub_topic pub) = Ret st'"
    using retain_update_returns [OF inv, of msg "pub_topic pub"] by (auto simp: msg_def publish_message_def)
  obtain ok where ok: "hooks_onMessageIn (env_hooks env) (b_events b) (pub\<lparr>pub_source_client := cid\<rparr>) cid =
      Ret (ok, pub\<lparr>pub_source_client := cid\<rparr>)"
    using hooks unfolding hooks_unchanged_def stamped_def cid_def by blast
  have msg: "publish_message (pub\<lparr>pub_source_client := cid\<rparr>) cid = msg" by (simp add: msg_def publish_message_def)
  have "small_msg msg" using small by (simp add: msg_def publish_message_def small_msg_def)
  note route = route_eq [OF this]
  show ?thesis
    using may q new ok st
    unfolding PublishHandler_def publish_pkt_def may_publish_def publish_accept_def publish_filtered_def publish_ack_def
    by (auto simp: Let_def seqP_apply bindP_apply liftP_def connAck_eq whenP_def msg route publisher_side_routed
        simp flip: cid_def msg_def split: if_splits)
qed

text \<open>
  C29. A publisher that uses a QoS 1 packet identifier a second time, as it may once the first
  PUBLISH has been acknowledged, loses the second message: the broker answers PUBACK and gives
  it to nobody. The identifier is only released by a PUBACK from the publisher, which the
  protocol does not have.
\<close>

theorem qos1_reused_identifier:
  assumes inv: "broker_inv b" and may: "may_publish env x (pub_topic pub) b" "may_publish env x (pub_topic pub') b"
    and hooks: "hooks_unchanged env x pub b" and small: "small_body (PublishBody pub)"
    and q: "pub_qos pub = AtLeastOnce" "pub_qos pub' = AtLeastOnce" "pub_packet_id pub' = pub_packet_id pub"
  shows "\<exists>b1. PublishHandler env on_close x (publish_pkt pub) b = Ok () b1 \<and>
     PublishHandler env on_close x (publish_pkt pub') b1 =
       Ok () (reply x (ack_packet Puback (pub_packet_id pub)) (b1\<lparr>b_received := b_received b1 + 1\<rparr>))"
proof (cases "cc_awaiting_puback (b_ctxs b x) (pub_packet_id pub)")
  case None
  obtain b1 where b1: "PublishHandler env on_close x (publish_pkt pub) b = Ok () b1"
    "publisher_side (b_ctxs b1 x) = publisher_side ((b_ctxs b x)\<lparr>cc_awaiting_puback := (cc_awaiting_puback (b_ctxs b x))
       (pub_packet_id pub \<mapsto> pub_topic pub)\<rparr>)"
    using PublishHandler_qos1_new [OF inv may(1) hooks q(1) None small] by blast
  note side = publisher_sideD [OF b1(2)]
  have "may_publish env x (pub_topic pub') b1" using may(2) side by (simp add: may_publish_def)
  then show ?thesis
    using b1(1) PublishHandler_known_id [of env x pub' b1 Puback] q side by simp
next
  case (Some t)
  let ?b1 = "reply x (ack_packet Puback (pub_packet_id pub)) (b\<lparr>b_received := b_received b + 1\<rparr>)"
  have "PublishHandler env on_close x (publish_pkt pub) b = Ok () ?b1"
    using PublishHandler_known_id [OF may(1), of Puback] Some q by simp
  moreover have "may_publish env x (pub_topic pub') ?b1" using may(2) by (simp add: may_publish_def)
  ultimately show ?thesis
    using PublishHandler_known_id [of env x pub' ?b1 Puback] Some q by simp
qed

theorem qos1_reused_identifier_witness:
  "\<exists>b1. PublishHandler demo_env (onClose 1 demo_env) 1 (publish_pkt \<lparr>pub_topic = ''t'', pub_payload = ''first'', pub_qos = AtLeastOnce,
       pub_retain = False, pub_dup = False, pub_packet_id = 5, pub_source_client = []\<rparr>) demo_broker = Ok () b1 \<and>
     PublishHandler demo_env (onClose 1 demo_env) 1 (publish_pkt \<lparr>pub_topic = ''t'', pub_payload = ''second'', pub_qos = AtLeastOnce,
       pub_retain = False, pub_dup = False, pub_packet_id = 5, pub_source_client = []\<rparr>) b1 =
       Ok () (reply 1 (ack_packet Puback 5) (b1\<lparr>b_received := b_received b1 + 1\<rparr>))"
proof -
  have may: "may_publish demo_env 1 ''t'' demo_broker"
    by (simp add: may_publish_def demo_broker_def demo_client_def isTopicNameInvalid_def demo_env_def canPublish_def
        registerSecurity_def addAuthenticator_def addAuthorizer_def SecurityChain_empty_def AllowAllAuthorizer_def)
  note hooks = demo_hooks_unchanged [of 1 _ demo_broker]
  show ?thesis
    using qos1_reused_identifier [OF demo_inv _ _ hooks, of
        "\<lparr>pub_topic = ''t'', pub_payload = ''first'', pub_qos = AtLeastOnce, pub_retain = False, pub_dup = False,
          pub_packet_id = 5, pub_source_client = []\<rparr>"
        "\<lparr>pub_topic = ''t'', pub_payload = ''second'', pub_qos = AtLeastOnce, pub_retain = False, pub_dup = False,
          pub_packet_id = 5, pub_source_client = []\<rparr>"] may by simp
qed

section \<open>Closing a connection\<close>

text \<open>What removing a channel does to sessions, queues and the other tables.\<close>

definition session_ended :: "ctx_ref \<Rightarrow> Broker \<Rightarrow> session_ref option" where
  "session_ended x b = (case lock_session x b of
     Some (s, v) \<Rightarrow> if s_clean_session v \<and> \<not> cc_taken_over (b_ctxs b x) then Some s else None | None \<Rightarrow> None)"

lemma session_ended_cong:
  assumes "cc_session (b_ctxs b1 x) = cc_session (b_ctxs b x)" "cc_taken_over (b_ctxs b1 x) = cc_taken_over (b_ctxs b x)"
    and "b_sess b1 = b_sess b"
  shows "session_ended x b1 = session_ended x b"
  unfolding session_ended_def lock_session_def assms ..

lemma session_ended_frame [simp]:
  "session_ended x (b\<lparr>b_events := evs\<rparr>) = session_ended x b" "session_ended x (b\<lparr>b_channels := cs\<rparr>) = session_ended x b"
  by (rule session_ended_cong; simp)+

definition closed_from :: "Broker \<Rightarrow> session_ref option \<Rightarrow> Broker \<Rightarrow> bool" where
  "closed_from b ended b' \<longleftrightarrow> b_retains b' = b_retains b \<and> b_delivered b' = b_delivered b \<and> b_chans b' = b_chans b \<and>
     (ended = None \<longrightarrow> b_ctxs b' = b_ctxs b) \<and>
     (\<forall>y. (b_ctxs b' y)\<lparr>cc_session := None\<rparr> = (b_ctxs b y)\<lparr>cc_session := None\<rparr>) \<and>
     (\<forall>s. b_sess b' s = (if ended = Some s then None else b_sess b s)) \<and>
     (\<forall>s. outbox_queue (b_outbox b') s = (if ended = Some s then [] else outbox_queue (b_outbox b) s))"

lemma closed_from_frame [simp]:
  "closed_from (b\<lparr>b_events := evs\<rparr>) ended b' = closed_from b ended b'"
  "closed_from b ended (b'\<lparr>b_by_channel := t\<rparr>) = closed_from b ended b'"
  "closed_from b (Some s) (upd_ctx x (\<lambda>ctx. ctx\<lparr>cc_session := None\<rparr>) b') = closed_from b (Some s) b'"
  "closed_from b ended (b'\<lparr>b_channels := cs\<rparr>) = closed_from b ended b'"
proof -
  have "(\<forall>y. (b_ctxs (upd_ctx x (\<lambda>ctx. ctx\<lparr>cc_session := None\<rparr>) b') y)\<lparr>cc_session := None\<rparr> = f y) \<longleftrightarrow>
      (\<forall>y. (b_ctxs b' y)\<lparr>cc_session := None\<rparr> = f y)" for f
    by (rule iff_allI) simp
  then show "closed_from b (Some s) (upd_ctx x (\<lambda>ctx. ctx\<lparr>cc_session := None\<rparr>) b') = closed_from b (Some s) b'"
    by (simp add: closed_from_def del: fun_upd_apply)
qed (simp_all add: closed_from_def)

lemma closed_dropped:
  assumes inv: "broker_inv b" and v: "b_sess b s = Some v"
  shows "closed_from b (Some s) (dropped s v b)"
proof -
  have "map_of (b_sessions b) (s_client_id v) = Some s"
    using sessions_okD(2) [OF inv_sessions [OF inv] v] .
  then show ?thesis by (simp add: closed_from_def dropped_def queue_clear)
qed

lemma removeChannel_closed:
  assumes inv: "broker_inv b" and x: "byChannel c b = Some x"
  shows "wp (removeChannel c) (\<lambda>_. closed_from b (session_ended x b)) never b"
proof -
  define b1 where "b1 = (let cid = cc_client_id (b_ctxs b x)
     in if cid \<noteq> [] \<and> b_by_id b cid = Some x then b\<lparr>b_by_id := (b_by_id b)(cid := None)\<rparr> else b)"
  have inv1: "broker_inv b1" using inv by (simp add: b1_def Let_def)
  have same: "b_sess b1 = b_sess b" "b_outbox b1 = b_outbox b" "b_retains b1 = b_retains b" "b_delivered b1 = b_delivered b"
      "b_ctxs b1 = b_ctxs b" "b_chans b1 = b_chans b"
    by (simp_all add: b1_def Let_def)
  have lock: "lock_session x b1 = lock_session x b" by (simp add: lock_session_def same split: option.split)
  have refl: "closed_from b None b1" by (simp add: closed_from_def same)
  have from_b1: "closed_from b1 = closed_from b" by (intro ext) (simp add: closed_from_def same)
  show ?thesis
  proof (cases "lock_session x b")
    case None
    then show ?thesis
      using x refl lock by (simp add: removeChannel_def b1_def [symmetric] session_ended_def)
  next
    case (Some sv)
    obtain s v where sv: "sv = (s, v)" by (cases sv)
    have v: "b_sess b1 s = Some v" using lock_session_live [of x b s v] Some sv same by simp
    have "wp (dropSession False s) (\<lambda>_. closed_from b (Some s)) never b1"
      using dropSession_eq [OF v] closed_dropped [OF inv1 v] from_b1 by (simp add: wp_def)
    then show ?thesis
      using x Some sv lock refl
      by (simp add: removeChannel_def b1_def [symmetric] wp_whenP session_ended_def same)
  qed
qed

lemma removeChannel_outcome:
  assumes "broker_inv b" "byChannel c b = Some x"
  shows "wp (removeChannel c) (\<lambda>_ b'. closed_from b (session_ended x b) b' \<and> broker_inv b' \<and> byChannel c b' = None) never b"
  using wp_conj [OF removeChannel_closed [OF assms] wp_conj [OF wp_removeChannel_inv [OF assms(1)]
    wp_wlp [OF wp_removeChannel_inv [OF assms(1)] removeChannel_removes]]] by simp

text \<open>The will of a context and when it is due.\<close>

definition will_message :: "ClientContext \<Rightarrow> Message" where
  "will_message ctx = \<lparr>m_topic = w_topic (cc_will ctx), m_payload = w_payload (cc_will ctx), m_qos = w_qos (cc_will ctx),
     m_retain = w_retain (cc_will ctx), m_source_client = cc_client_id ctx\<rparr>"

definition will_due :: "ClientContext \<Rightarrow> bool" where
  "will_due ctx \<longleftrightarrow> cc_connected ctx \<and> \<not> cc_clean_disconnect ctx \<and> \<not> cc_taken_over ctx \<and> w_valid (cc_will ctx)"

lemma small_will: "ctx_ok ctx \<Longrightarrow> small_msg (will_message ctx)"
  by (simp add: small_msg_def ctx_ok_def will_message_def)

definition will_published :: "Env \<Rightarrow> ctx_ref \<Rightarrow> Broker \<Rightarrow> Broker \<Rightarrow> bool" where
  "will_published env x b b1 \<longleftrightarrow> (\<exists>st. retain_inv st \<and> (let will = will_message (b_ctxs b x) in
     retained st = (if w_retain (cc_will (b_ctxs b x)) then (retained (b_retains b))(m_topic will \<mapsto> will) else retained (b_retains b)) \<and>
     b1 = routed will (best_maps b will) (env_order env (map fst (fst (best_maps b will)))) (b\<lparr>b_retains := st\<rparr>)))"

lemma best_maps_retains [simp]: "best_maps (b\<lparr>b_retains := st\<rparr>) msg = best_maps b msg"
  by (simp add: best_maps_def)

lemma publish_will_outcome:
  assumes inv: "broker_inv b"
  shows "wp (publish_will env on_close x) (\<lambda>_ b1. broker_inv b1 \<and>
           (if will_due (b_ctxs b x) then will_published env x b b1 else b1 = b)) never b"
proof (cases "will_due (b_ctxs b x)")
  case False
  then show ?thesis
    using inv by (auto simp: publish_will_def will_due_def Let_def whenP_def)
next
  case True
  define will where "will = will_message (b_ctxs b x)"
  have rinv: "retain_inv (b_retains b)" using inv by (simp add: broker_inv_def retains_ok_def)
  obtain st where st: "retain_store (b_retains b) (w_topic (cc_will (b_ctxs b x))) will = Ret st" "retain_inv st"
      "retained st = (retained (b_retains b))(m_topic will \<mapsto> will)"
    using retain.store_law [OF rinv, of will "m_topic will"] by (auto simp: will_def will_message_def)
  have route: "route env on_close will b' = Ok () (routed will (best_maps b' will) (env_order env (map fst (fst (best_maps b' will)))) b')" for b'
    unfolding will_def by (rule route_eq [OF small_will [OF inv_ctx [OF inv]]])
  have eq: "publish_will env on_close x b = seqP (whenP (w_retain (cc_will (b_ctxs b x)))
      (bindP (liftP (\<lambda>b'. retain_store (b_retains b') (w_topic (cc_will (b_ctxs b x))) will)) (\<lambda>st.
       modP (\<lambda>b. b\<lparr>b_retains := st\<rparr>)))) (route env on_close will) b"
    using True by (simp add: publish_will_def will_due_def Let_def flip: will_message_def will_def)
  have "wp (publish_will env on_close x) (\<lambda>_ b1. will_published env x b b1) never b"
    unfolding wp_def eq will_published_def Let_def will_def [symmetric]
    using st route rinv
    by (cases "w_retain (cc_will (b_ctxs b x))")
       (auto simp: seqP_apply bindP_apply liftP_def intro: exI [of _ "b_retains b"] exI [of _ st])
  then show ?thesis
    using wp_conj [OF wp_publish_will_inv [OF inv]] True by simp
qed

lemma will_published_session:
  assumes "will_published env x b b1"
  shows "byChannel c b1 = byChannel c b" "session_ended x b1 = session_ended x b"
proof -
  obtain st xs where b1: "b1 = routed (will_message (b_ctxs b x)) (best_maps b (will_message (b_ctxs b x))) xs (b\<lparr>b_retains := st\<rparr>)"
    using assms by (auto simp: will_published_def Let_def)
  show "byChannel c b1 = byChannel c b" by (simp add: b1 byChannel_def)
  have "publisher_side (b_ctxs b1 x) = publisher_side (b_ctxs b x)"
    by (simp add: b1 publisher_side_routed)
  note side = publisher_sideD(5,6) [OF this]
  show "session_ended x b1 = session_ended x b"
    by (rule session_ended_cong [OF side]) (simp add: b1)
qed

lemma onClose_outcome:
  assumes inv: "broker_inv b" and x: "byChannel c b = Some x"
  shows "\<exists>b1 b'. onClose (Suc n) env c reason b = Ok () b' \<and> broker_inv b' \<and> byChannel c b' = None \<and> c \<notin> set (b_channels b') \<and>
     (if will_due (b_ctxs b x) then will_published env x (b\<lparr>b_channels := removeAll c (b_channels b)\<rparr>) b1
      else b1 = b\<lparr>b_channels := removeAll c (b_channels b)\<rparr>) \<and>
     broker_inv b1 \<and> closed_from b1 (session_ended x b) b'"
proof -
  let ?b0 = "b\<lparr>b_channels := removeAll c (b_channels b)\<rparr>"
  have inv0: "broker_inv ?b0" using inv by simp
  obtain b1 where b1: "publish_will env (onClose n env) x ?b0 = Ok () b1" "broker_inv b1"
      "if will_due (b_ctxs b x) then will_published env x ?b0 b1 else b1 = ?b0"
    using wp_Ok_unit [OF publish_will_outcome [OF inv0, of env "onClose n env" x]] by auto
  have keep: "byChannel c b1 = Some x" "session_ended x b1 = session_ended x b"
    using b1(3) x will_published_session [of env x ?b0 b1]
    by (auto simp: byChannel_def split: if_splits)
  let ?b2 = "b1\<lparr>b_events := b_events b1 @ hooks_onClientDisconnected (env_hooks env) (cc_client_id (b_ctxs b1 x))\<rparr>"
  have "wp (removeChannel c) (\<lambda>_ b'. closed_from ?b2 (session_ended x ?b2) b' \<and> broker_inv b' \<and> byChannel c b' = None) never ?b2"
    using b1(2) keep by (intro removeChannel_outcome) (simp_all add: byChannel_def)
  then obtain b3 where b3: "removeChannel c ?b2 = Ok () b3" "closed_from ?b2 (session_ended x ?b2) b3" "broker_inv b3" "byChannel c b3 = None"
    using wp_Ok_unit [of _ "\<lambda>b'. closed_from ?b2 (session_ended x ?b2) b' \<and> broker_inv b' \<and> byChannel c b' = None"] by blast
  have same: "closed_from ?b2 (session_ended x ?b2) b3 = closed_from b1 (session_ended x b) b3"
    using keep(2) by simp
  have "onClose (Suc n) env c reason b = Ok () (b3\<lparr>b_channels := removeAll c (b_channels b3)\<rparr>)"
    using x b1(1) b3(1) by (simp add: remove_channel_ref_def seqP_apply)
  then show ?thesis
    using b1(2,3) b3 same by (intro exI [of _ b1] exI [of _ "b3\<lparr>b_channels := removeAll c (b_channels b3)\<rparr>"]) (simp add: byChannel_def)
qed

lemma open_channel_frame [simp]:
  "open_channel x (b\<lparr>b_retains := st\<rparr>) = open_channel x b" "open_channel x (b\<lparr>b_channels := cs\<rparr>) = open_channel x b"
  by (simp_all add: open_channel_alt split: option.split)

lemma online_frame [simp]:
  "online cid (b\<lparr>b_retains := st\<rparr>) = online cid b" "online cid (b\<lparr>b_channels := cs\<rparr>) = online cid b"
  by (simp_all add: online_def byId_def split: option.split)

lemma interests_frame [simp]:
  "interests (b\<lparr>b_retains := st\<rparr>) msg cid = interests b msg cid" "interests (b\<lparr>b_channels := cs\<rparr>) msg cid = interests b msg cid"
  by (simp_all add: interests_def)

lemma routed_retains: "routed msg maps xs (b\<lparr>b_retains := st\<rparr>) = (routed msg maps xs b)\<lparr>b_retains := st\<rparr>"
proof (induction xs arbitrary: b)
  case (Cons cid xs)
  have send: "send_bytes c p (b\<lparr>b_retains := st\<rparr>) = (send_bytes c p b)\<lparr>b_retains := st\<rparr>" for c p and b :: Broker
    by (simp add: send_bytes_def upd_chan_def split: outcome.split prod.split bool.split)
  have ctx: "upd_ctx x f (b\<lparr>b_retains := st\<rparr>) = (upd_ctx x f b)\<lparr>b_retains := st\<rparr>" for x f and b :: Broker
    by (simp add: upd_ctx_def)
  have "delivered x c msg q r d (b\<lparr>b_retains := st\<rparr>) = (delivered x c msg q r d b)\<lparr>b_retains := st\<rparr>" for x c q r d and b :: Broker
    by (simp add: delivered_def Let_def send ctx)
  then have "routed_one msg smap cid q (b\<lparr>b_retains := st\<rparr>) = (routed_one msg smap cid q b)\<lparr>b_retains := st\<rparr>" for smap q
    by (simp add: routed_one_def split: option.split)
  then show ?case using Cons.IH by (simp add: routed_def split: option.split)
qed (simp add: routed_def)

text \<open>
  C17. A will is published when, and only when, the connection ends abnormally: the client was
  connected, had a will, sent no DISCONNECT and was not taken over. Then it is stored if it is
  to be retained, and routed like any message; otherwise the retained messages, the offline
  queues and the number of deliveries stay as they are. Whatever the case the connection is
  forgotten, and only the queue of a session that ends with it is emptied. Of a will that is due
  it is required that its topic is a valid name, which CONNECT does not check; nothing is
  required of the other clients.
\<close>

theorem will_published_iff_abnormal:
  assumes inv: "broker_inv b" and x: "byChannel c b = Some x"
    and topic: "will_due (b_ctxs b x) \<Longrightarrow> \<not> isTopicNameInvalid (w_topic (cc_will (b_ctxs b x)))"
    and order: "\<And>cids. mset (env_order env cids) = mset cids"
  defines "will \<equiv> will_message (b_ctxs b x)" and "due \<equiv> will_due (b_ctxs b x)"
  shows "\<exists>b'. onClose (Suc n) env c reason b = Ok () b' \<and> byChannel c b' = None \<and> c \<notin> set (b_channels b') \<and>
    retained (b_retains b') =
      (if due \<and> m_retain will then (retained (b_retains b))(m_topic will \<mapsto> will) else retained (b_retains b)) \<and>
    (\<not> due \<longrightarrow> b_delivered b' = b_delivered b) \<and>
    (\<forall>s v. b_sess b' s = Some v \<longrightarrow> outbox_queue (b_outbox b') s =
       (if due \<and> interests b will (s_client_id v) \<noteq> {} \<and> online (s_client_id v) b = None \<and> \<not> s_clean_session v
        then outbox_queue (outbox_enqueue (b_outbox b) s will (Max (interests b will (s_client_id v))) False) s
        else outbox_queue (b_outbox b) s))"
proof -
  let ?b0 = "b\<lparr>b_channels := removeAll c (b_channels b)\<rparr>"
  obtain b1 b' where close: "onClose (Suc n) env c reason b = Ok () b'" "byChannel c b' = None" "c \<notin> set (b_channels b')"
    and b1: "if due then will_published env x ?b0 b1 else b1 = ?b0" and b': "closed_from b1 (session_ended x b) b'"
    using onClose_outcome [OF inv x, of n env reason] unfolding due_def by blast
  have sess: "b_sess b1 = b_sess b" using b1 by (auto simp: will_published_def Let_def split: if_splits)
  have inv0: "broker_inv ?b0" using inv by simp
  show ?thesis
  proof (cases due)
    case False
    then show ?thesis using close b1 b' sess by (intro exI [of _ b']) (auto simp: closed_from_def)
  next
    case True
    then obtain st where st: "retain_inv st" "retained st = (if w_retain (cc_will (b_ctxs b x)) then (retained (b_retains b))(m_topic will \<mapsto> will) else retained (b_retains b))"
      "b1 = (routed will (best_maps ?b0 will) (env_order env (map fst (fst (best_maps ?b0 will)))) ?b0)\<lparr>b_retains := st\<rparr>"
      using b1 unfolding will_def by (auto simp: will_published_def Let_def routed_retains)
    have t: "\<not> isTopicNameInvalid (m_topic will)" using topic True by (simp add: will_def due_def will_message_def)
    have "m_retain will = w_retain (cc_will (b_ctxs b x))" by (simp add: will_def will_message_def)
    then show ?thesis
      using close st(2,3) b' sess True route_queue [OF inv0 t _ order]
      by (intro exI [of _ b']) (auto simp: closed_from_def)
  qed
qed

lemma demo_channel: "byChannel 0 demo_broker = Some 1" "b_ctxs demo_broker 1 = demo_client" "b_ctxs demo_broker (Suc 0) = demo_client"
  by (simp_all add: byChannel_def demo_broker_def)

theorem will_published_iff_abnormal_witness:
  "(\<exists>b'. onClose (Suc 0) demo_env 0 ''peer closed connection'' demo_broker = Ok () b' \<and>
     retained (b_retains b') ''gone/a'' = Some (will_message demo_client)) \<and>
   (\<exists>b'. onClose (Suc 0) demo_env 0 ''peer closed connection'' (upd_ctx 1 (\<lambda>ctx. ctx\<lparr>cc_will := no_will\<rparr>) demo_broker) = Ok () b' \<and>
     retained (b_retains b') = retained (b_retains demo_broker) \<and> b_delivered b' = b_delivered demo_broker)"
proof (intro conjI)
  have order: "mset (env_order demo_env cids) = mset cids" for cids by (simp add: demo_env_def)
  have topic: "\<not> isTopicNameInvalid (w_topic (cc_will (b_ctxs demo_broker 1)))"
    by (simp add: demo_channel demo_client_def isTopicNameInvalid_def)
  have "will_due demo_client" "m_retain (will_message demo_client)" "m_topic (will_message demo_client) = ''gone/a''"
    by (simp_all add: will_due_def will_message_def demo_client_def new_context_def)
  then show "\<exists>b'. onClose (Suc 0) demo_env 0 ''peer closed connection'' demo_broker = Ok () b' \<and>
      retained (b_retains b') ''gone/a'' = Some (will_message demo_client)"
    using will_published_iff_abnormal [OF demo_inv demo_channel(1) topic order, of 0 "''peer closed connection''"]
    unfolding demo_channel(2) by auto
  let ?b = "upd_ctx 1 (\<lambda>ctx. ctx\<lparr>cc_will := no_will\<rparr>) demo_broker"
  have inv: "broker_inv ?b" by (rule inv_upd_ctx [OF demo_inv]) (simp_all add: ctx_ok_def no_will_def)
  have x: "byChannel 0 ?b = Some 1" using demo_channel(1) by (simp add: byChannel_def)
  have quiet: "\<not> will_due (b_ctxs ?b 1)" by (simp add: will_due_def no_will_def)
  have same: "b_retains ?b = b_retains demo_broker" "b_delivered ?b = b_delivered demo_broker" by simp_all
  from will_published_iff_abnormal [OF inv x notE [OF quiet] order, of 0 "''peer closed connection''"] quiet
  show "\<exists>b'. onClose (Suc 0) demo_env 0 ''peer closed connection'' ?b = Ok () b' \<and>
      retained (b_retains b') = retained (b_retains demo_broker) \<and> b_delivered b' = b_delivered demo_broker"
    unfolding same by auto
qed

text \<open>
  C18. What remains of a session when its connection ends. A clean session that has not been
  taken over is gone: no entry in the session table, no subscription in the topic tree, no
  queued message. Any other session is kept with its subscriptions, all of them in the tree.
\<close>

theorem session_lifetime:
  assumes inv: "broker_inv b" and x: "byChannel c b = Some x" and s: "lock_session x b = Some (s, v)"
  shows "\<exists>b'. onClose (Suc n) env c reason b = Ok () b' \<and>
    (if s_clean_session v \<and> \<not> cc_taken_over (b_ctxs b x)
     then b_sess b' s = None \<and> map_of (b_sessions b') (s_client_id v) \<noteq> Some s \<and>
          (\<forall>f. subscription (b_topics b') s f = None) \<and> outbox_queue (b_outbox b') s = []
     else b_sess b' s = Some v \<and> map_of (b_sessions b') (s_client_id v) = Some s \<and>
          (\<forall>f q. subscription (b_topics b') s f = Some q \<longleftrightarrow> \<lparr>sb_filter = f, sb_qos = q\<rparr> \<in> set (s_subscriptions v)))"
proof -
  obtain b1 b' where close: "onClose (Suc n) env c reason b = Ok () b'" "broker_inv b'"
    and b1: "if will_due (b_ctxs b x) then will_published env x (b\<lparr>b_channels := removeAll c (b_channels b)\<rparr>) b1
      else b1 = b\<lparr>b_channels := removeAll c (b_channels b)\<rparr>"
    and b': "closed_from b1 (session_ended x b) b'"
    using onClose_outcome [OF inv x, of n env reason] by blast
  have "b_sess b1 = b_sess b" using b1 by (auto simp: will_published_def Let_def split: if_splits)
  then have sess: "b_sess b' s = (if session_ended x b = Some s then None else Some v)"
    using b' lock_session_live [OF s] by (simp add: closed_from_def)
  have ended: "session_ended x b = Some s \<longleftrightarrow> s_clean_session v \<and> \<not> cc_taken_over (b_ctxs b x)"
    using s by (simp add: session_ended_def)
  have subs: "subscription (b_topics b') s f = listed (b_sess b' s) f" for f
    using close(2) by (simp add: broker_inv_def subs_ok_def)
  show ?thesis
  proof (cases "session_ended x b = Some s")
    case True
    then have "map_of (b_sessions b') (s_client_id v) \<noteq> Some s"
      using sess sessions_okD(1) [OF inv_sessions [OF close(2)], of "s_client_id v" s] by auto
    then show ?thesis
      using True close(1) sess subs ended b' by (auto simp: closed_from_def listed_def simp del: onClose.simps)
  next
    case False
    then have dist: "distinct (map sb_filter (s_subscriptions v))" and tab: "map_of (b_sessions b') (s_client_id v) = Some s"
      using sess close(2) sessions_okD(2) [OF inv_sessions [OF close(2)]] by (auto simp: broker_inv_def subs_ok_def)
    have "subscription (b_topics b') s f = Some q \<longleftrightarrow> \<lparr>sb_filter = f, sb_qos = q\<rparr> \<in> set (s_subscriptions v)" for f q
      using subs [of f] sess False find_subscription [OF dist] by (simp add: listed_def)
    then show ?thesis
      using False close(1) sess ended tab by (auto simp del: onClose.simps)
  qed
qed

theorem session_lifetime_witness:
  "\<exists>b'. onClose (Suc 0) demo_env 0 ''peer closed connection'' demo_broker = Ok () b' \<and>
     b_sess b' 2 = Some (demo_session ''a'')"
proof -
  have "lock_session 1 demo_broker = Some (2, demo_session ''a'')"
    by (simp add: lock_session_def demo_broker_def demo_client_def)
  from session_lifetime [OF demo_inv demo_channel(1) this, of 0 demo_env "''peer closed connection''"]
  show ?thesis by (auto simp: demo_session_def)
qed

section \<open>Retransmission\<close>

text \<open>Resending a PUBREL is not counted: the item keeps its time and its retry count.\<close>

lemma resend_pubrel_uncounted:
  assumes "cc_out_inflight (b_ctxs b x) pid = Some item" "oi_qos item = ExactlyOnce" "oi_pubrel_sent item" "cc_connected (b_ctxs b x)"
  shows "resend on_close x pid b = Ok () (reply x (ack_packet Pubrel pid) b)"
  using assms lock_channel_live [of x b]
  by (auto simp: resend_def reply_def open_channel_def bindP_apply channel_asyncSend_sendable [OF sendable_ack] isClosing_def
      split: option.split)

section \<open>Keep-alive\<close>

text \<open>
  C26. The keep-alive check closes a channel exactly when it has a keep-alive and nothing was
  read from it for more than one and a half times that many seconds; the bound is computed
  in milliseconds without loss for every 16-bit keep-alive.
\<close>

theorem keepalive_closes_idle:
  assumes inv: "broker_inv b" and ch: "b_chans b c = Some ch" and open_: "\<not> ch_closing ch"
  defines "idle \<equiv> b_now b - ch_last_read ch" and "limit \<equiv> uint (ch_keepalive ch) * 1500000000"
  shows "\<exists>b'. checkKeepalive (onClose (Suc n) env) (b_now b) [c] b = Ok () b' \<and>
    (if ch_keepalive ch \<noteq> 0 \<and> idle > limit then isClosing c b' \<and> byChannel c b' = None else b' = b)"
proof -
  have "unat (ch_keepalive ch) * 1000 * 3 div 2 = unat (ch_keepalive ch) * 1500" by linarith
  then have limit: "int (unat (ch_keepalive ch) * 1000 * 3 div 2) * 1000000 = limit"
    unfolding limit_def by simp
  have tick: "checkKeepalive (onClose (Suc n) env) (b_now b) [c] b =
      (if ch_keepalive ch \<noteq> 0 \<and> idle > limit then requestClose (onClose (Suc n) env) c ''keepalive timeout'' b else Ok () b)"
    using ch open_ limit by (simp add: checkKeepalive_def channel_tick_def Let_def idle_def seqP_apply del: onClose.simps split: res.split)
  have "wp (requestClose (onClose (Suc n) env) c reason) (\<lambda>_ b'. isClosing c b' \<and> byChannel c b' = None) never b" for reason
  proof -
    have "wp (onClose (Suc n) env c reason) (\<lambda>_. wp (channel_close c) (\<lambda>_ b'. isClosing c b' \<and> byChannel c b' = None) never) never b"
      using onClose_removes [OF inv]
      by (rule wp_mono) (auto simp: channel_close_def isClosing_def byChannel_def split: option.split)
    then show ?thesis
      using ch open_ unfolding requestClose_def wp_bindP wp_prim by (simp add: isClosing_def del: onClose.simps)
  qed
  then obtain b' where "requestClose (onClose (Suc n) env) c ''keepalive timeout'' b = Ok () b'" "isClosing c b' \<and> byChannel c b' = None"
    using wp_Ok_unit [of "requestClose (onClose (Suc n) env) c ''keepalive timeout''" "\<lambda>b'. isClosing c b' \<and> byChannel c b' = None" b] by blast
  then show ?thesis unfolding tick by auto
qed

theorem keepalive_closes_idle_witness:
  "\<exists>b'. checkKeepalive (onClose (Suc 0) demo_env) 1500000001 [0]
     ((upd_chan 0 (\<lambda>ch. ch\<lparr>ch_keepalive := 1\<rparr>) demo_broker)\<lparr>b_now := 1500000001\<rparr>) = Ok () b' \<and> isClosing 0 b'"
proof -
  let ?b = "(upd_chan 0 (\<lambda>ch. ch\<lparr>ch_keepalive := 1\<rparr>) demo_broker)\<lparr>b_now := 1500000001\<rparr>"
  let ?ch = "(channel_new 64 0)\<lparr>ch_keepalive := 1\<rparr>"
  have inv: "broker_inv ?b" using demo_inv by simp
  have ch: "b_chans ?b 0 = Some ?ch" "\<not> ch_closing ?ch" by (simp_all add: demo_broker_def channel_new_def)
  have "ch_keepalive ?ch = 1" "ch_last_read ?ch = 0" "b_now ?b = 1500000001" by (simp_all add: channel_new_def)
  then show ?thesis
    using keepalive_closes_idle [OF inv ch, of 0 demo_env] by (auto simp del: onClose.simps)
qed

end
