(* ===== verification/Connect.thy ===== *)
theory Connect
  imports Protocol
begin

text \<open>The outcomes of CONNECT: rejection, acceptance, session takeover; and of SUBSCRIBE.\<close>

section \<open>Rejection\<close>

text \<open>The return code for a client with a client identifier, as the specification orders the checks.\<close>

definition connect_verdict :: "Env \<Rightarrow> Broker \<Rightarrow> ConnectPacket \<Rightarrow> ConnackReturnCode" where
  "connect_verdict env b cp =
     (if unat (env_MaxConnections env) \<le> connectionCount b then server_unavailable
      else if cp_level cp \<noteq> 4 then bad_protocol_version
      else if length (cp_client_id cp) > 23 then id_rejected
      else if \<not> authenticate (env_security env) (cp_client_id cp) (cp_username cp) (cp_password cp) then bad_username_password
      else if \<not> canConnect (env_security env) (cp_client_id cp) then not_authorized
      else accepted)"

text \<open>A limit of 0 connections refuses everybody.\<close>

lemma no_limit_refuses_all: "env_MaxConnections env = 0 \<Longrightarrow> connect_verdict env b cp = server_unavailable"
  by (simp add: connect_verdict_def)

lemma ConnectHandler_verdict:
  assumes "\<not> cc_connected (b_ctxs b x)" "pkt_body pkt = ConnectBody cp" "cp_protocol cp = ''MQTT''" "cp_client_id cp \<noteq> []"
  shows "ConnectHandler env on_close x pkt b =
    (if connect_verdict env b cp = accepted then connect_accept env on_close x cp (cp_client_id cp) b
     else connect_reject on_close x (connect_verdict env b cp) b)"
  using assms
  by (auto simp: ConnectHandler_def connect_verdict_def connect_client_id_def JM_MQTT_3_1_1_VERSION_LEVEL_def bindP_apply)

lemma encode_connack:
  "encode (connack_packet sp rc) [] = Ret (True, [0x20, 0x02, if sp then 1 else 0, return_code_val rc])"
  by (simp add: connack_packet_def encode_def serializePacket_def encoders_def serializeConnack_def Let_def
      MQTT_CONNACK_BYTE_def writeByte_def)

lemma closed_from_ctx:
  assumes "closed_from b ended b'"
  shows "cc_connected (b_ctxs b' y) = cc_connected (b_ctxs b y)" "cc_channel (b_ctxs b' y) = cc_channel (b_ctxs b y)"
    "cc_taken_over (b_ctxs b' y) = cc_taken_over (b_ctxs b y)"
proof -
  have "(b_ctxs b' y)\<lparr>cc_session := None\<rparr> = (b_ctxs b y)\<lparr>cc_session := None\<rparr>" using assms by (simp add: closed_from_def)
  then show "cc_connected (b_ctxs b' y) = cc_connected (b_ctxs b y)" "cc_channel (b_ctxs b' y) = cc_channel (b_ctxs b y)"
      "cc_taken_over (b_ctxs b' y) = cc_taken_over (b_ctxs b y)"
    by (metis ClientContext.select_convs ClientContext.surjective ClientContext.update_convs(2))+
qed

text \<open>Closing a connection whose will is not due.\<close>

lemma requestClose_quiet:
  assumes inv: "broker_inv b" and x: "byChannel c b = Some x" and ch: "b_chans b c = Some ch" "\<not> ch_closing ch"
    and quiet: "\<not> will_due (b_ctxs b x)"
  shows "\<exists>b'. requestClose (onClose (Suc n) env) c reason b =
      Ok () (upd_chan c (\<lambda>ch. ch\<lparr>ch_closing := True, ch_transport := transport_close (ch_transport ch)\<rparr>) b') \<and>
    broker_inv b' \<and> byChannel c b' = None \<and> closed_from b (session_ended x b) b'"
proof -
  obtain b1 b' where close: "onClose (Suc n) env c reason b = Ok () b'" "broker_inv b'" "byChannel c b' = None"
    and b1: "b1 = b\<lparr>b_channels := removeAll c (b_channels b)\<rparr>" and b': "closed_from b1 (session_ended x b) b'"
    using onClose_outcome [OF inv x, of n env reason] quiet by auto
  have "closed_from b (session_ended x b) b'" using b' by (simp add: b1 closed_from_def)
  moreover have "isClosing c b = False" using ch by (simp add: isClosing_def)
  ultimately show ?thesis
    using close by (auto simp: requestClose_def channel_close_def seqP_apply simp del: onClose.simps)
qed

text \<open>
  C19. A CONNECT that is rejected gets a CONNACK with the return code of the first check that
  fails, session present 0, as the last thing sent on its connection. The connection is then
  closed and forgotten, the client is not connected, and no will is published.
\<close>

theorem connect_rejected:
  assumes inv: "broker_inv b" and x: "byChannel c b = Some x" and ch: "lock_channel x b = Some (c, ch)" "\<not> ch_closing ch"
    and connect: "\<not> cc_connected (b_ctxs b x)" "pkt_body pkt = ConnectBody cp" "cp_protocol cp = ''MQTT''" "cp_client_id cp \<noteq> []"
    and rc: "connect_verdict env b cp = rc" "rc \<noteq> accepted"
  shows "\<exists>b'. ConnectHandler env (onClose (Suc n) env) x pkt b = Ok () b' \<and> broker_inv b' \<and>
    b_chans b' c = Some (ch\<lparr>ch_closing := True,
      ch_transport := transport_close (transport_asyncSend [0x20, 0x02, 0x00, return_code_val rc] (ch_transport ch))\<rparr>) \<and>
    byChannel c b' = None \<and> \<not> cc_connected (b_ctxs b' x) \<and> b_retains b' = b_retains b \<and> b_delivered b' = b_delivered b"
proof -
  define b1 where "b1 = send_bytes c (connack_packet False rc) b"
  have live: "b_chans b c = Some ch" using lock_channel_live [OF ch(1)] .
  then have chan1: "b_chans b1 c = Some (ch\<lparr>ch_transport := transport_asyncSend [0x20, 0x02, 0x00, return_code_val rc] (ch_transport ch)\<rparr>)"
    by (simp add: b1_def send_bytes_chan [OF encode_connack])
  have "ConnectHandler env (onClose (Suc n) env) x pkt b = requestClose (onClose (Suc n) env) c ''CONNECT rejected'' b1"
    using rc ch live
    by (simp add: ConnectHandler_verdict [OF connect] connect_reject_def seqP_apply b1_def isClosing_def
        channel_asyncSend_sendable [OF sendable_connack] del: onClose.simps)
  moreover have "broker_inv b1" "byChannel c b1 = Some x" "\<not> will_due (b_ctxs b1 x)"
    using inv x connect(1) by (simp_all add: b1_def byChannel_def will_due_def)
  note requestClose_quiet [OF this(1,2) chan1 _ this(3), of n env "''CONNECT rejected''"]
  ultimately obtain b' where close: "ConnectHandler env (onClose (Suc n) env) x pkt b =
      Ok () (upd_chan c (\<lambda>ch. ch\<lparr>ch_closing := True, ch_transport := transport_close (ch_transport ch)\<rparr>) b')"
      "broker_inv b'" "byChannel c b' = None" and b': "closed_from b1 (session_ended x b1) b'"
    using ch(2) by auto
  then show ?thesis
    using chan1 closed_from_ctx(1) [OF b', of x] connect(1)
    by (auto simp: closed_from_def b1_def byChannel_def)
qed

section \<open>Acceptance\<close>

lemma sessions_determined:
  assumes "sessions_ok tab sess n" "sessions_ok tab' sess n'"
  shows "map_of tab cid = map_of tab' cid"
proof -
  have "map_of t cid = Some s \<longleftrightarrow> (\<exists>v. sess s = Some v \<and> s_client_id v = cid)" if "sessions_ok t sess m" for t m s
    using sessions_okD(1,2) [OF that] by blast
  then have "map_of tab cid = Some s \<longleftrightarrow> map_of tab' cid = Some s" for s using assms by simp
  then show ?thesis by (metis option.exhaust)
qed

definition taken_from :: "ctx_ref \<Rightarrow> chan_ref \<Rightarrow> string \<Rightarrow> Broker \<Rightarrow> Broker \<Rightarrow> bool" where
  "taken_from x c cid b b' \<longleftrightarrow> broker_inv b' \<and> b_sess b' = b_sess b \<and> b_retains b' = b_retains b \<and> b_delivered b' = b_delivered b \<and>
     (\<forall>s. outbox_queue (b_outbox b') s = outbox_queue (b_outbox b) s) \<and>
     b_ctxs b' x = b_ctxs b x \<and> (x = Suc c \<longrightarrow> b_chans b' c = b_chans b c) \<and>
     (\<forall>y. byId cid b = Some y \<longrightarrow> y \<noteq> x \<longrightarrow> cc_taken_over (b_ctxs b' y) \<and> cc_channel (b_ctxs b' y) = None \<and>
        (\<forall>c'. cc_channel (b_ctxs b y) = Some c' \<longrightarrow> isClosing c' b'))"

text \<open>Closing the channel of a context that has no session: nothing but the registries changes.\<close>

lemma requestClose_detached:
  assumes inv: "broker_inv b" and ctx: "cc_taken_over (b_ctxs b y)" "cc_session (b_ctxs b y) = None"
    and ch: "lock_channel y b = Some (c, ch)"
  shows "\<exists>b'. requestClose (onClose (Suc n) env) c reason b = Ok () b' \<and> broker_inv b' \<and> isClosing c b' \<and>
    closed_from b None (b'\<lparr>b_chans := b_chans b\<rparr>) \<and> (\<forall>c'. c' \<noteq> c \<longrightarrow> b_chans b' c' = b_chans b c')"
proof (cases "ch_closing ch")
  case True
  then show ?thesis
    using inv lock_channel_live [OF ch] by (simp add: requestClose_def isClosing_def closed_from_def)
next
  case open_: False
  have live: "b_chans b c = Some ch" by (rule lock_channel_live [OF ch])
  have own: "byChannel c b = None \<or> byChannel c b = Some y"
    using inv_own_channel [OF inv lock_channel_ctx [OF ch]] by (cases "byChannel c b") auto
  have quiet: "\<not> will_due (b_ctxs b y)" "session_ended y b = None"
    using ctx by (simp_all add: will_due_def session_ended_def lock_session_def)
  have "\<exists>b1. onClose (Suc n) env c reason b = Ok () b1 \<and> broker_inv b1 \<and> closed_from b None b1"
  proof (cases "byChannel c b")
    case None
    then show ?thesis using inv by (simp add: closed_from_def)
  next
    case (Some z)
    then have "byChannel c b = Some y" using own by simp
    from onClose_outcome [OF inv this, of n env reason] quiet
    show ?thesis by (auto simp: closed_from_def simp del: onClose.simps)
  qed
  then obtain b1 where "onClose (Suc n) env c reason b = Ok () b1" "broker_inv b1" "closed_from b None b1" by blast
  then show ?thesis
    using live open_
    by (auto simp: requestClose_def channel_close_def seqP_apply isClosing_def closed_from_def simp del: onClose.simps)
qed

lemma takeover_outcome:
  assumes inv: "broker_inv b"
  shows "wp (connect_takeover (onClose (Suc n) env) x cid) (\<lambda>_. taken_from x c cid b) never b"
proof (cases "byId cid b = None \<or> byId cid b = Some x")
  case True
  then show ?thesis using inv by (auto simp: connect_takeover_def taken_from_def)
next
  case False
  then obtain y where y: "byId cid b = Some y" "y \<noteq> x" by auto
  define b1 where "b1 = upd_ctx y (\<lambda>ctx. ctx\<lparr>cc_taken_over := True, cc_session := None\<rparr>) b"
  have inv1: "broker_inv b1" unfolding b1_def using inv by (intro inv_upd_ctx) simp_all
  have final: "taken_from x c cid b (upd_ctx y (\<lambda>ctx. ctx\<lparr>cc_channel := None\<rparr>) b2)"
    if "broker_inv b2" "closed_from b1 None (b2\<lparr>b_chans := b_chans b1\<rparr>)"
      "\<forall>c'. cc_channel (b_ctxs b y) = Some c' \<longrightarrow> isClosing c' b2"
      "\<forall>c'. cc_channel (b_ctxs b y) \<noteq> Some c' \<longrightarrow> b_chans b2 c' = b_chans b1 c'" for b2
  proof -
    have "broker_inv (upd_ctx y (\<lambda>ctx. ctx\<lparr>cc_channel := None\<rparr>) b2)" using that(1) by (intro inv_upd_ctx) simp_all
    moreover have "cc_channel (b_ctxs b y) = Some c' \<Longrightarrow> y = Suc c'" for c' by (rule inv_channel_ref [OF inv])
    ultimately show ?thesis
      using that(2-) y by (auto simp: taken_from_def closed_from_def b1_def isClosing_def fun_eq_iff)
  qed
  have "wp (bindP (getP (lock_channel y)) (\<lambda>channel. case channel of
      Some (c, ch) \<Rightarrow> requestClose (onClose (Suc n) env) c ''session takeover'' | None \<Rightarrow> returnP ()))
      (\<lambda>_ b2. taken_from x c cid b (upd_ctx y (\<lambda>ctx. ctx\<lparr>cc_channel := None\<rparr>) b2)) never b1"
  proof (cases "lock_channel y b1")
    case None
    then have "\<forall>c'. cc_channel (b_ctxs b y) = Some c' \<longrightarrow> isClosing c' b1"
      by (auto simp: lock_channel_def isClosing_def b1_def split: option.splits)
    then show ?thesis using None final [OF inv1] by (simp add: closed_from_def)
  next
    case (Some cch)
    obtain c' ch where cch: "cch = (c', ch)" by (cases cch)
    have own: "cc_channel (b_ctxs b y) = Some c'"
      using lock_channel_ctx [of y b1 c' ch] Some cch by (simp add: b1_def)
    obtain b2 where b2: "requestClose (onClose (Suc n) env) c' ''session takeover'' b1 = Ok () b2" "broker_inv b2" "isClosing c' b2"
        "closed_from b1 None (b2\<lparr>b_chans := b_chans b1\<rparr>)" "\<forall>d. d \<noteq> c' \<longrightarrow> b_chans b2 d = b_chans b1 d"
      using requestClose_detached [OF inv1, of y c' ch n env "''session takeover''"] Some cch by (auto simp: b1_def)
    then show ?thesis
      using Some cch own final [OF b2(2,4)] by (simp add: wp_def del: onClose.simps)
  qed
  then show ?thesis
    using y unfolding connect_takeover_def wp_bindP wp_prim b1_def by (simp del: onClose.simps)
qed

definition fresh_session :: "string \<Rightarrow> bool \<Rightarrow> Session" where
  "fresh_session cid clean = \<lparr>s_client_id = cid, s_clean_session = clean, s_subscriptions = []\<rparr>"

lemma queue_of_dead:
  assumes "broker_inv b" "b_sess b s = None"
  shows "outbox_queue (b_outbox b) s = []"
proof -
  have "\<forall>m \<in> set (outbox_queue (b_outbox b) s). b_sess b s \<noteq> None"
    using assms(1) unfolding broker_inv_def outbox_ok_def by blast
  then show ?thesis using assms(2) by (cases "outbox_queue (b_outbox b) s") auto
qed

lemma new_session_outcome:
  assumes inv: "broker_inv b" and none: "map_of (b_sessions b) cid = None"
  shows "wp (new_session cid clean) (\<lambda>s b'. broker_inv b' \<and> b_ctxs b' = b_ctxs b \<and> b_chans b' = b_chans b \<and> b_retains b' = b_retains b \<and>
           b_delivered b' = b_delivered b \<and> b_sess b' s = Some (fresh_session cid clean) \<and> outbox_queue (b_outbox b') s = []) never b"
proof -
  have "b_sess b (b_next_ref b) = None" by (rule sessions_okD(4) [OF inv_sessions [OF inv]])
  then have "outbox_queue (b_outbox b) (b_next_ref b) = []" by (rule queue_of_dead [OF inv])
  then have "wp (new_session cid clean) (\<lambda>s b'. b_ctxs b' = b_ctxs b \<and> b_chans b' = b_chans b \<and> b_retains b' = b_retains b \<and>
      b_delivered b' = b_delivered b \<and> b_sess b' s = Some (fresh_session cid clean) \<and> outbox_queue (b_outbox b') s = []) never b"
    by (simp add: new_session_def fresh_session_def)
  from wp_conj [OF wp_new_session_inv [OF inv none] this] show ?thesis
    by (rule wp_mono) simp_all
qed

lemma getSession_outcome:
  assumes inv: "broker_inv b" and fresh: "clean \<longrightarrow> map_of (b_sessions b) cid = None"
  shows "wp (getSession cid clean) (\<lambda>s b'. broker_inv b' \<and> b_ctxs b' = b_ctxs b \<and> b_chans b' = b_chans b \<and> b_retains b' = b_retains b \<and>
           b_delivered b' = b_delivered b \<and>
           (case map_of (b_sessions b) cid of
              None \<Rightarrow> b_sess b' s = Some (fresh_session cid clean) \<and> outbox_queue (b_outbox b') s = []
            | Some old \<Rightarrow> s = old \<and> b' = b)) never b"
proof (cases "map_of (b_sessions b) cid")
  case None
  then show ?thesis
    using new_session_outcome [OF inv None] by (auto simp: getSession_def)
next
  case (Some s)
  then show ?thesis using fresh inv by (simp add: getSession_def)
qed

text \<open>Sending the queued messages of a session.\<close>

definition bound :: "Broker \<Rightarrow> Broker \<Rightarrow> bool" where
  "bound b b' \<longleftrightarrow> b_sess b' = b_sess b \<and> b_retains b' = b_retains b \<and> b_by_id b' = b_by_id b \<and>
     (\<forall>y. publisher_side (b_ctxs b' y) = publisher_side (b_ctxs b y)) \<and>
     (\<forall>d. map_option ch_closing (b_chans b' d) = map_option ch_closing (b_chans b d))"

lemma delivered_closing:
  "map_option ch_closing (b_chans (delivered x c msg q r d b) c') = map_option ch_closing (b_chans b c')"
  by (simp add: delivered_def Let_def)

lemma bound_deliver:
  "small_msg msg \<Longrightarrow> bound b b' \<Longrightarrow> wp (deliver on_close x msg q r d) (\<lambda>_. bound b) E b'"
  by (simp add: wp_def deliver_eq bound_def publisher_side_delivered delivered_closing split: option.split)

lemma drain_outcome:
  assumes inv: "broker_inv b"
  shows "wp (outbox_drain b_outbox b_outbox_update (\<lambda>m q r. deliver on_close x m q r True) s)
           (\<lambda>_ b'. bound b b' \<and> outbox_queue (b_outbox b') s = []) never b"
proof (cases "map_of (b_outbox b) s")
  case None
  then show ?thesis by (simp add: outbox_drain_def bound_def outbox_queue_def)
next
  case (Some q)
  have small: "small_msg (om_msg m)" if "m \<in> set q" for m
    using inv that Some by (auto simp: broker_inv_def outbox_ok_def outbox_queue_def dest: spec [of _ s])
  have "wp (forP q (\<lambda>m. deliver on_close x (om_msg m) (om_granted_qos m) (om_retained m) True))
      (\<lambda>_ b'. bound b (b_outbox_update (AList.delete s) b') \<and> outbox_queue (b_outbox (b_outbox_update (AList.delete s) b')) s = []) never b"
  proof (rule wp_forP [where I = "bound b"])
    show "bound b b" by (simp add: bound_def)
  next
    fix m b' assume "m \<in> set q" "bound b b'"
    then show "wp (deliver on_close x (om_msg m) (om_granted_qos m) (om_retained m) True) (\<lambda>_. bound b) never b'"
      using small bound_deliver by blast
  next
    fix b' assume "bound b b'"
    then show "bound b (b_outbox_update (AList.delete s) b') \<and> outbox_queue (b_outbox (b_outbox_update (AList.delete s) b')) s = []"
      by (simp add: bound_def outbox_queue_def delete_conv')
  qed
  then show ?thesis using Some by (simp add: outbox_drain_def)
qed

lemma connect_finish_outcome:
  assumes inv: "broker_inv b" and ch: "lock_channel x b = Some (c, ch)" and s: "lock_session x b = Some (s, v)"
  shows "wp (connect_finish env on_close x cp cid existed) (\<lambda>_ b'. bound (b\<lparr>b_by_id := (b_by_id b)(cid \<mapsto> x)\<rparr>) b' \<and>
           (existed \<and> \<not> cp_clean_session cp \<longrightarrow> outbox_queue (b_outbox b') s = []) \<and>
           (\<not> (existed \<and> \<not> cp_clean_session cp) \<longrightarrow> b_outbox b' = b_outbox b)) never b"
proof -
  have drain: "wp (outbox_drain b_outbox b_outbox_update (\<lambda>m q r. deliver on_close x m q r True) s)
      (\<lambda>_ b''. bound (b\<lparr>b_by_id := (b_by_id b)(cid \<mapsto> x)\<rparr>) (b''\<lparr>b_events := b_events b'' @ evs\<rparr>) \<and> outbox_queue (b_outbox b'') s = []) never b'"
    if "broker_inv b'" "bound (b\<lparr>b_by_id := (b_by_id b)(cid \<mapsto> x)\<rparr>) b'" for b' evs
    using drain_outcome [OF that(1)] by (rule wp_mono) (use that(2) in \<open>auto simp: bound_def\<close>)
  have lock: "lock_session x (send_bytes c p b') = lock_session x b'" "lock_session x (upd_chan c f b') = lock_session x b'"
      "lock_session x (b'\<lparr>b_by_id := ids\<rparr>) = lock_session x b'" for p f b' ids
    by (simp_all add: lock_session_def split: option.split)
  show ?thesis
    using inv ch s drain
    by (auto simp: connect_finish_def wp_whenP channel_setKeepalive_def bindId_def wp_send [OF sendable_connack] lock bound_def
        option.map_comp o_def)
qed

text \<open>What the handler does after the takeover: the session, the binding and the reply.\<close>

lemma connect_binding:
  fixes b1 :: Broker
  assumes takeover: "connect_takeover (onClose (Suc n) env) x cid b = Ok () b1" and inv: "broker_inv b1"
    and ch: "lock_channel x b1 = Some (c, ch)"
    and will: "length (cp_will_topic cp) < 65536" "length (cp_will_payload cp) < 65536"
    and fresh: "cp_clean_session cp \<longrightarrow> map_of (b_sessions b1) cid = None"
  shows "\<exists>b' s v. connect_accept env (onClose (Suc n) env) x cp cid b = Ok () b' \<and> broker_inv b' \<and> b_sess b' s = Some v \<and>
    (case map_of (b_sessions b1) cid of
       None \<Rightarrow> v = fresh_session cid (cp_clean_session cp) | Some old \<Rightarrow> s = old \<and> b_sess b1 s = Some v) \<and>
    outbox_queue (b_outbox b') s = [] \<and> b_retains b' = b_retains b1 \<and> b_by_id b' = (b_by_id b1)(cid \<mapsto> x) \<and>
    (\<forall>y. publisher_side (b_ctxs b' y) = publisher_side (b_ctxs (bind_client x cp cid s b1) y)) \<and>
    (\<forall>d. map_option ch_closing (b_chans b' d) = map_option ch_closing (b_chans b1 d))"
proof -
  obtain s b2 where b2: "getSession cid (cp_clean_session cp) b1 = Ok s b2" "broker_inv b2" "b_ctxs b2 = b_ctxs b1" "b_chans b2 = b_chans b1"
      "b_retains b2 = b_retains b1"
      "case map_of (b_sessions b1) cid of
         None \<Rightarrow> b_sess b2 s = Some (fresh_session cid (cp_clean_session cp)) \<and> outbox_queue (b_outbox b2) s = []
       | Some old \<Rightarrow> s = old \<and> b2 = b1"
    using wp_Ok [OF getSession_outcome [OF inv fresh]] by blast
  have "keeps b_by_id (getSession cid (cp_clean_session cp))"
    by (auto simp: getSession_def new_session_def dropSession_def split: option.split)
  note ids = keepsD(1) [OF this b2(1)]
  obtain v where v: "b_sess b2 s = Some v"
    using b2(6) sessions_okD(1) [OF inv_sessions [OF inv], of cid s] by (auto split: option.splits)
  define b3 where "b3 = bind_client x cp cid s b2"
  have inv3: "broker_inv b3"
    unfolding b3_def bind_client_def using b2(2) will by (intro inv_upd_ctx) (simp_all add: ctx_ok_def)
  have lock3: "lock_channel x b3 = Some (c, ch)" "lock_session x b3 = Some (s, v)"
    using ch b2(3,4) v by (auto simp: b3_def bind_client_def lock_channel_def lock_session_def split: option.splits)
  obtain b4 where b4: "connect_finish env (onClose (Suc n) env) x cp cid (sessionExists cid b1) b3 = Ok () b4" "broker_inv b4"
      "bound (b3\<lparr>b_by_id := (b_by_id b3)(cid \<mapsto> x)\<rparr>) b4"
      "sessionExists cid b1 \<and> \<not> cp_clean_session cp \<longrightarrow> outbox_queue (b_outbox b4) s = []"
      "\<not> (sessionExists cid b1 \<and> \<not> cp_clean_session cp) \<longrightarrow> b_outbox b4 = b_outbox b3"
    using wp_Ok_unit [OF connect_finish_outcome [OF inv3 lock3, of env "onClose (Suc n) env" cp cid "sessionExists cid b1"]]
      wp_OkD [OF engine.connect_finish_inv [OF inv3]] by metis
  have "connect_accept env (onClose (Suc n) env) x cp cid b = Ok () b4"
    using takeover b2(1) b4(1)
    by (simp add: connect_accept_def seqP_apply bindP_apply b3_def [symmetric] del: onClose.simps)
  moreover have "outbox_queue (b_outbox b4) s = []"
    using b4(4,5) b2(6) fresh by (auto simp: sessionExists_def b3_def bind_client_def split: option.splits)
  moreover have "b_sess b4 s = Some v" "b_retains b4 = b_retains b1" "b_by_id b4 = (b_by_id b1)(cid \<mapsto> x)"
      "publisher_side (b_ctxs b4 y) = publisher_side (b_ctxs (bind_client x cp cid s b1) y)"
      "map_option ch_closing (b_chans b4 d) = map_option ch_closing (b_chans b1 d)" for y d
    using b4(3) b2(3,4,5) v ids by (simp_all add: bound_def b3_def bind_client_def)
  ultimately show ?thesis
    using b4(2) b2(6) v by (intro exI [of _ b4] exI [of _ s] exI [of _ v]) (auto split: option.splits)
qed

text \<open>The sessions and the connection of \<open>x\<close> are the same after the takeover.\<close>

lemma takeover_keeps:
  assumes inv: "broker_inv b" and b1: "taken_from x c cid b b1"
  shows "broker_inv b1" and "map_of (b_sessions b1) cid' = map_of (b_sessions b) cid'"
    and "lock_channel x b = Some (c, ch) \<Longrightarrow> lock_channel x b1 = Some (c, ch)"
proof -
  show inv1: "broker_inv b1" using b1 by (simp add: taken_from_def)
  show "map_of (b_sessions b1) cid' = map_of (b_sessions b) cid'"
    using sessions_determined [OF inv_sessions [OF inv1], of "b_sessions b" "b_next_ref b"] inv_sessions [OF inv] b1
    by (simp add: taken_from_def)
  assume ch: "lock_channel x b = Some (c, ch)"
  have "x = Suc c" using inv_channel_ref [OF inv lock_channel_ctx [OF ch]] .
  then show "lock_channel x b1 = Some (c, ch)"
    using ch b1 by (auto simp: lock_channel_def taken_from_def split: option.splits)
qed

lemma connect_accept_replaces:
  assumes inv: "broker_inv b" and clean: "cp_clean_session cp" and old: "map_of (b_sessions b) cid = Some s"
  shows "connect_accept env (onClose (Suc n) env) x cp cid b = Undef"
proof -
  obtain b1 where b1: "connect_takeover (onClose (Suc n) env) x cid b = Ok () b1" "taken_from x 0 cid b b1"
    using wp_Ok_unit [OF takeover_outcome [OF inv, of n env x cid 0]] by blast
  have "getSession cid True b1 = Undef"
    using takeover_keeps(1,2) [OF inv b1(2)] old getSession_replaces by metis
  then show ?thesis
    using b1(1) clean by (simp add: connect_accept_def seqP_apply bindP_apply del: onClose.simps)
qed

text \<open>
  C14. A CONNECT that passes every check. With clean session, when the session table still holds
  a session of the client, \<open>getSession\<close> uses the reference to the entry it erases and the handler
  has undefined behaviour. In every other case the client is accepted: it is connected and
  reached by its identifier, and bound to its session, the stored one with its subscriptions,
  whose queue is handed over, or a new and empty one. An older connection of the same client is
  taken over: marked so, its channel closed, and detached; the sessions are kept and its will is
  not published.
\<close>

theorem connect_accepted:
  assumes inv: "broker_inv b" and ch: "lock_channel x b = Some (c, ch)"
    and connect: "\<not> cc_connected (b_ctxs b x)" "pkt_body pkt = ConnectBody cp" "cp_protocol cp = ''MQTT''" "cp_client_id cp \<noteq> []"
      "length (cp_will_topic cp) < 65536" "length (cp_will_payload cp) < 65536"
    and ok: "connect_verdict env b cp = accepted"
  shows "if cp_clean_session cp \<and> sessionExists (cp_client_id cp) b
    then ConnectHandler env (onClose (Suc n) env) x pkt b = Undef
    else \<exists>b' s v. ConnectHandler env (onClose (Suc n) env) x pkt b = Ok () b' \<and> broker_inv b' \<and>
      byId (cp_client_id cp) b' = Some x \<and> cc_connected (b_ctxs b' x) \<and> cc_client_id (b_ctxs b' x) = cp_client_id cp \<and>
      lock_session x b' = Some (s, v) \<and> outbox_queue (b_outbox b') s = [] \<and>
      (case map_of (b_sessions b) (cp_client_id cp) of
         Some old \<Rightarrow> s = old \<and> b_sess b old = Some v
       | None \<Rightarrow> v = fresh_session (cp_client_id cp) (cp_clean_session cp)) \<and>
      b_retains b' = b_retains b \<and>
      (\<forall>y. byId (cp_client_id cp) b = Some y \<longrightarrow> y \<noteq> x \<longrightarrow> cc_taken_over (b_ctxs b' y) \<and> cc_channel (b_ctxs b' y) = None \<and>
         (\<forall>c'. cc_channel (b_ctxs b y) = Some c' \<longrightarrow> isClosing c' b'))"
proof (cases "cp_clean_session cp \<and> sessionExists (cp_client_id cp) b")
  case True
  then show ?thesis
    using connect_accept_replaces [OF inv, of cp "cp_client_id cp"] ok
    by (auto simp: ConnectHandler_verdict [OF connect(1-4)] sessionExists_def simp del: onClose.simps)
next
  case False
  let ?cid = "cp_client_id cp"
  obtain b1 where b1: "connect_takeover (onClose (Suc n) env) x ?cid b = Ok () b1" "taken_from x c ?cid b b1"
    using wp_Ok_unit [OF takeover_outcome [OF inv]] by blast
  note kept = takeover_keeps [OF inv b1(2)]
  have "cp_clean_session cp \<longrightarrow> map_of (b_sessions b1) ?cid = None" using False by (simp add: kept(2) sessionExists_def)
  from connect_binding [OF b1(1) kept(1) kept(3) [OF ch] connect(5,6) this]
  obtain b4 s v where b4: "connect_accept env (onClose (Suc n) env) x cp ?cid b = Ok () b4" "broker_inv b4" "b_sess b4 s = Some v"
      "case map_of (b_sessions b1) ?cid of
         None \<Rightarrow> v = fresh_session ?cid (cp_clean_session cp) | Some old \<Rightarrow> s = old \<and> b_sess b1 s = Some v"
      "outbox_queue (b_outbox b4) s = []" "b_retains b4 = b_retains b1" "b_by_id b4 = (b_by_id b1)(?cid \<mapsto> x)"
      "\<forall>y. publisher_side (b_ctxs b4 y) = publisher_side (b_ctxs (bind_client x cp ?cid s b1) y)"
      "\<forall>d. map_option ch_closing (b_chans b4 d) = map_option ch_closing (b_chans b1 d)"
    by blast
  have handler: "ConnectHandler env (onClose (Suc n) env) x pkt b = Ok () b4"
    using b4(1) by (simp add: ConnectHandler_verdict [OF connect(1-4)] ok del: onClose.simps)
  note side = publisher_sideD [OF spec [OF b4(8)]]
  have me: "cc_connected (b_ctxs b4 x)" "cc_client_id (b_ctxs b4 x) = ?cid" "cc_session (b_ctxs b4 x) = Some s"
    using side(1,2,5) [of x] by (simp_all add: bind_client_def)
  have closing: "isClosing d b4 = isClosing d b1" for d
    using spec [OF b4(9), of d] by (auto simp: isClosing_def split: option.splits)
  have others: "cc_taken_over (b_ctxs b4 y) \<and> cc_channel (b_ctxs b4 y) = None \<and>
      (\<forall>c'. cc_channel (b_ctxs b y) = Some c' \<longrightarrow> isClosing c' b4)" if "byId ?cid b = Some y" "y \<noteq> x" for y
    using side(6,7) [of y] b1(2) that by (simp add: bind_client_def taken_from_def closing)
  have "byId ?cid b4 = Some x" "b_retains b4 = b_retains b" "b_sess b1 = b_sess b"
    using b4(6,7) b1(2) by (simp_all add: byId_def taken_from_def)
  then show ?thesis
    unfolding if_not_P [OF False] using handler b4(2,3,5) b4(4) [unfolded kept(2)] me others
    by (intro exI [of _ b4] exI [of _ s] exI [of _ v])
       (auto simp: lock_session_def simp del: onClose.simps split: option.splits)
qed

text \<open>The demonstration broker with a second, new connection.\<close>

definition demo_pending :: Broker where
  "demo_pending = demo_broker\<lparr>b_chans := (b_chans demo_broker)(4 \<mapsto> channel_new 64 0), b_channels := [0, 4],
     b_ctxs := (b_ctxs demo_broker)(5 := new_context 4), b_by_channel := [(0, 1), (4, 5)], b_next_ref := 6\<rparr>"

definition demo_connect :: "byte \<Rightarrow> ConnectPacket" where
  "demo_connect level = \<lparr>cp_level = level, cp_protocol = ''MQTT'', cp_client_id = ''a'', cp_username = [], cp_password = [],
     cp_will_topic = [], cp_will_payload = [], cp_will_qos = AtMostOnce, cp_will_retain = False,
     cp_has_will = False, cp_clean_session = False, cp_keepalive = 60, cp_byte = 0\<rparr>"

lemma demo_pending_inv: "broker_inv demo_pending"
proof -
  have eq: "demo_pending = demo_broker\<lparr>b_chans := (b_chans demo_broker)(4 \<mapsto> channel_new 64 0), b_channels := [0, 4],
      b_ctxs := (b_ctxs demo_broker)(Suc 4 := new_context 4), b_by_channel := AList.update 4 (Suc 4) (b_by_channel demo_broker),
      b_next_ref := Suc (Suc 4)\<rparr>"
    by (simp add: demo_pending_def demo_broker_def)
  show ?thesis
    unfolding eq by (rule inv_add_channel [OF demo_inv]) (simp add: demo_broker_def)
qed

lemma demo_pending_channel:
  "byChannel 4 demo_pending = Some 5" "lock_channel 5 demo_pending = Some (4, channel_new 64 0)" "\<not> ch_closing (channel_new 64 0)"
  "\<not> cc_connected (b_ctxs demo_pending 5)" "connectionCount demo_pending = 2"
  by (simp_all add: byChannel_def lock_channel_def demo_pending_def demo_broker_def new_context_def channel_new_def connectionCount_def)

lemma demo_connect_simps [simp]:
  "cp_protocol (demo_connect l) = ''MQTT''" "cp_client_id (demo_connect l) = ''a''" "cp_level (demo_connect l) = l"
  "cp_will_topic (demo_connect l) = []" "cp_will_payload (demo_connect l) = []" "\<not> cp_clean_session (demo_connect l)"
  by (simp_all add: demo_connect_def)

theorem connect_rejected_witness:
  "\<exists>b'. ConnectHandler demo_env (onClose (Suc 0) demo_env) 5 \<lparr>pkt_type = Connect, pkt_body = ConnectBody (demo_connect 3)\<rparr> demo_pending = Ok () b' \<and>
     b_chans b' 4 = Some ((channel_new 64 0)\<lparr>ch_closing := True,
       ch_transport := transport_close (transport_asyncSend [0x20, 0x02, 0x00, 0x01] transport_new)\<rparr>)"
proof -
  have verdict: "connect_verdict demo_env demo_pending (demo_connect 3) = bad_protocol_version"
    by (simp add: connect_verdict_def demo_env_def demo_pending_channel)
  show ?thesis
    using connect_rejected [OF demo_pending_inv demo_pending_channel(1-4) _ _ _ verdict,
        of "\<lparr>pkt_type = Connect, pkt_body = ConnectBody (demo_connect 3)\<rparr>" 0]
    by (auto simp: channel_new_def simp del: onClose.simps)
qed

theorem connect_accepted_witness:
  "(\<exists>b'. ConnectHandler demo_env (onClose (Suc 0) demo_env) 5 \<lparr>pkt_type = Connect, pkt_body = ConnectBody (demo_connect 4)\<rparr> demo_pending = Ok () b' \<and>
     byId ''a'' b' = Some 5 \<and> lock_session 5 b' = Some (2, demo_session ''a'') \<and> cc_taken_over (b_ctxs b' 1) \<and> isClosing 0 b') \<and>
   ConnectHandler demo_env (onClose (Suc 0) demo_env) 5
     \<lparr>pkt_type = Connect, pkt_body = ConnectBody ((demo_connect 4)\<lparr>cp_clean_session := True\<rparr>)\<rparr> demo_pending = Undef"
proof -
  have verdict: "connect_verdict demo_env demo_pending (demo_connect 4) = accepted"
      "connect_verdict demo_env demo_pending ((demo_connect 4)\<lparr>cp_clean_session := True\<rparr>) = accepted"
    by (simp_all add: connect_verdict_def demo_env_def demo_pending_channel authenticate_def canConnect_def registerSecurity_def
        addAuthenticator_def addAuthorizer_def SecurityChain_empty_def AllowAllAuthorizer_def AllowAllAuthenticator_def)
  have old: "map_of (b_sessions demo_pending) ''a'' = Some 2" "b_sess demo_pending 2 = Some (demo_session ''a'')"
      "byId ''a'' demo_pending = Some 1" "cc_channel (b_ctxs demo_pending 1) = Some 0" "sessionExists ''a'' demo_pending"
    by (simp_all add: demo_pending_def demo_broker_def byId_def demo_client_def new_context_def sessionExists_def)
  show ?thesis
    using old
      connect_accepted [OF demo_pending_inv demo_pending_channel(2,4) _ _ _ _ _ verdict(1),
        of "\<lparr>pkt_type = Connect, pkt_body = ConnectBody (demo_connect 4)\<rparr>" 0]
      connect_accepted [OF demo_pending_inv demo_pending_channel(2,4) _ _ _ _ _ verdict(2),
        of "\<lparr>pkt_type = Connect, pkt_body = ConnectBody ((demo_connect 4)\<lparr>cp_clean_session := True\<rparr>)\<rparr>" 0]
    by (auto simp del: onClose.simps)
qed

section \<open>SUBSCRIBE\<close>

definition grant_code :: "Env \<Rightarrow> string \<Rightarrow> SubscribeEntry \<Rightarrow> byte" where
  "grant_code env cid e = (if isTopicFilterInvalid (se_filter e) \<or> \<not> canSubscribe (env_security env) cid (se_filter e)
     then 0x80 else qos_val (se_qos e))"

definition grant_all :: "Env \<Rightarrow> string \<Rightarrow> SubscribeEntry list \<Rightarrow> (string \<Rightarrow> Qos option) \<Rightarrow> string \<Rightarrow> Qos option" where
  "grant_all env cid es m = fold (\<lambda>e m. if grant_code env cid e = 0x80 then m else m(se_filter e \<mapsto> se_qos e)) es m"

lemma grant_code_80: "grant_code env cid e = 0x80 \<longleftrightarrow>
    isTopicFilterInvalid (se_filter e) \<or> \<not> canSubscribe (env_security env) cid (se_filter e)"
  by (cases "se_qos e") (auto simp: grant_code_def)

text \<open>The state after some entries of a SUBSCRIBE from \<open>x\<close>, whose session is \<open>s\<close>.\<close>

definition subscribed :: "ctx_ref \<Rightarrow> session_ref \<Rightarrow> Broker \<Rightarrow> (string \<Rightarrow> Qos option) \<Rightarrow> Broker \<Rightarrow> bool" where
  "subscribed x s b m b' \<longleftrightarrow> broker_inv b' \<and> publisher_side (b_ctxs b' x) = publisher_side (b_ctxs b x) \<and> b_sess b' s \<noteq> None \<and>
     subscription (b_topics b') s = m \<and> (\<forall>s'. s' \<noteq> s \<longrightarrow> subscription (b_topics b') s' = subscription (b_topics b) s')"

lemma subscribed_deliver:
  assumes "subscribed x s b m b'" "small_msg msg"
  shows "wp (deliver on_close y msg q r d) (\<lambda>_. subscribed x s b m) E b'"
proof -
  have "wp (deliver on_close y msg q r d) (\<lambda>_ b''. broker_inv b'' \<and> publisher_side (b_ctxs b'' x) = publisher_side (b_ctxs b' x) \<and>
      b_sess b'' = b_sess b' \<and> b_topics b'' = b_topics b') never b'"
  proof -
    have "wp (deliver on_close y msg q r d) (\<lambda>_ b''. publisher_side (b_ctxs b'' x) = publisher_side (b_ctxs b' x) \<and>
        b_sess b'' = b_sess b' \<and> b_topics b'' = b_topics b') never b'"
      using assms(2) by (simp add: wp_def deliver_eq publisher_side_delivered split: option.split)
    from wp_conj [OF wp_deliver_inv this] assms show ?thesis
      by (auto simp: subscribed_def intro: wp_mono)
  qed
  then show ?thesis by (rule wp_mono) (use assms(1) in \<open>auto simp: subscribed_def\<close>)
qed

lemma subscribed_session:
  assumes "subscribed x s b m b'" "cc_session (b_ctxs b x) = Some s"
  shows "\<exists>v. lock_session x b' = Some (s, v) \<and> b_sess b' s = Some v" "cc_client_id (b_ctxs b' x) = cc_client_id (b_ctxs b x)"
proof -
  have side: "publisher_side (b_ctxs b' x) = publisher_side (b_ctxs b x)" using assms(1) by (simp add: subscribed_def)
  show "cc_client_id (b_ctxs b' x) = cc_client_id (b_ctxs b x)" by (rule publisher_sideD(2) [OF side])
  show "\<exists>v. lock_session x b' = Some (s, v) \<and> b_sess b' s = Some v"
    using publisher_sideD(5) [OF side] assms by (auto simp: lock_session_def subscribed_def)
qed

lemma subscribe_entry_outcome:
  assumes sub: "subscribed x s b m b'" and s: "cc_session (b_ctxs b x) = Some s"
  defines "cid \<equiv> cc_client_id (b_ctxs b x)"
  shows "wp (subscribe_entry env on_close x e) (\<lambda>code b''. code = grant_code env cid e \<and>
           subscribed x s b (if code = 0x80 then m else m(se_filter e \<mapsto> se_qos e)) b'') E b'"
proof (cases "grant_code env cid e = 0x80")
  case True
  then show ?thesis
    using sub subscribed_session(2) [OF sub s] unfolding grant_code_80 subscribe_entry_def wp_bindP wp_prim
    by (auto simp: grant_code_def cid_def)
next
  case False
  then have ok: "\<not> isTopicFilterInvalid (se_filter e)" "canSubscribe (env_security env) cid (se_filter e)"
      "grant_code env cid e = qos_val (se_qos e)"
    unfolding grant_code_80 by (simp_all add: grant_code_def split: if_splits)
  have code: "qos_val (se_qos e) \<noteq> 0x80" by (cases "se_qos e") simp_all
  obtain v where v: "lock_session x b' = Some (s, v)" "b_sess b' s = Some v" using subscribed_session(1) [OF sub s] by blast
  define b1 where "b1 = upd_sess s (\<lambda>v. v\<lparr>s_subscriptions := update_subscription (se_filter e) (se_qos e) (s_subscriptions v)\<rparr>)
      (b'\<lparr>b_topics := topic_add (b_topics b') s (se_filter e) (se_qos e)\<rparr>)"
  have inv1: "broker_inv b1" unfolding b1_def using inv_subscribe [OF _ v(2) ok(1)] sub by (simp add: subscribed_def)
  have sub1: "subscribed x s b (m(se_filter e \<mapsto> se_qos e)) b1"
    using sub inv1 v(2) by (auto simp: subscribed_def b1_def tree.granted_add fun_eq_iff)
  have "wp (forP (retain_all (b_retains b1)) (\<lambda>r. whenP (isTopicMatchesFilter (se_filter e) (m_topic r))
      (deliver on_close x r (se_qos e) True False))) (\<lambda>_. subscribed x s b (m(se_filter e \<mapsto> se_qos e))) E b1"
  proof (rule wp_forP [where I = "subscribed x s b (m(se_filter e \<mapsto> se_qos e))"])
    fix r b'' assume r: "r \<in> set (retain_all (b_retains b1))" and b'': "subscribed x s b (m(se_filter e \<mapsto> se_qos e)) b''"
    have "small_msg r" using inv1 r by (simp add: broker_inv_def retains_ok_def)
    then show "wp (whenP (isTopicMatchesFilter (se_filter e) (m_topic r)) (deliver on_close x r (se_qos e) True False))
        (\<lambda>_. subscribed x s b (m(se_filter e \<mapsto> se_qos e))) E b''"
      using subscribed_deliver [OF b''] b'' by (simp add: wp_whenP)
  qed (use sub1 in simp_all)
  moreover have "b_retains b1 = b_retains b'" by (simp add: b1_def)
  ultimately show ?thesis
    using ok code v(1) subscribed_session(2) [OF sub s] unfolding subscribe_entry_def wp_bindP wp_prim
    by (simp add: cid_def flip: b1_def)
qed

lemma subscribe_loop_outcome:
  assumes "subscribed x s b m b'" "cc_session (b_ctxs b x) = Some s"
  shows "wp (subscribe_loop env on_close x es granted)
           (\<lambda>codes b''. codes = granted @ map (grant_code env (cc_client_id (b_ctxs b x))) es \<and>
              subscribed x s b (grant_all env (cc_client_id (b_ctxs b x)) es m) b'') E b'"
  using assms
proof (induction es arbitrary: b' m granted)
  case Nil
  then show ?case by (simp add: grant_all_def wp_def)
next
  case (Cons e es)
  let ?cid = "cc_client_id (b_ctxs b x)"
  have "wp (subscribe_entry env on_close x e) (\<lambda>code. wp (subscribe_loop env on_close x es (granted @ [code]))
      (\<lambda>codes b''. codes = granted @ map (grant_code env ?cid) (e # es) \<and> subscribed x s b (grant_all env ?cid (e # es) m) b'') E) E b'"
    using subscribe_entry_outcome [OF Cons.prems, of env on_close e E]
  proof (rule wp_mono)
    fix code b''
    assume step: "code = grant_code env ?cid e \<and> subscribed x s b (if code = 0x80 then m else m(se_filter e \<mapsto> se_qos e)) b''"
    then have "subscribed x s b (if code = 0x80 then m else m(se_filter e \<mapsto> se_qos e)) b''" by (rule conjunct2)
    from Cons.IH [OF this Cons.prems(2), of "granted @ [code]"] step
    show "wp (subscribe_loop env on_close x es (granted @ [code]))
        (\<lambda>codes b''. codes = granted @ map (grant_code env ?cid) (e # es) \<and> subscribed x s b (grant_all env ?cid (e # es) m) b'') E b''"
      by (simp add: grant_all_def)
  qed simp
  then show ?case by simp
qed

text \<open>
  C15. SUBSCRIBE answers with one code per entry, in order: 0x80 for a filter that is invalid or
  not permitted, the requested quality of service otherwise; and afterwards the topic tree
  holds exactly the granted subscriptions in addition to the session's old ones, a repeated
  filter with its last quality of service, and other sessions' subscriptions as they were.
\<close>

theorem subscribe_granted:
  assumes inv: "broker_inv b" and s: "lock_session x b = Some (s, v)" and con: "cc_connected (b_ctxs b x)"
    and pkt: "pkt_body pkt = SubscribeBody sub" "sub_entries sub \<noteq> []"
  shows "\<exists>b'. SubscribeHandler env on_close x pkt b = Ok () (reply x (suback_packet (sub_packet_id sub)
      (map (grant_code env (cc_client_id (b_ctxs b x))) (sub_entries sub))) b') \<and> broker_inv b' \<and>
    subscription (b_topics b') s = grant_all env (cc_client_id (b_ctxs b x)) (sub_entries sub) (subscription (b_topics b) s) \<and>
    (\<forall>s'. s' \<noteq> s \<longrightarrow> subscription (b_topics b') s' = subscription (b_topics b) s')"
proof -
  have ses: "cc_session (b_ctxs b x) = Some s" using s by (auto simp: lock_session_def split: option.splits)
  have "subscribed x s b (subscription (b_topics b) s) b"
    using inv lock_session_live [OF s] by (simp add: subscribed_def)
  from wp_Ok [OF subscribe_loop_outcome [OF this ses, of env on_close "sub_entries sub" "[]" never]]
  obtain b' where b': "subscribe_loop env on_close x (sub_entries sub) [] b =
      Ok (map (grant_code env (cc_client_id (b_ctxs b x))) (sub_entries sub)) b'"
    "subscribed x s b (grant_all env (cc_client_id (b_ctxs b x)) (sub_entries sub) (subscription (b_topics b) s)) b'"
    by auto
  then show ?thesis
    using con pkt by (intro exI [of _ b']) (simp add: SubscribeHandler_def bindP_apply send_reply_eq [OF sendable_suback] subscribed_def)
qed

theorem subscribe_granted_witness:
  "\<exists>b'. SubscribeHandler demo_env (onClose (Suc 0) demo_env) 1
      \<lparr>pkt_type = Subscribe, pkt_body = SubscribeBody \<lparr>sub_packet_id = 7,
         sub_entries = [\<lparr>se_filter = ''a/#'', se_qos = AtLeastOnce\<rparr>, \<lparr>se_filter = '''', se_qos = ExactlyOnce\<rparr>]\<rparr>\<rparr> demo_broker =
        Ok () (reply 1 (suback_packet 7 [1, 0x80]) b') \<and>
     subscription (b_topics b') 2 = [''a/#'' \<mapsto> AtLeastOnce]"
proof -
  let ?sub = "\<lparr>sub_packet_id = 7, sub_entries = [\<lparr>se_filter = ''a/#'', se_qos = AtLeastOnce\<rparr>, \<lparr>se_filter = '''', se_qos = ExactlyOnce\<rparr>]\<rparr>"
  have ctx: "cc_connected (b_ctxs demo_broker 1)" "lock_session 1 demo_broker = Some (2, demo_session ''a'')"
    by (simp_all add: demo_broker_def demo_client_def lock_session_def)
  have codes: "grant_code demo_env cid \<lparr>se_filter = ''a/#'', se_qos = AtLeastOnce\<rparr> = 1"
      "grant_code demo_env cid \<lparr>se_filter = '''', se_qos = ExactlyOnce\<rparr> = 0x80" for cid
    using sample_filters
    by (simp_all add: grant_code_def demo_env_def canSubscribe_def registerSecurity_def addAuthenticator_def addAuthorizer_def
        SecurityChain_empty_def AllowAllAuthorizer_def isTopicFilterInvalid_def)
  have "subscription (b_topics demo_broker) 2 = Map.empty"
    by (simp add: demo_broker_def broker_init_def subscription_empty fun_eq_iff)
  then show ?thesis
    using subscribe_granted [OF demo_inv ctx(2,1), of "\<lparr>pkt_type = Subscribe, pkt_body = SubscribeBody ?sub\<rparr>" ?sub demo_env
        "onClose (Suc 0) demo_env"]
    by (auto simp: grant_all_def codes simp del: onClose.simps)
qed

text \<open>
  C40. DISCONNECT does not end the connection, and a client that goes on with another CONNECT
  under a new identifier is accepted, unless it asks for a clean session in the place of a
  stored one: from then on both identifiers lead to the one connected
  context, so that messages for the first client are sent to the second. This is why the result
  on routing has a condition on the identifiers of the recipients.
\<close>

theorem reconnect_two_identifiers:
  assumes inv: "broker_inv b" and ch: "lock_channel x b = Some (c, ch)" and first: "byId cid b = Some x"
    and connect: "pkt_body pkt = ConnectBody cp" "cp_protocol cp = ''MQTT''" "cp_client_id cp \<noteq> []"
      "length (cp_will_topic cp) < 65536" "length (cp_will_payload cp) < 65536"
    and second: "cp_client_id cp \<noteq> cid" "byId (cp_client_id cp) b = None" "connect_verdict env b cp = accepted"
      "\<not> cp_clean_session cp \<or> map_of (b_sessions b) (cp_client_id cp) = None"
  shows "\<exists>b1 b2. DisconnectHandler env on_close x disconnect b = Ok () b1 \<and>
    ConnectHandler env (onClose (Suc n) env) x pkt b1 = Ok () b2 \<and> broker_inv b2 \<and>
    byId cid b2 = Some x \<and> byId (cp_client_id cp) b2 = Some x \<and> cc_connected (b_ctxs b2 x)"
proof -
  let ?cid = "cp_client_id cp" and ?b = "upd_ctx x (\<lambda>ctx. ctx\<lparr>cc_clean_disconnect := True, cc_connected := False\<rparr>) b"
  have inv0: "broker_inv ?b" using inv by (intro inv_upd_ctx) (simp_all add: ctx_ok_def)
  have takeover: "connect_takeover (onClose (Suc n) env) x ?cid ?b = Ok () ?b"
    using second(2) by (simp add: connect_takeover_def byId_def)
  have "lock_channel x ?b = Some (c, ch)" using ch by (auto simp: lock_channel_def split: option.splits)
  moreover have "cp_clean_session cp \<longrightarrow> map_of (b_sessions ?b) ?cid = None" using second(4) by simp
  note connect_binding [OF takeover inv0 _ connect(4,5) this]
  ultimately
  obtain b2 s where b2: "connect_accept env (onClose (Suc n) env) x cp ?cid ?b = Ok () b2" "broker_inv b2" "b_by_id b2 = (b_by_id b)(?cid \<mapsto> x)"
      "publisher_side (b_ctxs b2 x) = publisher_side (b_ctxs (bind_client x cp ?cid s ?b) x)"
    by auto
  have "connect_verdict env ?b cp = accepted"
    using second(3) by (simp add: connect_verdict_def connectionCount_def)
  then have "ConnectHandler env (onClose (Suc n) env) x pkt ?b = Ok () b2"
    using b2(1) connect(1-3) by (simp add: ConnectHandler_verdict del: onClose.simps)
  moreover have "byId cid b2 = Some x" "byId ?cid b2 = Some x" "cc_connected (b_ctxs b2 x)"
    using b2(3) first second(1) publisher_sideD(1) [OF b2(4)] by (simp_all add: byId_def bind_client_def)
  ultimately show ?thesis using b2(2) by (auto simp: DisconnectHandler_def simp del: onClose.simps)
qed

theorem reconnect_two_identifiers_witness:
  "\<exists>b1 b2. DisconnectHandler demo_env (onClose (Suc 0) demo_env) 1 \<lparr>pkt_type = Disconnect, pkt_body = EmptyBody\<rparr> demo_broker = Ok () b1 \<and>
     ConnectHandler demo_env (onClose (Suc 0) demo_env) 1
       \<lparr>pkt_type = Connect, pkt_body = ConnectBody ((demo_connect 4)\<lparr>cp_client_id := ''z''\<rparr>)\<rparr> b1 = Ok () b2 \<and>
     byId ''a'' b2 = Some 1 \<and> byId ''z'' b2 = Some 1 \<and> cc_connected (b_ctxs b2 1)"
proof -
  let ?cp = "(demo_connect 4)\<lparr>cp_client_id := ''z''\<rparr>"
  have verdict: "connect_verdict demo_env demo_broker ?cp = accepted"
    by (simp add: connect_verdict_def connectionCount_def demo_env_def demo_broker_def authenticate_def canConnect_def registerSecurity_def
        addAuthenticator_def addAuthorizer_def SecurityChain_empty_def AllowAllAuthorizer_def AllowAllAuthenticator_def)
  have lock: "lock_channel 1 demo_broker = Some (0, channel_new 64 0)" and ids: "byId ''a'' demo_broker = Some 1" "byId ''z'' demo_broker = None"
    by (simp_all add: lock_channel_def byId_def demo_broker_def demo_client_def new_context_def)
  from reconnect_two_identifiers [OF demo_inv lock ids(1), of "\<lparr>pkt_type = Connect, pkt_body = ConnectBody ?cp\<rparr>" ?cp demo_env
      "onClose (Suc 0) demo_env" "\<lparr>pkt_type = Disconnect, pkt_body = EmptyBody\<rparr>" 0]
  show ?thesis using verdict ids by (simp del: onClose.simps) blast
qed

end
