(* ===== verification/Availability.thy ===== *)
theory Availability
  imports Connect
begin

text \<open>
  When the operations of the engine return. The worker's only undefined behaviour is the one of
  \<open>getSession\<close> in a CONNECT with clean session, and \<open>replaces_session\<close> tells exactly when a request
  runs into it.
\<close>

definition replaces_session :: "Env \<Rightarrow> ctx_ref \<Rightarrow> Packet \<Rightarrow> Broker \<Rightarrow> bool" where
  "replaces_session env x pkt b \<longleftrightarrow>
     \<not> cc_connected (b_ctxs b x) \<and>
     (case pkt_body pkt of
        ConnectBody cp \<Rightarrow> cp_protocol cp = ''MQTT'' \<and> connect_verdict env b cp = accepted \<and>
          cp_clean_session cp \<and> sessionExists (cp_client_id cp) b
      | _ \<Rightarrow> False)"

lemma replaces_session_requests [simp]:
  "replaces_session env x pkt (b\<lparr>b_requests := rs\<rparr>) = replaces_session env x pkt b"
  by (simp add: replaces_session_def connect_verdict_def connectionCount_def sessionExists_def split: PacketBody.split)

lemma connect_accept_returns:
  assumes inv: "broker_inv b" and will: "length (cp_will_topic cp) < 65536" "length (cp_will_payload cp) < 65536"
    and fresh: "cp_clean_session cp \<longrightarrow> map_of (b_sessions b) cid = None"
  shows "wp (connect_accept env (onClose (Suc n) env) x cp cid) (\<lambda>_. broker_inv) (\<lambda>_. broker_inv) b"
proof -
  let ?finish = "connect_finish env (onClose (Suc n) env) x cp cid"
  have bind: "broker_inv (bind_client x cp cid s b')" if "broker_inv b'" for s b'
    using that will unfolding bind_client_def by (intro inv_upd_ctx) (simp_all add: ctx_ok_def)
  have "wp (getSession cid (cp_clean_session cp)) (\<lambda>s b'. wp (?finish existed) (\<lambda>_. broker_inv) (\<lambda>_. broker_inv)
      (bind_client x cp cid s b')) (\<lambda>_. broker_inv) b1" if "taken_from x 0 cid b b1" for b1 existed
  proof -
    have "cp_clean_session cp \<longrightarrow> map_of (b_sessions b1) cid = None"
      using fresh takeover_keeps(2) [OF inv that] by simp
    from wp_getSession_inv [OF takeover_keeps(1) [OF inv that] this] show ?thesis
      by (rule wp_mono) (simp_all add: engine.connect_finish_inv bind del: onClose.simps)
  qed
  then show ?thesis
    unfolding connect_accept_def
    by (simp del: onClose.simps, intro wp_mono [OF takeover_outcome [OF inv, of n env x cid 0]]) (simp_all del: onClose.simps)
qed

lemma ConnectHandler_returns:
  assumes inv: "broker_inv b" and pkt: "Packet_ok pkt" "small_body (pkt_body pkt)"
  shows "if replaces_session env x pkt b then ConnectHandler env (onClose (Suc n) env) x pkt b = Undef
    else wp (ConnectHandler env (onClose (Suc n) env) x pkt) (\<lambda>_. broker_inv) (\<lambda>_. broker_inv) b"
proof (cases "\<exists>cp. pkt_body pkt = ConnectBody cp \<and> \<not> cc_connected (b_ctxs b x) \<and> cp_protocol cp = ''MQTT''")
  case False
  then show ?thesis
    using inv by (cases "pkt_body pkt") (auto simp: replaces_session_def ConnectHandler_def)
next
  case True
  then obtain cp where cp: "\<not> cc_connected (b_ctxs b x)" "pkt_body pkt = ConnectBody cp" "cp_protocol cp = ''MQTT''" by blast
  have "cp_client_id cp \<noteq> []" using pkt(1) cp(2) is_valid_utf8_not_empty by (auto simp: Packet_ok_def)
  note handler = ConnectHandler_verdict [OF cp this, of env "onClose (Suc n) env"]
  show ?thesis
  proof (cases "connect_verdict env b cp = accepted")
    case False
    have "wp (connect_reject (onClose (Suc n) env) x (connect_verdict env b cp)) (\<lambda>_. broker_inv) (\<lambda>_. broker_inv) b"
      using engine.connect_reject_inv [OF inv] by (rule wp_mono) simp_all
    then show ?thesis using False cp by (simp add: replaces_session_def wp_def handler del: onClose.simps)
  next
    case True
    then have "replaces_session env x pkt b \<longleftrightarrow> cp_clean_session cp \<and> map_of (b_sessions b) (cp_client_id cp) \<noteq> None"
      using cp by (simp add: replaces_session_def sessionExists_def)
    then show ?thesis
      using True cp pkt(2) connect_accept_replaces [OF inv, of cp "cp_client_id cp"]
        connect_accept_returns [OF inv, of cp "cp_client_id cp"]
      by (auto simp: wp_def handler simp del: onClose.simps)
  qed
qed

lemma dispatch_returns:
  assumes inv: "broker_inv b" and pkt: "Packet_ok pkt" "small_body (pkt_body pkt)" and hooks: "hooks_keep_topic (env_hooks env)"
  shows "if replaces_session env x pkt b then dispatch (registerHandlers Map.empty) env (onClose (Suc n) env) x pkt b = Undef
    else wp (dispatch (registerHandlers Map.empty) env (onClose (Suc n) env) x pkt) (\<lambda>_. broker_inv) (\<lambda>_. broker_inv) b"
proof (cases "pkt_type pkt = Connect")
  case True
  then show ?thesis
    using ConnectHandler_returns [OF inv pkt, of env x n]
    by (simp add: dispatch_def registerHandlers_def registerHandler_def del: onClose.simps)
next
  case False
  then have "\<not> replaces_session env x pkt b"
    using pkt(1) by (auto simp: replaces_session_def Packet_ok_def split: PacketBody.splits)
  then show ?thesis using engine.dispatch_wp_inv [OF inv pkt(2) hooks False] by simp
qed

text \<open>
  C11. From every reachable state the worker's \<open>handleRequest\<close> returns normally, without raising
  an exception, unless the request is a CONNECT that is accepted with a clean session while a
  session of the client is stored: that one, and only that one, is undefined behaviour. The
  closing of a channel and the keep-alive tick always return; closing never recurses deeper than
  one \<open>onClose\<close>, whose result does not depend on the depth allowed. (Plugins are required to leave
  topics alone and to have no undefined behaviour of their own.)
\<close>

theorem broker_operations_return:
  assumes "reachable env (Suc n) b" "hooks_keep_topic (env_hooks env)"
  shows "(case b_requests b of
            [] \<Rightarrow> handleRequest (registerHandlers Map.empty) env (onClose (Suc n) env) b = Ok () b
          | (x, pkt) # rest \<Rightarrow>
              if replaces_session env x pkt b
              then handleRequest (registerHandlers Map.empty) env (onClose (Suc n) env) b = Undef
              else \<exists>b'. handleRequest (registerHandlers Map.empty) env (onClose (Suc n) env) b = Ok () b' \<and> broker_inv b') \<and>
         (\<exists>b'. \<forall>m. onClose (Suc m) env c reason b = Ok () b') \<and>
         (\<exists>b'. requestClose (onClose (Suc n) env) c reason b = Ok () b') \<and>
         (\<exists>b'. tick_keepalive (onClose (Suc n) env) snapshot b = Ok () b')"
proof (intro conjI)
  have inv: "broker_inv b" using assms by (rule reachable_inv)
  show "case b_requests b of
      [] \<Rightarrow> handleRequest (registerHandlers Map.empty) env (onClose (Suc n) env) b = Ok () b
    | (x, pkt) # rest \<Rightarrow>
        if replaces_session env x pkt b
        then handleRequest (registerHandlers Map.empty) env (onClose (Suc n) env) b = Undef
        else \<exists>b'. handleRequest (registerHandlers Map.empty) env (onClose (Suc n) env) b = Ok () b' \<and> broker_inv b'"
  proof (cases "b_requests b")
    case Nil
    then show ?thesis by (simp add: handleRequest_def)
  next
    case (Cons xp rest)
    obtain x pkt where xp: "xp = (x, pkt)" by (cases xp)
    note head = engine.inv_request [OF inv Cons [unfolded xp]]
    note disp = dispatch_returns [OF head(1,3,2) assms(2), of x n]
    show ?thesis
    proof (cases "replaces_session env x pkt b")
      case True
      then show ?thesis
        using Cons xp disp by (simp add: handleRequest_def seqP_apply catchP_apply del: onClose.simps)
    next
      case False
      then have "wp (handleRequest (registerHandlers Map.empty) env (onClose (Suc n) env)) (\<lambda>_. broker_inv) never b"
        using disp Cons xp by (intro engine.handleRequest_wp_inv [OF inv]) simp_all
      then show ?thesis using False Cons xp wp_Ok_unit by fastforce
    qed
  qed
  obtain b' where "onClose (Suc 0) env c reason b = Ok () b'"
    using wp_Ok_unit [OF wp_onClose_inv [OF inv]] by blast
  then show "\<exists>b'. \<forall>m. onClose (Suc m) env c reason b = Ok () b'"
    using onClose_depth [OF inv] by metis
  show "\<exists>b'. requestClose (onClose (Suc n) env) c reason b = Ok () b'"
    using wp_Ok_unit [OF engine.requestClose_inv [OF inv]] by blast
  obtain b'' where "checkKeepalive (onClose (Suc n) env) (b_now b) snapshot b = Ok () b''"
    using wp_Ok_unit [OF engine.checkKeepalive_inv [OF inv]] by blast
  then show "\<exists>b'. tick_keepalive (onClose (Suc n) env) snapshot b = Ok () b'"
    by (simp add: tick_keepalive_def catchP_apply)
qed

text \<open>A broker that has read the CONNECT of a client \<open>a\<close> with a clean session, before the worker takes it.\<close>

definition demo_queued :: Broker where
  "demo_queued = (broker_init 0)\<lparr>
     b_chans := [0 \<mapsto> (channel_new 64 0)\<lparr>ch_last_read := 0, ch_buffer := []\<rparr>], b_channels := [0],
     b_ctxs := (\<lambda>_. no_context)(1 := new_context 0), b_by_channel := [(0, 1)], b_next_ref := 2, b_started := True,
     b_requests := [(1, \<lparr>pkt_type = Connect, pkt_body = ConnectBody
       \<lparr>cp_level = 4, cp_protocol = ''MQTT'', cp_client_id = ''a'', cp_username = [], cp_password = [],
        cp_will_topic = [], cp_will_payload = [], cp_will_qos = AtMostOnce, cp_will_retain = False,
        cp_has_will = False, cp_clean_session = True, cp_keepalive = 60, cp_byte = 2\<rparr>\<rparr>)]\<rparr>"

lemma demo_queued_reachable: "reachable demo_env 1 demo_queued"
proof -
  let ?b = "(broker_init 0)\<lparr>b_chans := [0 \<mapsto> channel_new 64 0], b_channels := [0],
     b_ctxs := (\<lambda>_. no_context)(1 := new_context 0), b_by_channel := [(0, 1)], b_next_ref := 2, b_started := True\<rparr>"
  let ?bytes = "[0x10, 0x0D, 0x00, 0x04, 0x4D, 0x51, 0x54, 0x54, 0x04, 0x02, 0x00, 0x3C, 0x00, 0x01, 0x61] :: byte list"
  let ?b1 = "upd_chan 0 (\<lambda>ch. ch\<lparr>ch_buffer := ?bytes\<rparr>) ?b"
  have "decode 256 ?bytes = Ret (Some (snd (hd (b_requests demo_queued))))"
    by (simp add: demo_queued_def) code_simp
  then have "receive_frame demo_env (onClose 1 demo_env) 0 ?b1 = Ok () demo_queued"
    by (simp add: receive_frame_def prog_simps liftP_def demo_env_def channel_on_packet_def byChannel_def onPacket_def
        demo_queued_def broker_init_def channel_new_def)
  then have "engine_step demo_env 1 ?b1 demo_queued" by (auto simp: engine_step_def intro: step_frame)
  moreover have "engine_step demo_env 1 ?b ?b1" by (auto simp: engine_step_def intro: step_read)
  ultimately show ?thesis using demo_started [of 1] by (blast intro: reachable_step)
qed

theorem broker_operations_return_witness:
  "reachable demo_env 1 demo_queued \<and>
   (\<exists>b'. handleRequest (registerHandlers Map.empty) demo_env (onClose 1 demo_env) demo_queued = Ok () b' \<and> broker_inv b') \<and>
   (\<exists>b'. requestClose (onClose 1 demo_env) 0 ''peer closed connection'' demo_queued = Ok () b')"
proof -
  have "\<not> replaces_session demo_env x pkt demo_queued" for x pkt
    by (auto simp: replaces_session_def sessionExists_def demo_queued_def broker_init_def split: PacketBody.split)
  moreover have "\<exists>pkt. b_requests demo_queued = [(1, pkt)]" by (simp add: demo_queued_def)
  ultimately show ?thesis
    using broker_operations_return [OF demo_queued_reachable [unfolded One_nat_def] demo_hooks, of 0 "''peer closed connection''" "[]"]
      demo_queued_reachable by (auto simp del: onClose.simps)
qed

end
