(* ===== verification/Broker_Spec.thy ===== *)
theory Broker_Spec
  imports Availability
begin

text \<open>
  An abstract specification of the broker; that the worker's \<open>handleRequest\<close> and the closing of a
  connection implement it is proved in \<open>Refinement\<close>. The abstract state knows sessions by client
  identifier, with their subscriptions as a map and their offline queue, and retained messages by
  topic; there are no references, tries, indices, contexts or channels in it.
\<close>

section \<open>The abstract state\<close>

record SpecSession =
  ss_clean :: bool
  ss_subs :: "string \<rightharpoonup> Qos"
  ss_queue :: "OutboxMessage list"

record Spec =
  sp_sessions :: "string \<rightharpoonup> SpecSession"
  sp_retained :: "string \<rightharpoonup> Message"

text \<open>Routing: every session that is offline, persistent and interested gets the message in its queue.\<close>

definition spec_interests :: "SpecSession \<Rightarrow> Message \<Rightarrow> Qos set" where
  "spec_interests ss msg =
     {min_qos q (m_qos msg) | f q. ss_subs ss f = Some q \<and> isTopicMatchesFilter f (m_topic msg)}"

definition spec_offer :: "Message \<Rightarrow> bool \<Rightarrow> SpecSession \<Rightarrow> SpecSession" where
  "spec_offer msg on ss =
     (let Q = spec_interests ss msg in
      if on \<or> ss_clean ss \<or> Q = {} \<or> Max Q = AtMostOnce then ss
      else ss\<lparr>ss_queue := (if length (ss_queue ss) \<ge> MaxQueueSize then tl (ss_queue ss) else ss_queue ss)
                @ [\<lparr>om_msg = msg, om_granted_qos = Max Q, om_retained = False\<rparr>]\<rparr>)"

definition spec_route :: "(string \<Rightarrow> bool) \<Rightarrow> Message \<Rightarrow> Spec \<Rightarrow> Spec" where
  "spec_route on msg sp = sp\<lparr>sp_sessions := \<lambda>cid. map_option (spec_offer msg (on cid)) (sp_sessions sp cid)\<rparr>"

definition spec_retain :: "Message \<Rightarrow> Spec \<Rightarrow> Spec" where
  "spec_retain msg sp = sp\<lparr>sp_retained := (sp_retained sp)(m_topic msg \<mapsto> msg)\<rparr>"

definition spec_clear :: "string \<Rightarrow> Spec \<Rightarrow> Spec" where
  "spec_clear t sp = sp\<lparr>sp_retained := (sp_retained sp)(t := None)\<rparr>"

definition spec_subscribe :: "string \<Rightarrow> string \<Rightarrow> Qos \<Rightarrow> Spec \<Rightarrow> Spec" where
  "spec_subscribe cid f q sp = sp\<lparr>sp_sessions := (sp_sessions sp)
     (cid := map_option (\<lambda>ss. ss\<lparr>ss_subs := (ss_subs ss)(f \<mapsto> q)\<rparr>) (sp_sessions sp cid))\<rparr>"

definition spec_unsubscribe :: "string \<Rightarrow> string \<Rightarrow> Spec \<Rightarrow> Spec" where
  "spec_unsubscribe cid f sp = sp\<lparr>sp_sessions := (sp_sessions sp)
     (cid := map_option (\<lambda>ss. ss\<lparr>ss_subs := (ss_subs ss)(f := None)\<rparr>) (sp_sessions sp cid))\<rparr>"

definition spec_end :: "string \<Rightarrow> Spec \<Rightarrow> Spec" where
  "spec_end cid sp = sp\<lparr>sp_sessions := (sp_sessions sp)(cid := None)\<rparr>"

text \<open>A connecting client: \<open>handed\<close> says whether its queue is handed over.\<close>

definition spec_connect :: "string \<Rightarrow> bool \<Rightarrow> bool \<Rightarrow> Spec \<Rightarrow> Spec" where
  "spec_connect cid clean handed sp = sp\<lparr>sp_sessions := (sp_sessions sp)(cid \<mapsto>
     (case sp_sessions sp cid of
        Some ss \<Rightarrow> if clean then \<lparr>ss_clean = True, ss_subs = (\<lambda>_. None), ss_queue = []\<rparr>
                   else if handed then ss\<lparr>ss_queue := []\<rparr> else ss
      | None \<Rightarrow> \<lparr>ss_clean = clean, ss_subs = (\<lambda>_. None), ss_queue = []\<rparr>))\<rparr>"

section \<open>Abstraction\<close>

definition session_view :: "Broker \<Rightarrow> session_ref \<Rightarrow> Session \<Rightarrow> SpecSession" where
  "session_view b s v = \<lparr>ss_clean = s_clean_session v, ss_subs = listed (Some v), ss_queue = outbox_queue (b_outbox b) s\<rparr>"

definition spec_of :: "Broker \<Rightarrow> Spec" where
  "spec_of b = \<lparr>sp_sessions = (\<lambda>cid. case map_of (b_sessions b) cid of
       None \<Rightarrow> None | Some s \<Rightarrow> map_option (session_view b s) (b_sess b s)),
     sp_retained = retained (b_retains b)\<rparr>"

lemma spec_session:
  assumes "broker_inv b" "b_sess b s = Some v"
  shows "sp_sessions (spec_of b) (s_client_id v) = Some (session_view b s v)"
  using sessions_okD(2) [OF inv_sessions [OF assms(1)] assms(2)] assms(2) by (simp add: spec_of_def)

lemma spec_sessionE:
  assumes "broker_inv b" "sp_sessions (spec_of b) cid = Some ss"
  obtains s v where "b_sess b s = Some v" "s_client_id v = cid" "ss = session_view b s v"
  using assms sessions_okD(1) [OF inv_sessions [OF assms(1)], of cid]
  by (fastforce simp: spec_of_def split: option.splits)

text \<open>Two states with the same sessions under the same identifiers have the same abstraction.\<close>

lemma spec_eqI:
  assumes inv: "broker_inv b" and r: "sp_retained sp = retained (b_retains b)"
    and some: "\<And>s v. b_sess b s = Some v \<Longrightarrow> sp_sessions sp (s_client_id v) = Some (session_view b s v)"
    and none: "\<And>cid. (\<And>s v. b_sess b s = Some v \<Longrightarrow> s_client_id v \<noteq> cid) \<Longrightarrow> sp_sessions sp cid = None"
  shows "spec_of b = sp"
proof -
  have "sp_sessions (spec_of b) cid = sp_sessions sp cid" for cid
  proof (cases "sp_sessions (spec_of b) cid")
    case None
    have "s_client_id v \<noteq> cid" if "b_sess b s = Some v" for s v
      using spec_session [OF inv that] None by auto
    then show ?thesis using none None by simp
  next
    case (Some ss)
    obtain s v where "b_sess b s = Some v" "s_client_id v = cid" "ss = session_view b s v"
      using spec_sessionE [OF inv Some] .
    then show ?thesis using some Some by auto
  qed
  then show ?thesis using r by (cases sp) (simp add: spec_of_def fun_eq_iff)
qed

lemma spec_cong:
  assumes "broker_inv b" "broker_inv b'" "b_sess b' = b_sess b" "retained (b_retains b') = retained (b_retains b)"
    "\<And>s. b_sess b s \<noteq> None \<Longrightarrow> outbox_queue (b_outbox b') s = outbox_queue (b_outbox b) s"
  shows "spec_of b' = spec_of b"
proof (rule spec_eqI [OF assms(2)])
  fix s v assume "b_sess b' s = Some v"
  then show "sp_sessions (spec_of b) (s_client_id v) = Some (session_view b' s v)"
    using spec_session [OF assms(1)] assms(3) assms(5) [of s] by (simp add: session_view_def)
next
  fix cid assume "\<And>s v. b_sess b' s = Some v \<Longrightarrow> s_client_id v \<noteq> cid"
  then show "sp_sessions (spec_of b) cid = None"
    using assms(3) spec_sessionE [OF assms(1)] by (metis option.exhaust)
qed (simp add: spec_of_def assms(4))

section \<open>Routing\<close>

lemma interests_view:
  assumes inv: "broker_inv b" and v: "b_sess b s = Some v"
  shows "spec_interests (session_view b s v) msg = interests b msg (s_client_id v)"
proof -
  have tab: "map_of (b_sessions b) (s_client_id v) = Some s"
    using sessions_okD(2) [OF inv_sessions [OF inv] v] .
  have "distinct (map sb_filter (s_subscriptions v))" using inv v by (simp add: broker_inv_def subs_ok_def)
  then have "listed (Some v) f = Some q \<longleftrightarrow> \<lparr>sb_filter = f, sb_qos = q\<rparr> \<in> set (s_subscriptions v)" for f q
    unfolding listed_def option.case by (rule find_subscription)
  then show ?thesis using tab v by (auto simp: spec_interests_def session_view_def interests_def)
qed

definition reached :: "Broker \<Rightarrow> string \<Rightarrow> bool" where
  "reached b cid \<longleftrightarrow> online cid b \<noteq> None"

lemma spec_of_routed:
  fixes env :: Env
  assumes inv: "broker_inv b" and small: "small_msg msg" and t: "\<not> isTopicNameInvalid (m_topic msg)"
    and order: "\<And>cids. mset (env_order env cids) = mset cids"
  defines "b' \<equiv> routed msg (best_maps b msg) (env_order env (map fst (fst (best_maps b msg)))) b"
  shows "broker_inv b'" "spec_of b' = spec_route (reached b) msg (spec_of b)"
proof -
  have eq: "route env on_close msg b = Ok () b'" for on_close unfolding b'_def by (rule route_eq [OF small])
  then show inv': "broker_inv b'" using wp_OkD [OF wp_route_inv [OF inv small] eq] by simp
  have sess: "b_sess b' = b_sess b" "b_retains b' = b_retains b" by (simp_all add: b'_def)
  show "spec_of b' = spec_route (reached b) msg (spec_of b)"
  proof (rule spec_eqI [OF inv'])
    fix s v assume "b_sess b' s = Some v"
    then have v: "b_sess b s = Some v" by (simp add: sess)
    show "sp_sessions (spec_route (reached b) msg (spec_of b)) (s_client_id v) = Some (session_view b' s v)"
      using route_queue [OF inv t v order [of "map fst (fst (best_maps b msg))"]] interests_view [OF inv v, of msg]
      unfolding b'_def [symmetric]
      by (auto simp: spec_route_def spec_session [OF inv v] spec_offer_def Let_def reached_def session_view_def queue_enqueue)
  next
    fix cid assume "\<And>s v. b_sess b' s = Some v \<Longrightarrow> s_client_id v \<noteq> cid"
    then have "sp_sessions (spec_of b) cid = None"
      using sess spec_sessionE [OF inv] by (metis option.exhaust)
    then show "sp_sessions (spec_route (reached b) msg (spec_of b)) cid = None" by (simp add: spec_route_def)
  qed (simp add: spec_route_def spec_of_def sess)
qed

section \<open>Closing a connection\<close>

text \<open>
  What the abstract broker sees of a client's connection: its context, the client whose session
  it is bound to, whether the channel object still exists and whether it is open and registered.
\<close>

record Client =
  cl_ctx :: ClientContext
  cl_session :: "string option"
  cl_alive :: bool
  cl_open :: bool

definition client_of :: "ctx_ref \<Rightarrow> Broker \<Rightarrow> Client" where
  "client_of x b = \<lparr>cl_ctx = b_ctxs b x, cl_session = map_option (\<lambda>(s, v). s_client_id v) (lock_session x b),
     cl_alive = (lock_channel x b \<noteq> None),
     cl_open = (case open_channel x b of Some c \<Rightarrow> byChannel c b = Some x | None \<Rightarrow> False)\<rparr>"

definition spec_will :: "(string \<Rightarrow> bool) \<Rightarrow> ClientContext \<Rightarrow> Spec \<Rightarrow> Spec" where
  "spec_will on ctx sp =
     (if will_due ctx then spec_route on (will_message ctx)
        (if w_retain (cc_will ctx) then spec_retain (will_message ctx) sp else sp)
      else sp)"

definition spec_leave :: "Client \<Rightarrow> Spec \<Rightarrow> Spec" where
  "spec_leave cl sp = (case cl_session cl of
     Some cid \<Rightarrow> if (case sp_sessions sp cid of Some ss \<Rightarrow> ss_clean ss | None \<Rightarrow> False) \<and> \<not> cc_taken_over (cl_ctx cl)
                 then spec_end cid sp else sp
   | None \<Rightarrow> sp)"

definition spec_close :: "(string \<Rightarrow> bool) \<Rightarrow> Client \<Rightarrow> Spec \<Rightarrow> Spec" where
  "spec_close on cl sp = (if cl_open cl then spec_leave cl (spec_will on (cl_ctx cl) sp) else sp)"

lemma spec_frame [simp]:
  "spec_of (upd_ctx x f b) = spec_of b" "spec_of (upd_chan c g b) = spec_of b"
  "spec_of (b\<lparr>b_received := w\<rparr>) = spec_of b" "spec_of (b\<lparr>b_delivered := w\<rparr>) = spec_of b"
  "spec_of (b\<lparr>b_channels := cs\<rparr>) = spec_of b" "spec_of (b\<lparr>b_requests := rs\<rparr>) = spec_of b"
  "spec_of (b\<lparr>b_retains := st\<rparr>) = (spec_of b)\<lparr>sp_retained := retained st\<rparr>"
  "spec_of (reply x p b) = spec_of b"
  by (simp_all add: spec_of_def session_view_def [abs_def] fun_eq_iff cong: option.case_cong split: option.split)

lemma spec_of_will:
  assumes inv: "broker_inv b" and will: "will_published env x b b1"
    and t: "\<not> isTopicNameInvalid (w_topic (cc_will (b_ctxs b x)))"
    and order: "\<And>cids. mset (env_order env cids) = mset cids"
  shows "spec_of b1 = spec_route (reached b) (will_message (b_ctxs b x))
     (if w_retain (cc_will (b_ctxs b x)) then spec_retain (will_message (b_ctxs b x)) (spec_of b) else spec_of b)"
proof -
  let ?w = "will_message (b_ctxs b x)"
  obtain st where st: "retained st = (if w_retain (cc_will (b_ctxs b x)) then (retained (b_retains b))(m_topic ?w \<mapsto> ?w) else retained (b_retains b))"
    and b1: "b1 = routed ?w (best_maps b ?w) (env_order env (map fst (fst (best_maps b ?w)))) (b\<lparr>b_retains := st\<rparr>)"
    using will by (auto simp: will_published_def Let_def)
  have "\<not> isTopicNameInvalid (m_topic ?w)" using t by (simp add: will_message_def)
  note spec = spec_of_routed(2) [OF inv small_will [OF inv_ctx [OF inv]] this order]
  show ?thesis
    unfolding b1 routed_retains spec_frame spec
    by (simp add: st spec_route_def spec_retain_def spec_of_def)
qed

lemma spec_of_closed:
  assumes inv: "broker_inv b" "broker_inv b'" and closed: "closed_from b ended b'"
    and ended: "\<And>s. ended = Some s \<Longrightarrow> b_sess b s = Some v"
  shows "spec_of b' = (if ended = None then spec_of b else spec_end (s_client_id v) (spec_of b))"
proof (rule spec_eqI [OF inv(2)])
  show "sp_retained (if ended = None then spec_of b else spec_end (s_client_id v) (spec_of b)) = retained (b_retains b')"
    using closed by (simp add: closed_from_def spec_end_def spec_of_def)
next
  fix s w assume "b_sess b' s = Some w"
  then have w: "b_sess b s = Some w" "ended \<noteq> Some s" and q: "outbox_queue (b_outbox b') s = outbox_queue (b_outbox b) s"
    using closed by (auto simp: closed_from_def split: if_splits)
  have "s_client_id w \<noteq> s_client_id v" if "ended = Some s'" for s'
    using w that ended sessions_okD(2) [OF inv_sessions [OF inv(1)]] by (metis option.inject)
  then show "sp_sessions (if ended = None then spec_of b else spec_end (s_client_id v) (spec_of b)) (s_client_id w) =
      Some (session_view b' s w)"
    using spec_session [OF inv(1) w(1)] q by (cases ended) (auto simp: spec_end_def session_view_def)
next
  fix cid assume none: "\<And>s w. b_sess b' s = Some w \<Longrightarrow> s_client_id w \<noteq> cid"
  show "sp_sessions (if ended = None then spec_of b else spec_end (s_client_id v) (spec_of b)) cid = None"
  proof (cases "sp_sessions (spec_of b) cid")
    case (Some ss)
    obtain s w where w: "b_sess b s = Some w" "s_client_id w = cid" using spec_sessionE [OF inv(1) Some] .
    then have "ended = Some s" using none [of s w] closed by (auto simp: closed_from_def split: if_splits)
    then show ?thesis using ended w by (auto simp: spec_end_def)
  qed (simp add: spec_end_def)
qed

lemma spec_will_sessions:
  "map_option ss_clean (sp_sessions (spec_will on ctx sp) cid) = map_option ss_clean (sp_sessions sp cid)"
  by (auto simp: spec_will_def spec_route_def spec_retain_def spec_offer_def Let_def option.map_comp comp_def
      intro!: option.map_cong)

lemma reached_channels [simp]: "reached (b\<lparr>b_channels := cs\<rparr>) = reached b"
  by (simp add: reached_def fun_eq_iff)

lemma spec_of_left:
  assumes inv: "broker_inv b" "broker_inv b1" "broker_inv b'" and closed: "closed_from b1 (session_ended x b) b'"
    and same: "b_sess b1 = b_sess b" "spec_of b1 = spec_will on ctx (spec_of b)"
  shows "spec_of b' = spec_leave (client_of x b) (spec_of b1)"
proof (cases "lock_session x b")
  case None
  then show ?thesis
    using spec_of_closed [OF inv(2,3) closed, of undefined] by (simp add: spec_leave_def client_of_def session_ended_def)
next
  case (Some sv)
  obtain s v where sv: "sv = (s, v)" by (cases sv)
  have v: "b_sess b s = Some v" using lock_session_live [of x b s v] Some sv by simp
  have "map_option ss_clean (sp_sessions (spec_of b1) (s_client_id v)) = Some (s_clean_session v)"
    using same(1) spec_session [OF inv(2), of s v] v by (simp add: session_view_def)
  then have "(case sp_sessions (spec_of b1) (s_client_id v) of Some ss \<Rightarrow> ss_clean ss | None \<Rightarrow> False) = s_clean_session v"
    by (cases "sp_sessions (spec_of b1) (s_client_id v)") simp_all
  then show ?thesis
    using spec_of_closed [OF inv(2,3) closed, of v] Some sv v same(1)
    by (auto simp: spec_leave_def client_of_def session_ended_def split: if_splits)
qed

lemma spec_onClose:
  assumes inv: "broker_inv b" and x: "byChannel c b = Some x"
    and t: "will_due (b_ctxs b x) \<Longrightarrow> \<not> isTopicNameInvalid (w_topic (cc_will (b_ctxs b x)))"
    and order: "\<And>cids. mset (env_order env cids) = mset cids"
  shows "\<exists>b'. onClose (Suc n) env c reason b = Ok () b' \<and> broker_inv b' \<and>
    spec_of b' = spec_leave (client_of x b) (spec_will (reached b) (b_ctxs b x) (spec_of b))"
proof -
  let ?b0 = "b\<lparr>b_channels := removeAll c (b_channels b)\<rparr>"
  obtain b1 b' where close: "onClose (Suc n) env c reason b = Ok () b'" "broker_inv b'"
    and b1: "if will_due (b_ctxs b x) then will_published env x ?b0 b1 else b1 = ?b0" "broker_inv b1"
    and b': "closed_from b1 (session_ended x b) b'"
    using onClose_outcome [OF inv x, of n env reason] by blast
  have inv0: "broker_inv ?b0" using inv by simp
  have will: "spec_of b1 = spec_will (reached b) (b_ctxs b x) (spec_of b)"
  proof (cases "will_due (b_ctxs b x)")
    case True
    then have "will_published env x ?b0 b1" "\<not> isTopicNameInvalid (w_topic (cc_will (b_ctxs ?b0 x)))" using b1(1) t by simp_all
    from spec_of_will [OF inv0 this order] True show ?thesis by (simp add: spec_will_def)
  next
    case False
    then show ?thesis using b1(1) by (simp add: spec_will_def)
  qed
  have "b_sess b1 = b_sess b" using b1(1) by (auto simp: will_published_def Let_def split: if_splits)
  from spec_of_left [OF inv b1(2) close(2) b' this will] close show ?thesis
    unfolding will [symmetric] by (intro exI [of _ b'] conjI)
qed

text \<open>The exception handler of the worker: closing the connection of the context, if it still has one.\<close>

definition wills_routable :: "Broker \<Rightarrow> bool" where
  "wills_routable b \<longleftrightarrow> (\<forall>x. will_due (b_ctxs b x) \<longrightarrow> \<not> isTopicNameInvalid (w_topic (cc_will (b_ctxs b x))))"

lemma spec_close_client:
  assumes inv: "broker_inv b" and t: "wills_routable b" and order: "\<And>cids. mset (env_order env cids) = mset cids"
  shows "wp (bindP (getP (lock_channel x)) (\<lambda>channel. case channel of None \<Rightarrow> returnP ()
           | Some (c, ch) \<Rightarrow> requestClose (onClose (Suc n) env) c e))
         (\<lambda>_ b'. spec_of b' = spec_close (reached b) (client_of x b) (spec_of b)) never b"
proof (cases "open_channel x b")
  case None
  then show ?thesis
    using lock_channel_live [of x b]
    by (auto simp: client_of_def spec_close_def open_channel_def requestClose_def isClosing_def simp del: onClose.simps
        split: option.splits if_splits)
next
  case (Some c)
  then obtain ch where ch: "lock_channel x b = Some (c, ch)" "\<not> ch_closing ch"
    by (auto simp: open_channel_def split: option.splits if_splits)
  have live: "isClosing c b = False" using lock_channel_live [OF ch(1)] ch(2) by (simp add: isClosing_def)
  have "wp (onClose (Suc n) env c e) (\<lambda>_ b'. spec_of b' = spec_close (reached b) (client_of x b) (spec_of b)) never b"
  proof (cases "byChannel c b")
    case None
    then show ?thesis using Some by (simp add: client_of_def spec_close_def)
  next
    case (Some y)
    then have x: "byChannel c b = Some x"
      using inv_own_channel [OF inv lock_channel_ctx [OF ch(1)]] by simp
    obtain b' where "onClose (Suc n) env c e b = Ok () b'"
        "spec_of b' = spec_leave (client_of x b) (spec_will (reached b) (b_ctxs b x) (spec_of b))"
      using spec_onClose [OF inv x _ order] t unfolding wills_routable_def by blast
    then show ?thesis
      using x \<open>open_channel x b = Some c\<close> by (simp add: wp_def spec_close_def client_of_def del: onClose.simps)
  qed
  then show ?thesis
    using ch(1) live by (simp add: requestClose_def channel_close_def del: onClose.simps)
qed

end
