(* ===== verification/Refinement.thy ===== *)
theory Refinement
  imports Broker_Spec
begin

text \<open>
  The requests of a client as operations of the abstract broker, and the proof that the worker's
  \<open>handleRequest\<close> implements them: after any request that is not the undefined CONNECT
  (\<open>replaces_session\<close>) the abstraction of the state is what the abstract operation makes of the
  abstraction before, on every branch of every handler.
\<close>

section \<open>Requests of the abstract broker\<close>

text \<open>
  \<open>on\<close> says which clients are reached, \<open>verdict\<close> is the return code of a CONNECT and \<open>hooks\<close> what the
  plugins make of a message. A request that violates the protocol closes the connection of its
  sender, and so does an exception of a plugin.
\<close>

definition spec_filtered :: "(string \<Rightarrow> bool) \<Rightarrow> Message \<Rightarrow> bool \<Rightarrow> PublishPacket \<Rightarrow> Spec \<Rightarrow> Spec" where
  "spec_filtered on msg ok pub sp =
     (if \<not> ok then sp
      else if pub_retain pub \<and> pub_payload pub = [] then spec_clear (m_topic msg) sp
      else
        let sp' = (if pub_retain pub then spec_retain msg sp else sp) in
        if pub_qos pub \<noteq> ExactlyOnce then spec_route on msg sp' else sp')"

type_synonym message_hook = "PublishPacket \<Rightarrow> string \<Rightarrow> (bool \<times> PublishPacket) outcome"

definition spec_publish :: "Env \<Rightarrow> (string \<Rightarrow> bool) \<Rightarrow> message_hook \<Rightarrow> Client \<Rightarrow> PublishPacket \<Rightarrow> Spec \<Rightarrow> Spec" where
  "spec_publish env on hooks cl pub sp =
     (let ctx = cl_ctx cl; cid = cc_client_id ctx; msg = publish_message pub cid in
      if \<not> cc_connected ctx \<or> isTopicNameInvalid (pub_topic pub) then spec_close on cl sp
      else if \<not> canPublish (env_security env) cid (pub_topic pub) then sp
      else if pub_qos pub = AtLeastOnce \<and> cc_awaiting_puback ctx (pub_packet_id pub) \<noteq> None \<or>
              pub_qos pub = ExactlyOnce \<and> cc_awaiting_pubrel ctx (pub_packet_id pub) \<noteq> None then sp
      else
        case hooks (pub\<lparr>pub_source_client := cid\<rparr>) cid of
          Ret (ok, pub') \<Rightarrow> spec_filtered on msg ok pub' sp
        | _ \<Rightarrow> spec_close on cl sp)"

definition spec_grant :: "Env \<Rightarrow> (string \<Rightarrow> bool) \<Rightarrow> Client \<Rightarrow> SubscribeEntry list \<Rightarrow> Spec \<Rightarrow> Spec" where
  "spec_grant env on cl es sp =
     (let granted = filter (\<lambda>e. grant_code env (cc_client_id (cl_ctx cl)) e \<noteq> 0x80) es in
      if \<not> cc_connected (cl_ctx cl) \<or> es = [] then spec_close on cl sp
      else case cl_session cl of
        Some cid \<Rightarrow> fold (\<lambda>e. spec_subscribe cid (se_filter e) (se_qos e)) granted sp
      | None \<Rightarrow> if granted = [] then sp else spec_close on cl sp)"

definition spec_revoke :: "(string \<Rightarrow> bool) \<Rightarrow> Client \<Rightarrow> string list \<Rightarrow> Spec \<Rightarrow> Spec" where
  "spec_revoke on cl fs sp =
     (if \<not> cc_connected (cl_ctx cl) \<or> fs = [] then spec_close on cl sp
      else case cl_session cl of
        Some cid \<Rightarrow> fold (spec_unsubscribe cid) fs sp
      | None \<Rightarrow> spec_close on cl sp)"

definition spec_release :: "(string \<Rightarrow> bool) \<Rightarrow> Client \<Rightarrow> u16 \<Rightarrow> Spec \<Rightarrow> Spec" where
  "spec_release on cl pid sp = (case cc_awaiting_pubrel (cl_ctx cl) pid of Some msg \<Rightarrow> spec_route on msg sp | None \<Rightarrow> sp)"

definition spec_join :: "(string \<Rightarrow> bool) \<Rightarrow> (ConnectPacket \<Rightarrow> ConnackReturnCode) \<Rightarrow> Client \<Rightarrow> ConnectPacket \<Rightarrow> Spec \<Rightarrow> Spec" where
  "spec_join on verdict cl cp sp =
     (if \<not> cc_connected (cl_ctx cl) \<and> cp_protocol cp = ''MQTT'' \<and> verdict cp = accepted
      then spec_connect (cp_client_id cp) (cp_clean_session cp) (cl_alive cl) sp
      else spec_close on cl sp)"

definition spec_request ::
  "Env \<Rightarrow> (string \<Rightarrow> bool) \<Rightarrow> (ConnectPacket \<Rightarrow> ConnackReturnCode) \<Rightarrow> message_hook \<Rightarrow> Client \<Rightarrow> Packet \<Rightarrow> Spec \<Rightarrow> Spec" where
  "spec_request env on verdict hooks cl pkt sp =
     (case (pkt_type pkt, pkt_body pkt) of
        (Connect, ConnectBody cp) \<Rightarrow> spec_join on verdict cl cp sp
      | (Publish, PublishBody pub) \<Rightarrow> spec_publish env on hooks cl pub sp
      | (Subscribe, SubscribeBody sub) \<Rightarrow> spec_grant env on cl (sub_entries sub) sp
      | (Unsubscribe, UnsubscribeBody unsub) \<Rightarrow> spec_revoke on cl (unsub_topics unsub) sp
      | (Disconnect, _) \<Rightarrow> sp
      | (Pubrel, AckBody ack) \<Rightarrow> if cc_connected (cl_ctx cl) then spec_release on cl (ack_packet_id ack) sp else spec_close on cl sp
      | (Puback, AckBody _) \<Rightarrow> if cc_connected (cl_ctx cl) then sp else spec_close on cl sp
      | (Pubrec, AckBody _) \<Rightarrow> if cc_connected (cl_ctx cl) then sp else spec_close on cl sp
      | (Pubcomp, AckBody _) \<Rightarrow> if cc_connected (cl_ctx cl) then sp else spec_close on cl sp
      | (Pingreq, _) \<Rightarrow> if cc_connected (cl_ctx cl) then sp else spec_close on cl sp
      | _ \<Rightarrow> spec_close on cl sp)"

section \<open>Frames\<close>

lemma spec_frame_send [simp]:
  "spec_of (send_bytes c p b) = spec_of b" "spec_of (delivered x c msg q r d b) = spec_of b"
  "spec_of (b\<lparr>b_events := evs\<rparr>) = spec_of b" "spec_of (b\<lparr>b_by_id := ids\<rparr>) = spec_of b"
proof -
  show send: "spec_of (send_bytes c p b) = spec_of b" for c p and b :: Broker
    by (simp add: send_bytes_def split: outcome.split prod.split bool.split)
  show "spec_of (delivered x c msg q r d b) = spec_of b" by (simp add: delivered_def Let_def send)
qed (simp_all add: spec_of_def session_view_def [abs_def] fun_eq_iff cong: option.case_cong split: option.split)

text \<open>Who is reached depends on the registry of identifiers, the contexts and the closing flags.\<close>

lemma online_cong:
  assumes "b_by_id b' = b_by_id b" "\<And>y. cc_connected (b_ctxs b' y) = cc_connected (b_ctxs b y)"
    "\<And>y. cc_channel (b_ctxs b' y) = cc_channel (b_ctxs b y)"
    "\<And>c. map_option ch_closing (b_chans b' c) = map_option ch_closing (b_chans b c)"
  shows "online cid b' = online cid b"
proof -
  have "open_channel y b' = open_channel y b" for y by (simp add: open_channel_alt assms cong: option.case_cong)
  then show ?thesis by (simp add: online_def byId_def assms split: option.split)
qed

lemma reached_cong:
  assumes "b_by_id b' = b_by_id b" "\<And>y. cc_connected (b_ctxs b' y) = cc_connected (b_ctxs b y)"
    "\<And>y. cc_channel (b_ctxs b' y) = cc_channel (b_ctxs b y)"
    "\<And>c. map_option ch_closing (b_chans b' c) = map_option ch_closing (b_chans b c)"
  shows "reached b' = reached b"
  using online_cong [OF assms] by (simp add: fun_eq_iff reached_def)

lemma spec_retained [simp]: "sp_retained (spec_of b) = retained (b_retains b)"
  by (simp add: spec_of_def)

lemma lock_channel_alive:
  "(lock_channel x b = None) = (case cc_channel (b_ctxs b x) of None \<Rightarrow> True | Some c \<Rightarrow> map_option ch_closing (b_chans b c) = None)"
  by (simp add: lock_channel_def split: option.split)

lemma client_frame [simp]:
  "client_of x (send_bytes c p b) = client_of x b" "client_of x (b\<lparr>b_requests := rs\<rparr>) = client_of x b"
  "reached (send_bytes c p b) = reached b" "reached (b\<lparr>b_requests := rs\<rparr>) = reached b"
  "reached (b\<lparr>b_retains := st\<rparr>) = reached b" "reached (b\<lparr>b_received := w\<rparr>) = reached b"
  "reached (b\<lparr>b_events := evs\<rparr>) = reached b"
  by (simp_all add: client_of_def lock_session_def lock_channel_alive open_channel_alt byChannel_def cong: option.case_cong)
     (rule reached_cong; simp)+

lemma client_ctx [simp]: "cl_ctx (client_of x b) = b_ctxs b x"
  by (simp add: client_of_def)

lemma reached_upd_ctx:
  "cc_connected (f (b_ctxs b x)) = cc_connected (b_ctxs b x) \<Longrightarrow> cc_channel (f (b_ctxs b x)) = cc_channel (b_ctxs b x) \<Longrightarrow>
   reached (upd_ctx x f b) = reached b"
  by (rule reached_cong) simp_all

lemma wills_frame [simp]:
  "wills_routable (send_bytes c p b) = wills_routable b" "wills_routable (b\<lparr>b_requests := rs\<rparr>) = wills_routable b"
  by (simp_all add: wills_routable_def)

section \<open>The handlers\<close>

text \<open>
  After an exception the worker closes the connection, and the state the handler has left, the
  same as before or one in which a closing has the same effect, is ready for that; or the
  connection is gone already.
\<close>

definition close_alike :: "ctx_ref \<Rightarrow> Broker \<Rightarrow> Broker \<Rightarrow> bool" where
  "close_alike x b b' \<longleftrightarrow> broker_inv b' \<and> wills_routable b' = wills_routable b \<and>
     spec_close (reached b') (client_of x b') (spec_of b') = spec_close (reached b) (client_of x b) (spec_of b)"

definition settled :: "ctx_ref \<Rightarrow> Broker \<Rightarrow> Spec \<Rightarrow> string \<Rightarrow> Broker \<Rightarrow> bool" where
  "settled x b sp e b' \<longleftrightarrow>
     (b' = b \<or> close_alike x b b') \<and> sp = spec_close (reached b) (client_of x b) (spec_of b) \<or>
     lock_channel x b' = None \<and> spec_of b' = sp"

lemma wp_publish_ack [simp]: "wp (publish_ack on_close x pub) (\<lambda>_ b'. spec_of b' = sp) E = (\<lambda>b. spec_of b = sp)"
  by (simp add: publish_ack_def wp_def connAck_eq fun_eq_iff)

lemma publish_filtered_spec:
  assumes inv: "broker_inv b" and small: "small_msg msg" and topic: "m_topic msg = pub_topic pub"
    and valid: "\<not> isTopicNameInvalid (m_topic msg)" and order: "\<And>cids. mset (env_order env cids) = mset cids"
  shows "wp (publish_filtered env on_close x msg ok pub) (\<lambda>_ b'. spec_of b' = spec_filtered (reached b) msg ok pub (spec_of b)) never b"
proof -
  have rinv: "retain_inv (b_retains b)" using inv by (simp add: broker_inv_def retains_ok_def)
  obtain st where st: "retain_store (b_retains b) (pub_topic pub) msg = Ret st" "retain_inv st"
      "retained st = (retained (b_retains b))(m_topic msg \<mapsto> msg)"
    using retain.store_law [OF rinv topic] topic by auto
  obtain st' where st': "retain_clear (b_retains b) (pub_topic pub) = Ret st'"
      "retained st' = (retained (b_retains b))(m_topic msg := None)"
    using retain.clear_law [OF rinv, of "pub_topic pub"] topic by auto
  have route: "wp (route env on_close msg) (\<lambda>_ b'. spec_of b' = sp) never b' = (spec_route (reached b) msg (spec_of b') = sp)"
    if "b' = b \<or> b' = b\<lparr>b_retains := st\<rparr>" for b' sp
    using that spec_of_routed(2) [OF inv small valid order]
    by (auto simp: wp_def route_eq [OF small] routed_retains)
       (simp_all add: spec_route_def)
  show ?thesis
    using st st' route
    by (auto simp: publish_filtered_def spec_filtered_def Let_def wp_whenP wp_liftP spec_clear_def spec_retain_def)
qed

lemma publish_accept_spec:
  assumes inv: "broker_inv b" and small: "small_msg msg" and topic: "m_topic msg = pub_topic pub"
    and valid: "\<not> isTopicNameInvalid (pub_topic pub)" and hooks: "hooks_keep_topic (env_hooks env)"
    and order: "\<And>cids. mset (env_order env cids) = mset cids"
  shows "case hooks_onMessageIn (env_hooks env) (b_events b) pub (cc_client_id (b_ctxs b x)) of
      Ret (ok, pub') \<Rightarrow> wp (publish_accept env on_close x pub msg)
        (\<lambda>_ b'. spec_of b' = spec_filtered (reached b) msg ok pub' (spec_of b)) never b
    | Throw e \<Rightarrow> publish_accept env on_close x pub msg b = Exn e (b\<lparr>b_events := b_events b @ [MessageIn pub (cc_client_id (b_ctxs b x))]\<rparr>)
    | UB \<Rightarrow> False"
proof -
  define cid where "cid = cc_client_id (b_ctxs b x)"
  define b0 where "b0 = b\<lparr>b_events := b_events b @ [MessageIn pub cid]\<rparr>"
  have "broker_inv b0" using inv by (simp add: b0_def)
  from publish_filtered_spec [OF this small _ _ order]
  have filtered: "wp (publish_filtered env on_close x msg ok pub') (\<lambda>_ b'. spec_of b' = spec_filtered (reached b) msg ok pub' (spec_of b)) never b0"
    if "pub_topic pub' = pub_topic pub" for ok pub'
    using topic valid that by (simp add: b0_def)
  show ?thesis
  proof (cases "hooks_onMessageIn (env_hooks env) (b_events b) pub cid")
    case (Ret r)
    then show ?thesis
      using hooks [unfolded hooks_keep_topic_def, rule_format, where events = "b_events b" and pub = pub and client_id = cid] filtered
      by (simp add: publish_accept_def wp_liftP flip: cid_def b0_def split: prod.splits)
  next
    case (Throw e)
    then show ?thesis by (simp add: publish_accept_def bindP_apply seqP_apply liftP_def flip: cid_def b0_def)
  next
    case UB
    then show ?thesis
      using hooks [unfolded hooks_keep_topic_def, rule_format, where events = "b_events b" and pub = pub and client_id = cid] by simp
  qed
qed

text \<open>The handler past its checks: the duplicate check, then the rest on the noted identifier.\<close>

definition duplicate :: "ClientContext \<Rightarrow> PublishPacket \<Rightarrow> bool" where
  "duplicate ctx pub \<longleftrightarrow> pub_qos pub = AtLeastOnce \<and> cc_awaiting_puback ctx (pub_packet_id pub) \<noteq> None \<or>
     pub_qos pub = ExactlyOnce \<and> cc_awaiting_pubrel ctx (pub_packet_id pub) \<noteq> None"

definition noted :: "ctx_ref \<Rightarrow> PublishPacket \<Rightarrow> Broker \<Rightarrow> Broker" where
  "noted x pub b =
     (let b = b\<lparr>b_received := b_received b + 1\<rparr>; msg = publish_message pub (cc_client_id (b_ctxs b x)) in
      case pub_qos pub of
        AtLeastOnce \<Rightarrow> upd_ctx x (\<lambda>ctx. ctx\<lparr>cc_awaiting_puback := (cc_awaiting_puback ctx)(pub_packet_id pub \<mapsto> pub_topic pub)\<rparr>) b
      | ExactlyOnce \<Rightarrow> upd_ctx x (\<lambda>ctx. ctx\<lparr>cc_awaiting_pubrel := (cc_awaiting_pubrel ctx)(pub_packet_id pub \<mapsto> msg)\<rparr>) b
      | AtMostOnce \<Rightarrow> b)"

lemma PublishHandler_past_checks:
  assumes "may_publish env x (pub_topic pub) b" "pkt_body pkt = PublishBody pub"
  shows "duplicate (b_ctxs b x) pub \<Longrightarrow> \<exists>t. PublishHandler env on_close x pkt b = Ok () (reply x t (b\<lparr>b_received := b_received b + 1\<rparr>))"
    and "\<not> duplicate (b_ctxs b x) pub \<Longrightarrow> PublishHandler env on_close x pkt b =
      publish_accept env on_close x (pub\<lparr>pub_source_client := cc_client_id (b_ctxs b x)\<rparr>)
        (publish_message pub (cc_client_id (b_ctxs b x))) (noted x pub b)"
  using assms
  by (cases "pub_qos pub"; auto simp: PublishHandler_def may_publish_def Let_def duplicate_def noted_def connAck_eq publish_message_def)+

lemma noted_frame:
  assumes "broker_inv b" "small_msg (publish_message pub (cc_client_id (b_ctxs b x)))" "\<not> isTopicNameInvalid (pub_topic pub)"
  shows "broker_inv (noted x pub b)" "spec_of (noted x pub b) = spec_of b" "reached (noted x pub b) = reached b"
    "cc_client_id (b_ctxs (noted x pub b) x) = cc_client_id (b_ctxs b x)" "b_events (noted x pub b) = b_events b"
  using assms
  by (auto simp: noted_def Let_def ctx_ok_def publish_message_def reached_upd_ctx intro!: inv_upd_ctx split: Qos.split)

text \<open>When a plugin throws, the identifier is noted and the connection is closed as it would be without that.\<close>

lemma noted_close_alike:
  assumes "broker_inv b" "small_msg (publish_message pub (cc_client_id (b_ctxs b x)))" "\<not> isTopicNameInvalid (pub_topic pub)"
  shows "close_alike x b ((noted x pub b)\<lparr>b_events := evs\<rparr>)"
proof -
  have ctx: "will_due (b_ctxs (noted x pub b) y) = will_due (b_ctxs b y)" "cc_will (b_ctxs (noted x pub b) y) = cc_will (b_ctxs b y)"
      "will_message (b_ctxs (noted x pub b) y) = will_message (b_ctxs b y)" "cc_taken_over (b_ctxs (noted x pub b) y) = cc_taken_over (b_ctxs b y)" for y
    by (auto simp: noted_def Let_def will_due_def will_message_def split: Qos.split)
  have view: "cl_session (client_of x ((noted x pub b)\<lparr>b_events := evs\<rparr>)) = cl_session (client_of x b)"
      "cl_open (client_of x ((noted x pub b)\<lparr>b_events := evs\<rparr>)) = cl_open (client_of x b)"
    by (auto simp: noted_def Let_def client_of_def lock_session_def open_channel_alt byChannel_def cong: option.case_cong split: Qos.split)
  show ?thesis
    using noted_frame [OF assms] ctx view
    by (simp add: close_alike_def wills_routable_def spec_close_def spec_leave_def spec_will_def cong: option.case_cong if_cong)
qed

lemma PublishHandler_spec:
  fixes x :: ctx_ref and env :: Env
  assumes inv: "broker_inv b" and small: "small_body (PublishBody pub)" and hooks: "hooks_keep_topic (env_hooks env)"
    and order: "\<And>cids. mset (env_order env cids) = mset cids" and pkt: "pkt_body pkt = PublishBody pub"
  defines "sp \<equiv> spec_publish env (reached b) (hooks_onMessageIn (env_hooks env) (b_events b)) (client_of x b) pub (spec_of b)"
  shows "wp (PublishHandler env on_close x pkt) (\<lambda>_ b'. spec_of b' = sp) (settled x b sp) b"
proof -
  define cid where "cid = cc_client_id (b_ctxs b x)"
  define pub1 where "pub1 = pub\<lparr>pub_source_client := cid\<rparr>"
  define msg where "msg = publish_message pub cid"
  consider "\<not> may_publish env x (pub_topic pub) b" | "may_publish env x (pub_topic pub) b" "duplicate (b_ctxs b x) pub"
    | "may_publish env x (pub_topic pub) b" "\<not> duplicate (b_ctxs b x) pub" by blast
  then show ?thesis
  proof cases
    case 1
    then show ?thesis
      using pkt by (auto simp: PublishHandler_def may_publish_def sp_def spec_publish_def Let_def settled_def)
  next
    case 2
    then have "sp = spec_of b" by (auto simp: sp_def spec_publish_def may_publish_def duplicate_def Let_def)
    then show ?thesis using PublishHandler_past_checks(1) [OF 2(1) pkt 2(2), of on_close] by (auto simp: wp_def)
  next
    case 3
    let ?hooks = "hooks_onMessageIn (env_hooks env) (b_events b) pub1 cid"
    have valid: "\<not> isTopicNameInvalid (pub_topic pub)" using 3(1) by (simp add: may_publish_def)
    have msg: "small_msg msg" "m_topic msg = pub_topic pub1" "\<not> isTopicNameInvalid (pub_topic pub1)"
      using small valid by (simp_all add: msg_def pub1_def publish_message_def small_msg_def)
    note small' = msg(1) [unfolded msg_def cid_def]
    note frame = noted_frame [OF inv small' valid]
    have sp: "sp = (case ?hooks of Ret (ok, pub') \<Rightarrow> spec_filtered (reached b) msg ok pub' (spec_of b)
        | _ \<Rightarrow> spec_close (reached b) (client_of x b) (spec_of b))"
      using 3 unfolding pub1_def msg_def cid_def
      by (cases "pub_qos pub") (simp_all add: sp_def spec_publish_def may_publish_def duplicate_def Let_def)
    have run: "PublishHandler env on_close x pkt b = publish_accept env on_close x pub1 msg (noted x pub b)"
      using PublishHandler_past_checks(2) [OF 3(1) pkt 3(2), of on_close] by (simp add: pub1_def msg_def cid_def)
    note accept = publish_accept_spec [OF frame(1) msg hooks order, where x = x and on_close = on_close, unfolded frame, folded cid_def]
    show ?thesis
    proof (cases ?hooks)
      case (Ret r)
      obtain ok pub' where r: "r = (ok, pub')" by (cases r)
      have "wp (publish_accept env on_close x pub1 msg) (\<lambda>_ b'. spec_of b' = sp) never (noted x pub b)"
        using accept Ret r sp by simp
      then show ?thesis unfolding wp_def run by (auto split: res.splits)
    next
      case (Throw e)
      then show ?thesis
        using accept sp noted_close_alike [OF inv small' valid] by (simp add: wp_def run settled_def)
    next
      case UB
      then show ?thesis using accept by simp
    qed
  qed
qed

text \<open>Subscriptions: one session changes, under the same identifier.\<close>

lemma spec_of_session_update:
  assumes inv: "broker_inv b" and v: "b_sess b s = Some v" "s_client_id w = s_client_id v"
    and b': "b_sess b' = (b_sess b)(s \<mapsto> w)" "b_sessions b' = b_sessions b" "b_outbox b' = b_outbox b" "b_retains b' = b_retains b"
  shows "spec_of b' = (spec_of b)\<lparr>sp_sessions := (sp_sessions (spec_of b))(s_client_id v \<mapsto> session_view b s w)\<rparr>"
proof -
  have tab: "map_of (b_sessions b) (s_client_id v) = Some s" using sessions_okD(2) [OF inv_sessions [OF inv] v(1)] .
  have other: "s' \<noteq> s" if "map_of (b_sessions b) cid = Some s'" "cid \<noteq> s_client_id v" for cid s'
    using sessions_okD(1) [OF inv_sessions [OF inv] that(1)] that(2) v(1) by auto
  have "sp_sessions (spec_of b') cid = ((sp_sessions (spec_of b))(s_client_id v \<mapsto> session_view b s w)) cid" for cid
    using tab other by (auto simp: spec_of_def b' session_view_def [abs_def] split: option.split)
  then show ?thesis using b' by (simp add: spec_of_def fun_eq_iff)
qed

lemma spec_of_subscribe:
  assumes "broker_inv b" "b_sess b s = Some v"
  shows "spec_of (upd_sess s (\<lambda>v. v\<lparr>s_subscriptions := update_subscription f q (s_subscriptions v)\<rparr>)
      (b\<lparr>b_topics := t\<rparr>)) = spec_subscribe (s_client_id v) f q (spec_of b)"
proof -
  have "listed (Some (v\<lparr>s_subscriptions := update_subscription f q (s_subscriptions v)\<rparr>)) = (listed (Some v))(f \<mapsto> q)"
    by (simp add: listed_update fun_eq_iff)
  then show ?thesis
    using spec_of_session_update [OF assms, of "v\<lparr>s_subscriptions := update_subscription f q (s_subscriptions v)\<rparr>"] assms(2)
    by (simp add: spec_subscribe_def spec_session [OF assms] session_view_def)
qed

lemma spec_of_unsubscribe:
  assumes "broker_inv b" "b_sess b s = Some v"
  shows "spec_of (upd_sess s (\<lambda>v. v\<lparr>s_subscriptions := filter (\<lambda>sub. sb_filter sub \<noteq> f) (s_subscriptions v)\<rparr>)
      (b\<lparr>b_topics := t\<rparr>)) = spec_unsubscribe (s_client_id v) f (spec_of b)"
proof -
  have "listed (Some (v\<lparr>s_subscriptions := filter (\<lambda>sub. sb_filter sub \<noteq> f) (s_subscriptions v)\<rparr>)) = (listed (Some v))(f := None)"
    by (simp add: listed_filter fun_eq_iff)
  then show ?thesis
    using spec_of_session_update [OF assms, of "v\<lparr>s_subscriptions := filter (\<lambda>sub. sb_filter sub \<noteq> f) (s_subscriptions v)\<rparr>"] assms(2)
    by (simp add: spec_unsubscribe_def spec_session [OF assms] session_view_def)
qed

text \<open>The state after some entries: the abstraction, and what the rest of the loop relies on.\<close>

definition resubscribed :: "ctx_ref \<Rightarrow> Broker \<Rightarrow> Spec \<Rightarrow> Broker \<Rightarrow> bool" where
  "resubscribed x b sp b' \<longleftrightarrow> broker_inv b' \<and> spec_of b' = sp \<and> publisher_side (b_ctxs b' x) = publisher_side (b_ctxs b x) \<and>
     (\<forall>s. map_option s_client_id (b_sess b' s) = map_option s_client_id (b_sess b s))"

lemma resubscribed_ctx:
  assumes "resubscribed x b sp b'"
  shows "cc_client_id (b_ctxs b' x) = cc_client_id (b_ctxs b x)" "cc_session (b_ctxs b' x) = cc_session (b_ctxs b x)"
  using publisher_sideD(2,5) [of "b_ctxs b' x" "b_ctxs b x"] assms unfolding resubscribed_def by blast+

lemma resubscribed_session:
  assumes "resubscribed x b sp b'" "lock_session x b = Some (s, v)"
  shows "\<exists>v'. lock_session x b' = Some (s, v') \<and> b_sess b' s = Some v' \<and> s_client_id v' = s_client_id v"
proof -
  have "map_option s_client_id (b_sess b' s) = Some (s_client_id v)"
    using assms lock_session_live [OF assms(2)] by (simp add: resubscribed_def)
  then show ?thesis using assms(2) resubscribed_ctx(2) [OF assms(1)] by (auto simp: lock_session_def split: option.splits)
qed

lemma resubscribed_deliver:
  assumes "resubscribed x b sp b'" "small_msg msg"
  shows "wp (deliver on_close y msg q r d) (\<lambda>_. resubscribed x b sp) E b'"
proof -
  have "wp (deliver on_close y msg q r d) (\<lambda>_ b''. spec_of b'' = spec_of b' \<and> b_sess b'' = b_sess b' \<and>
      publisher_side (b_ctxs b'' x) = publisher_side (b_ctxs b' x)) never b'"
    using assms(2) by (simp add: wp_def deliver_eq publisher_side_delivered split: option.split)
  from wp_conj [OF wp_deliver_inv this] assms show ?thesis
    by (auto simp: resubscribed_def intro: wp_mono)
qed

lemma subscribe_entry_spec:
  assumes sub: "resubscribed x b sp b'" and s: "lock_session x b = Some (s, v)"
  shows "wp (subscribe_entry env on_close x e) (\<lambda>_. resubscribed x b
     (if grant_code env (cc_client_id (b_ctxs b x)) e = 0x80 then sp else spec_subscribe (s_client_id v) (se_filter e) (se_qos e) sp)) E b'"
proof -
  note cid = resubscribed_ctx(1) [OF sub]
  obtain v' where v': "lock_session x b' = Some (s, v')" "b_sess b' s = Some v'" "s_client_id v' = s_client_id v"
    using resubscribed_session [OF sub s] by blast
  show ?thesis
  proof (cases "grant_code env (cc_client_id (b_ctxs b x)) e = 0x80")
    case True
    then show ?thesis using sub cid unfolding grant_code_80 subscribe_entry_def wp_bindP wp_prim by auto
  next
    case False
    then have ok: "\<not> isTopicFilterInvalid (se_filter e)" "canSubscribe (env_security env) (cc_client_id (b_ctxs b x)) (se_filter e)"
      unfolding grant_code_80 by simp_all
    define b1 where "b1 = upd_sess s (\<lambda>v. v\<lparr>s_subscriptions := update_subscription (se_filter e) (se_qos e) (s_subscriptions v)\<rparr>)
        (b'\<lparr>b_topics := topic_add (b_topics b') s (se_filter e) (se_qos e)\<rparr>)"
    let ?sp = "spec_subscribe (s_client_id v) (se_filter e) (se_qos e) sp"
    have inv1: "broker_inv b1" unfolding b1_def using inv_subscribe [OF _ v'(2) ok(1)] sub by (simp add: resubscribed_def)
    have "spec_of b1 = ?sp"
      unfolding b1_def using spec_of_subscribe [OF _ v'(2)] sub v'(3) by (simp add: resubscribed_def)
    then have sub1: "resubscribed x b ?sp b1" using sub inv1 v'(2) by (auto simp: resubscribed_def b1_def dest: spec [of _ s])
    have "wp (forP (retain_all (b_retains b1)) (\<lambda>r. whenP (isTopicMatchesFilter (se_filter e) (m_topic r))
        (deliver on_close x r (se_qos e) True False))) (\<lambda>_. resubscribed x b ?sp) E b1"
    proof (rule wp_forP [where I = "resubscribed x b ?sp"])
      fix r b'' assume r: "r \<in> set (retain_all (b_retains b1))" and b'': "resubscribed x b ?sp b''"
      have "small_msg r" using inv1 r by (simp add: broker_inv_def retains_ok_def)
      then show "wp (whenP (isTopicMatchesFilter (se_filter e) (m_topic r)) (deliver on_close x r (se_qos e) True False))
          (\<lambda>_. resubscribed x b ?sp) E b''"
        using resubscribed_deliver [OF b''] b'' by (simp add: wp_whenP)
    qed (use sub1 in simp_all)
    moreover have "b_retains b1 = b_retains b'" by (simp add: b1_def)
    ultimately show ?thesis
      using ok False v'(1) cid unfolding subscribe_entry_def wp_bindP wp_prim by (simp flip: b1_def)
  qed
qed

lemma subscribe_loop_spec:
  assumes "resubscribed x b sp b'" "lock_session x b = Some (s, v)"
  shows "wp (subscribe_loop env on_close x es granted) (\<lambda>_. resubscribed x b
     (fold (\<lambda>e. spec_subscribe (s_client_id v) (se_filter e) (se_qos e))
       (filter (\<lambda>e. grant_code env (cc_client_id (b_ctxs b x)) e \<noteq> 0x80) es) sp)) E b'"
  using assms
proof (induction es arbitrary: b' sp granted)
  case (Cons e es)
  let ?sp = "if grant_code env (cc_client_id (b_ctxs b x)) e = 0x80 then sp else spec_subscribe (s_client_id v) (se_filter e) (se_qos e) sp"
  have "wp (subscribe_entry env on_close x e) (\<lambda>code. wp (subscribe_loop env on_close x es (granted @ [code]))
      (\<lambda>_. resubscribed x b (fold (\<lambda>e. spec_subscribe (s_client_id v) (se_filter e) (se_qos e))
         (filter (\<lambda>e. grant_code env (cc_client_id (b_ctxs b x)) e \<noteq> 0x80) es) ?sp)) E) E b'"
    using subscribe_entry_spec [OF Cons.prems, of env on_close e E]
    by (rule wp_mono) (rule Cons.IH [OF _ Cons.prems(2)], assumption, assumption)
  then show ?case by (simp split: if_splits)
qed simp

text \<open>Without a session nothing is subscribed: the first permitted filter is an error.\<close>

lemma subscribe_loop_no_session:
  assumes "lock_session x b = None"
  shows "wp (subscribe_loop env on_close x es granted)
     (\<lambda>_ b'. b' = b \<and> filter (\<lambda>e. grant_code env (cc_client_id (b_ctxs b x)) e \<noteq> 0x80) es = [])
     (\<lambda>_ b'. b' = b \<and> filter (\<lambda>e. grant_code env (cc_client_id (b_ctxs b x)) e \<noteq> 0x80) es \<noteq> []) b"
proof (induction es arbitrary: granted)
  case (Cons e es)
  have "wp (subscribe_entry env on_close x e)
      (\<lambda>_ b'. b' = b \<and> grant_code env (cc_client_id (b_ctxs b x)) e = 0x80)
      (\<lambda>_ b'. b' = b \<and> grant_code env (cc_client_id (b_ctxs b x)) e \<noteq> 0x80) b"
    using assms unfolding grant_code_80 subscribe_entry_def wp_bindP wp_prim by auto
  then have "wp (subscribe_entry env on_close x e) (\<lambda>code. wp (subscribe_loop env on_close x es (granted @ [code]))
     (\<lambda>_ b'. b' = b \<and> filter (\<lambda>e. grant_code env (cc_client_id (b_ctxs b x)) e \<noteq> 0x80) (e # es) = [])
     (\<lambda>_ b'. b' = b \<and> filter (\<lambda>e. grant_code env (cc_client_id (b_ctxs b x)) e \<noteq> 0x80) (e # es) \<noteq> []))
     (\<lambda>_ b'. b' = b \<and> filter (\<lambda>e. grant_code env (cc_client_id (b_ctxs b x)) e \<noteq> 0x80) (e # es) \<noteq> []) b"
    by (rule wp_mono) (use Cons.IH in auto)
  then show ?case by simp
qed simp

lemma SubscribeHandler_spec:
  fixes x :: ctx_ref and env :: Env
  assumes inv: "broker_inv b" and pkt: "pkt_body pkt = SubscribeBody sub"
  defines "sp \<equiv> spec_grant env (reached b) (client_of x b) (sub_entries sub) (spec_of b)"
  shows "wp (SubscribeHandler env on_close x pkt) (\<lambda>_ b'. spec_of b' = sp) (settled x b sp) b"
proof (cases "cc_connected (b_ctxs b x) \<and> sub_entries sub \<noteq> []")
  case False
  then show ?thesis using pkt by (auto simp: SubscribeHandler_def sp_def spec_grant_def client_of_def settled_def)
next
  case True
  have reply: "wp (send_reply on_close x (suback_packet i gs)) (\<lambda>_ b'. spec_of b' = sp) E = (\<lambda>b. spec_of b = sp)" for i gs E
    by (simp add: wp_def fun_eq_iff send_reply_eq [OF sendable_suback])
  have "wp (subscribe_loop env on_close x (sub_entries sub) []) (\<lambda>_ b'. spec_of b' = sp) (settled x b sp) b"
  proof (cases "lock_session x b")
    case None
    show ?thesis
      using subscribe_loop_no_session [OF None, of env on_close "sub_entries sub" "[]"]
      by (rule wp_mono) (use True None in \<open>auto simp: sp_def spec_grant_def Let_def client_of_def settled_def\<close>)
  next
    case (Some sv)
    obtain s v where sv: "sv = (s, v)" by (cases sv)
    have "resubscribed x b (spec_of b) b" using inv by (simp add: resubscribed_def)
    from subscribe_loop_spec [OF this, of s v env on_close "sub_entries sub" "[]" "settled x b sp"] Some sv
    have "wp (subscribe_loop env on_close x (sub_entries sub) []) (\<lambda>_. resubscribed x b sp) (settled x b sp) b"
      using True by (simp add: sp_def spec_grant_def Let_def client_of_def)
    then show ?thesis by (rule wp_mono) (simp_all add: resubscribed_def)
  qed
  then show ?thesis using True pkt by (simp add: SubscribeHandler_def reply)
qed

lemma unsubscribe_one_spec:
  assumes sub: "resubscribed x b sp' b'" and x: "lock_session x b = Some (s, v)"
  shows "wp (unsubscribe_one x f) (\<lambda>_. resubscribed x b (spec_unsubscribe (s_client_id v) f sp')) E b'"
proof -
  obtain v' where v': "lock_session x b' = Some (s, v')" "b_sess b' s = Some v'" "s_client_id v' = s_client_id v"
    using resubscribed_session [OF sub] x by blast
  define b1 where "b1 = upd_sess s (\<lambda>v. v\<lparr>s_subscriptions := filter (\<lambda>sub. sb_filter sub \<noteq> f) (s_subscriptions v)\<rparr>)
      (b'\<lparr>b_topics := topic_remove (b_topics b') s f\<rparr>)"
  have "broker_inv b1" unfolding b1_def using inv_unsubscribe [OF _ v'(2)] sub by (simp add: resubscribed_def)
  moreover have "spec_of b1 = spec_unsubscribe (s_client_id v) f sp'"
    unfolding b1_def using spec_of_unsubscribe [OF _ v'(2)] sub v'(3) by (simp add: resubscribed_def)
  ultimately have "resubscribed x b (spec_unsubscribe (s_client_id v) f sp') b1"
    using sub v'(2) by (auto simp: resubscribed_def b1_def dest: spec [of _ s])
  then show ?thesis using v'(1) by (simp add: unsubscribe_one_def flip: b1_def)
qed

lemma unsubscribe_loop_spec:
  assumes "resubscribed x b sp' b'" and x: "lock_session x b = Some (s, v)"
  shows "wp (forP fs (unsubscribe_one x)) (\<lambda>_. resubscribed x b (fold (spec_unsubscribe (s_client_id v)) fs sp')) E b'"
  using assms(1)
proof (induction fs arbitrary: sp' b')
  case (Cons f fs)
  from unsubscribe_one_spec [OF Cons.prems x] have "wp (unsubscribe_one x f) (\<lambda>_. wp (forP fs (unsubscribe_one x))
      (\<lambda>_. resubscribed x b (fold (spec_unsubscribe (s_client_id v)) (f # fs) sp')) E) E b'"
    by (rule wp_mono) (use Cons.IH in auto)
  then show ?case by simp
qed simp

lemma UnsubscribeHandler_spec:
  fixes x :: ctx_ref
  assumes inv: "broker_inv b" and pkt: "pkt_body pkt = UnsubscribeBody unsub"
  defines "sp \<equiv> spec_revoke (reached b) (client_of x b) (unsub_topics unsub) (spec_of b)"
  shows "wp (UnsubscribeHandler env on_close x pkt) (\<lambda>_ b'. spec_of b' = sp) (settled x b sp) b"
proof (cases "cc_connected (b_ctxs b x) \<and> unsub_topics unsub \<noteq> []")
  case False
  then show ?thesis using pkt by (auto simp: UnsubscribeHandler_def sp_def spec_revoke_def client_of_def settled_def)
next
  case True
  have reply: "wp (send_reply on_close x (ack_packet Unsuback i)) (\<lambda>_ b'. spec_of b' = sp) E = (\<lambda>b. spec_of b = sp)" for i E
    by (simp add: wp_def fun_eq_iff send_reply_eq [OF sendable_ack])
  have "wp (forP (unsub_topics unsub) (unsubscribe_one x)) (\<lambda>_ b'. spec_of b' = sp) (settled x b sp) b"
  proof (cases "lock_session x b")
    case None
    then show ?thesis
      using True by (cases "unsub_topics unsub") (simp_all add: unsubscribe_one_def sp_def spec_revoke_def client_of_def settled_def)
  next
    case (Some sv)
    obtain s v where sv: "sv = (s, v)" by (cases sv)
    have "resubscribed x b (spec_of b) b" using inv by (simp add: resubscribed_def)
    moreover have "sp = fold (spec_unsubscribe (s_client_id v)) (unsub_topics unsub) (spec_of b)"
      using True Some sv by (simp add: sp_def spec_revoke_def client_of_def)
    ultimately have "wp (forP (unsub_topics unsub) (unsubscribe_one x)) (\<lambda>_. resubscribed x b sp) (settled x b sp) b"
      using unsubscribe_loop_spec Some sv by simp
    then show ?thesis by (rule wp_mono) (simp_all add: resubscribed_def)
  qed
  then show ?thesis using True pkt by (simp add: UnsubscribeHandler_def reply)
qed

lemma AckHandler_spec:
  fixes x :: ctx_ref and env :: Env
  assumes inv: "broker_inv b" and pkt: "pkt_body pkt = AckBody ack"
    and order: "\<And>cids. mset (env_order env cids) = mset cids"
  defines "sp \<equiv> (if \<not> cc_connected (b_ctxs b x) then spec_close (reached b) (client_of x b) (spec_of b)
     else if pkt_type pkt = Pubrel then spec_release (reached b) (client_of x b) (ack_packet_id ack) (spec_of b) else spec_of b)"
  shows "wp (AckHandler env on_close x pkt) (\<lambda>_ b'. spec_of b' = sp) (settled x b sp) b"
proof (cases "cc_connected (b_ctxs b x)")
  case False
  then show ?thesis using pkt by (simp add: AckHandler_def Let_def sp_def settled_def)
next
  case True
  have ack: "wp (connAck on_close x t i) (\<lambda>_ b'. spec_of b' = sp') E = (\<lambda>b. spec_of b = sp')" if "t \<in> {Pubrel, Pubcomp}" for t i E sp'
    using that by (auto simp: wp_def connAck_eq fun_eq_iff)
  have "wp (route env on_close msg) (\<lambda>_ b'. spec_of b' = spec_route (reached b) msg (spec_of b)) E b"
    if "cc_awaiting_pubrel (b_ctxs b x) i = Some msg" for msg i E
  proof -
    have "small_msg msg" "\<not> isTopicNameInvalid (m_topic msg)" using inv_ctx [OF inv, of x] that by (auto simp: ctx_ok_def)
    then show ?thesis using spec_of_routed(2) [OF inv _ _ order] by (simp add: wp_def route_eq)
  qed
  then show ?thesis
    using True pkt
    by (cases "pkt_type pkt")
       (auto simp: AckHandler_def Let_def sp_def ack spec_release_def client_of_def split: option.split)
qed

section \<open>CONNECT\<close>

lemma spec_of_new_session:
  assumes inv: "broker_inv b" and none: "map_of (b_sessions b) cid = None"
  shows "wp (new_session cid clean) (\<lambda>s b'. broker_inv b' \<and> spec_of b' = (spec_of b)\<lparr>sp_sessions :=
      (sp_sessions (spec_of b))(cid \<mapsto> \<lparr>ss_clean = clean, ss_subs = (\<lambda>_. None), ss_queue = []\<rparr>)\<rparr>) never b"
proof -
  have dead: "b_sess b (b_next_ref b) = None" by (rule sessions_okD(4) [OF inv_sessions [OF inv]])
  then have queue: "outbox_queue (b_outbox b) (b_next_ref b) = []" by (rule queue_of_dead [OF inv])
  have "s \<noteq> b_next_ref b" if "map_of (b_sessions b) cid' = Some s" for cid' s
    using sessions_okD(1) [OF inv_sessions [OF inv] that] dead by auto
  then have "wp (new_session cid clean) (\<lambda>s b'. spec_of b' = (spec_of b)\<lparr>sp_sessions :=
      (sp_sessions (spec_of b))(cid \<mapsto> \<lparr>ss_clean = clean, ss_subs = (\<lambda>_. None), ss_queue = []\<rparr>)\<rparr>) never b"
    using queue none
    by (auto simp: new_session_def spec_of_def fun_eq_iff session_view_def [abs_def] listed_def split: option.split)
  from wp_conj [OF wp_new_session_inv [OF inv none] this] show ?thesis by (rule wp_mono) auto
qed

lemma spec_of_getSession:
  assumes inv: "broker_inv b" and fresh: "clean \<longrightarrow> map_of (b_sessions b) cid = None"
  shows "wp (getSession cid clean) (\<lambda>s b'. spec_of b' = spec_connect cid clean False (spec_of b)) never b"
proof (cases "map_of (b_sessions b) cid")
  case None
  then have "sp_sessions (spec_of b) cid = None" by (simp add: spec_of_def)
  then show ?thesis
    using None wp_mono [OF spec_of_new_session [OF inv None]] by (auto simp: getSession_def spec_connect_def)
next
  case (Some s)
  then obtain v where v: "b_sess b s = Some v" "s_client_id v = cid"
    using sessions_okD(1) [OF inv_sessions [OF inv]] by blast
  have "sp_sessions (spec_of b) cid = Some (session_view b s v)" using spec_session [OF inv v(1)] v(2) by simp
  then have "spec_connect cid False False (spec_of b) = spec_of b" by (simp add: spec_connect_def fun_upd_idem)
  then show ?thesis using Some fresh by (simp add: getSession_def)
qed

text \<open>Handing the queue over.\<close>

definition spec_handover :: "string \<Rightarrow> Spec \<Rightarrow> Spec" where
  "spec_handover cid sp = sp\<lparr>sp_sessions := (sp_sessions sp)(cid := map_option (\<lambda>ss. ss\<lparr>ss_queue := []\<rparr>) (sp_sessions sp cid))\<rparr>"

lemma spec_of_drain:
  assumes inv: "broker_inv b" and v: "b_sess b s = Some v"
  shows "wp (outbox_drain b_outbox b_outbox_update (\<lambda>m q r. deliver on_close x m q r True) s)
           (\<lambda>_ b'. spec_of b' = spec_handover (s_client_id v) (spec_of b)) never b"
proof (cases "map_of (b_outbox b) s")
  case None
  then have "spec_handover (s_client_id v) (spec_of b) = spec_of b"
    using spec_session [OF inv v] by (simp add: spec_handover_def session_view_def outbox_queue_def fun_upd_idem)
  then show ?thesis using None by (simp add: outbox_drain_def)
next
  case (Some q)
  have small: "small_msg (om_msg m)" if "m \<in> set q" for m
    using inv that Some by (auto simp: broker_inv_def outbox_ok_def outbox_queue_def dest: spec [of _ s])
  define I where "I b' \<longleftrightarrow> b_sess b' = b_sess b \<and> b_sessions b' = b_sessions b \<and> b_outbox b' = b_outbox b \<and> b_retains b' = b_retains b" for b' :: Broker
  have fin: "spec_of (b_outbox_update (AList.delete s) b') = spec_handover (s_client_id v) (spec_of b)" if "I b'" for b'
  proof -
    have tab: "map_of (b_sessions b) (s_client_id v) = Some s" using sessions_okD(2) [OF inv_sessions [OF inv] v] .
    have other: "s' \<noteq> s" if "map_of (b_sessions b) cid = Some s'" "cid \<noteq> s_client_id v" for cid s'
      using sessions_okD(1) [OF inv_sessions [OF inv] that(1)] that(2) v by auto
    have "sp_sessions (spec_of (b_outbox_update (AList.delete s) b')) cid = sp_sessions (spec_handover (s_client_id v) (spec_of b)) cid" for cid
      using that tab other v
      by (auto simp: spec_of_def I_def spec_handover_def session_view_def [abs_def] outbox_queue_def delete_conv' split: option.split)
    then show ?thesis using that by (simp add: spec_handover_def I_def spec_of_def fun_eq_iff)
  qed
  have "wp (forP q (\<lambda>m. deliver on_close x (om_msg m) (om_granted_qos m) (om_retained m) True))
      (\<lambda>_ b'. spec_of (b_outbox_update (AList.delete s) b') = spec_handover (s_client_id v) (spec_of b)) never b"
  proof (rule wp_forP [where I = I])
    fix m b' assume "m \<in> set q" "I b'"
    then show "wp (deliver on_close x (om_msg m) (om_granted_qos m) (om_retained m) True) (\<lambda>_. I) never b'"
      using small by (simp add: wp_def deliver_eq I_def split: option.split)
  qed (use fin in \<open>auto simp: I_def\<close>)
  then show ?thesis using Some by (simp add: outbox_drain_def)
qed

lemma connect_finish_spec:
  assumes inv: "broker_inv b" and s: "lock_session x b = Some (s, v)" "s_client_id v = cid"
  shows "wp (connect_finish env on_close x cp cid existed)
     (\<lambda>_ b'. lock_channel x b \<noteq> None \<and>
        spec_of b' = (if existed \<and> \<not> cp_clean_session cp then spec_handover cid (spec_of b) else spec_of b))
     (\<lambda>_ b'. b' = b \<and> lock_channel x b = None) b"
proof (cases "lock_channel x b")
  case None
  then show ?thesis by (simp add: connect_finish_def)
next
  case (Some cch)
  obtain c ch where cch: "cch = (c, ch)" by (cases cch)
  have lock: "lock_session x (send_bytes c p b') = lock_session x b'" "lock_session x (upd_chan c f b') = lock_session x b'"
      "lock_session x (b'\<lparr>b_by_id := ids\<rparr>) = lock_session x b'" for p f b' ids
    by (simp_all add: lock_session_def split: option.split)
  have drain: "wp (outbox_drain b_outbox b_outbox_update (\<lambda>m q r. deliver on_close x m q r True) s)
      (\<lambda>_ b''. spec_of b'' = spec_handover cid (spec_of b)) never b'"
    if "broker_inv b'" "spec_of b' = spec_of b" "b_sess b' = b_sess b" for b'
    using spec_of_drain [of b' s v] that s(2) lock_session_live [OF s(1)] by simp
  show ?thesis
    using inv Some cch s drain
    by (simp add: connect_finish_def wp_whenP channel_setKeepalive_def bindId_def wp_send [OF sendable_connack] lock)
qed

lemma spec_connect_handover:
  "spec_connect cid clean True sp =
     (if sp_sessions sp cid \<noteq> None \<and> \<not> clean then spec_handover cid (spec_connect cid clean False sp) else spec_connect cid clean False sp)"
  by (auto simp: spec_connect_def spec_handover_def split: option.split)

lemma takeover_spec:
  assumes inv: "broker_inv b"
  shows "\<exists>b1. connect_takeover (onClose (Suc n) env) x cid b = Ok () b1 \<and> broker_inv b1 \<and> spec_of b1 = spec_of b \<and>
    lock_channel x b1 = lock_channel x b \<and> map_of (b_sessions b1) cid = map_of (b_sessions b) cid"
proof -
  define c where "c = (case cc_channel (b_ctxs b x) of Some c \<Rightarrow> c | None \<Rightarrow> 0)"
  obtain b1 where b1: "connect_takeover (onClose (Suc n) env) x cid b = Ok () b1" "taken_from x c cid b b1"
    using wp_Ok_unit [OF takeover_outcome [OF inv]] by blast
  then have inv1: "broker_inv b1" by (simp add: taken_from_def)
  have "spec_of b1 = spec_of b" using spec_cong [OF inv inv1] b1(2) by (simp add: taken_from_def)
  moreover have "lock_channel x b1 = lock_channel x b"
    using b1(2) inv_channel_ref [OF inv, of x c] by (auto simp: lock_channel_def taken_from_def c_def split: option.splits)
  ultimately show ?thesis using b1(1) inv1 takeover_keeps(2) [OF inv b1(2)] by blast
qed

lemma connect_accept_spec:
  fixes x :: ctx_ref and cid :: string
  assumes inv: "broker_inv b" and will: "length (cp_will_topic cp) < 65536" "length (cp_will_payload cp) < 65536"
    and fresh: "cp_clean_session cp \<longrightarrow> map_of (b_sessions b) cid = None"
  defines "sp \<equiv> spec_connect cid (cp_clean_session cp) (lock_channel x b \<noteq> None) (spec_of b)"
  shows "wp (connect_accept env (onClose (Suc n) env) x cp cid) (\<lambda>_ b'. spec_of b' = sp)
           (\<lambda>_ b'. lock_channel x b' = None \<and> spec_of b' = sp) b"
proof -
  obtain b1 where b1: "connect_takeover (onClose (Suc n) env) x cid b = Ok () b1" "broker_inv b1" "spec_of b1 = spec_of b"
      "lock_channel x b1 = lock_channel x b" "map_of (b_sessions b1) cid = map_of (b_sessions b) cid"
    using takeover_spec [OF inv] by blast
  have fresh1: "cp_clean_session cp \<longrightarrow> map_of (b_sessions b1) cid = None" using fresh b1(5) by simp
  have existed: "sessionExists cid b1 \<longleftrightarrow> sp_sessions (spec_of b) cid \<noteq> None"
    using b1(3) [symmetric] sessions_okD(1) [OF inv_sessions [OF b1(2)], of cid]
    by (auto simp: sessionExists_def spec_of_def split: option.split)
  obtain s b2 where b2: "getSession cid (cp_clean_session cp) b1 = Ok s b2" "broker_inv b2" "b_ctxs b2 = b_ctxs b1" "b_chans b2 = b_chans b1"
      "case map_of (b_sessions b1) cid of
         None \<Rightarrow> b_sess b2 s = Some (fresh_session cid (cp_clean_session cp)) | Some old \<Rightarrow> s = old \<and> b2 = b1"
      and spec2: "spec_of b2 = spec_connect cid (cp_clean_session cp) False (spec_of b)"
    using wp_Ok [OF wp_conj [OF getSession_outcome [OF b1(2) fresh1] spec_of_getSession [OF b1(2) fresh1], simplified]] b1(3)
    by (auto split: option.splits)
  obtain v where v: "b_sess b2 s = Some v" "s_client_id v = cid"
    using b2(5) sessions_okD(1) [OF inv_sessions [OF b1(2)], of cid s] by (auto simp: fresh_session_def split: option.splits)
  define b3 where "b3 = bind_client x cp cid s b2"
  have b3: "broker_inv b3" "lock_session x b3 = Some (s, v)" "spec_of b3 = spec_of b2" "lock_channel x b3 = lock_channel x b"
    unfolding b3_def bind_client_def using b2(2-4) will v b1(4)
    by (auto simp: ctx_ok_def lock_session_def lock_channel_def cong: option.case_cong intro!: inv_upd_ctx)
  have sp: "sp = (if lock_channel x b \<noteq> None \<and> sessionExists cid b1 \<and> \<not> cp_clean_session cp then spec_handover cid (spec_of b3) else spec_of b3)"
    by (cases "lock_channel x b") (simp_all add: sp_def spec_connect_handover existed b3(3) spec2)
  have "wp (connect_finish env (onClose (Suc n) env) x cp cid (sessionExists cid b1)) (\<lambda>_ b'. spec_of b' = sp)
      (\<lambda>_ b'. lock_channel x b' = None \<and> spec_of b' = sp) b3"
    using connect_finish_spec [OF b3(1,2) v(2)]
    by (rule wp_mono) (use b3(4) in \<open>simp_all add: sp\<close>)
  then show ?thesis
    using b1(1) b2(1) by (simp add: connect_accept_def wp_def seqP_apply bindP_apply b3_def [symmetric] del: onClose.simps)
qed

lemma connect_reject_spec:
  assumes inv: "broker_inv b" and t: "wills_routable b" and order: "\<And>cids. mset (env_order env cids) = mset cids"
  shows "wp (connect_reject (onClose (Suc n) env) x rc) (\<lambda>_ b'. spec_of b' = spec_close (reached b) (client_of x b) (spec_of b)) never b"
proof (cases "lock_channel x b")
  case None
  then show ?thesis by (simp add: connect_reject_def spec_close_def client_of_def open_channel_def)
next
  case (Some cch)
  obtain c ch where cch: "cch = (c, ch)" by (cases cch)
  define b1 where "b1 = (if isClosing c b then b else send_bytes c (connack_packet False rc) b)"
  have "\<exists>ch. lock_channel x b1 = Some (c, ch)"
    using Some cch send_bytes_closing [of c "connack_packet False rc" b c]
    by (auto simp: b1_def lock_channel_def simp del: send_bytes_closing split: option.splits)
  moreover have "broker_inv b1" "wills_routable b1" using inv t by (simp_all add: b1_def)
  ultimately have "wp (requestClose (onClose (Suc n) env) c ''CONNECT rejected'')
      (\<lambda>_ b'. spec_of b' = spec_close (reached b1) (client_of x b1) (spec_of b1)) never b1"
    using spec_close_client [of b1 env x n "''CONNECT rejected''"] order by (auto simp del: onClose.simps)
  then show ?thesis
    using Some cch by (simp add: connect_reject_def wp_send [OF sendable_connack] b1_def del: onClose.simps split: if_splits)
qed

lemma ConnectHandler_spec:
  fixes x :: ctx_ref and env :: Env
  assumes inv: "broker_inv b" and t: "wills_routable b" and order: "\<And>cids. mset (env_order env cids) = mset cids"
    and pkt: "pkt_body pkt = ConnectBody cp" "cp_client_id cp \<noteq> []" "small_body (ConnectBody cp)"
    and fresh: "\<not> replaces_session env x pkt b"
  defines "sp \<equiv> spec_join (reached b) (connect_verdict env b) (client_of x b) cp (spec_of b)"
  shows "wp (ConnectHandler env (onClose (Suc n) env) x pkt) (\<lambda>_ b'. spec_of b' = sp) (settled x b sp) b"
proof (cases "\<not> cc_connected (b_ctxs b x) \<and> cp_protocol cp = ''MQTT''")
  case False
  then show ?thesis
    using pkt(1) by (auto simp: ConnectHandler_def sp_def spec_join_def client_of_def settled_def simp del: onClose.simps)
next
  case True
  note eq = ConnectHandler_verdict [OF _ pkt(1) _ pkt(2), of b x env "onClose (Suc n) env"]
  show ?thesis
  proof (cases "connect_verdict env b cp = accepted")
    case ok: True
    have "length (cp_will_topic cp) < 65536" "length (cp_will_payload cp) < 65536" using pkt(3) by simp_all
    moreover have "cp_clean_session cp \<longrightarrow> map_of (b_sessions b) (cp_client_id cp) = None"
      using fresh True ok pkt(1) by (auto simp: replaces_session_def sessionExists_def)
    note connect_accept_spec [OF inv _ _ this, of env n x]
    ultimately
    have "wp (connect_accept env (onClose (Suc n) env) x cp (cp_client_id cp)) (\<lambda>_ b'. spec_of b' = sp) (settled x b sp) b"
      by (elim meta_impE) (assumption, assumption, erule wp_mono,
        use True ok in \<open>simp_all add: sp_def spec_join_def client_of_def settled_def\<close>)
    then show ?thesis using True ok eq by (simp add: wp_def del: onClose.simps)
  next
    case rejected: False
    have "wp (connect_reject (onClose (Suc n) env) x (connect_verdict env b cp)) (\<lambda>_ b'. spec_of b' = sp) (settled x b sp) b"
      using connect_reject_spec [OF inv t order]
      by (rule wp_mono) (use True rejected in \<open>simp_all add: sp_def spec_join_def client_of_def\<close>)
    then show ?thesis using True rejected eq by (simp add: wp_def del: onClose.simps)
  qed
qed

section \<open>The worker\<close>

lemma dispatch_table:
  "dispatch (registerHandlers Map.empty) env on_close x pkt = (case pkt_type pkt of
       Connect \<Rightarrow> ConnectHandler env on_close x pkt | Publish \<Rightarrow> PublishHandler env on_close x pkt
     | Subscribe \<Rightarrow> SubscribeHandler env on_close x pkt | Unsubscribe \<Rightarrow> UnsubscribeHandler env on_close x pkt
     | Puback \<Rightarrow> AckHandler env on_close x pkt | Pubrec \<Rightarrow> AckHandler env on_close x pkt
     | Pubrel \<Rightarrow> AckHandler env on_close x pkt | Pubcomp \<Rightarrow> AckHandler env on_close x pkt
     | Pingreq \<Rightarrow> PingreqHandler env on_close x pkt | Disconnect \<Rightarrow> DisconnectHandler env on_close x pkt
     | _ \<Rightarrow> throwP ''unhandled packet type'')"
  by (simp add: dispatch_def registerHandlers_def registerHandler_def split: PacketType.split)

text \<open>A body of another type is an exception in every handler that looks at it.\<close>

lemma mismatch:
  fixes b :: Broker and x :: ctx_ref
  defines "E \<equiv> settled x b (spec_close (reached b) (client_of x b) (spec_of b))"
  shows "\<nexists>cp. pkt_body pkt = ConnectBody cp \<Longrightarrow> wp (ConnectHandler env on_close x pkt) Q E b"
    "\<nexists>pub. pkt_body pkt = PublishBody pub \<Longrightarrow> wp (PublishHandler env on_close x pkt) Q E b"
    "\<nexists>sub. pkt_body pkt = SubscribeBody sub \<Longrightarrow> wp (SubscribeHandler env on_close x pkt) Q E b"
    "\<nexists>unsub. pkt_body pkt = UnsubscribeBody unsub \<Longrightarrow> wp (UnsubscribeHandler env on_close x pkt) Q E b"
    "\<nexists>ack. pkt_body pkt = AckBody ack \<Longrightarrow> wp (AckHandler env on_close x pkt) Q E b"
  by (auto simp: ConnectHandler_def PublishHandler_def SubscribeHandler_def UnsubscribeHandler_def AckHandler_def E_def settled_def
      split: PacketBody.split)

lemma AckHandler_request:
  fixes x :: ctx_ref and env :: Env
  assumes inv: "broker_inv b" and order: "\<And>cids. mset (env_order env cids) = mset cids"
    and type: "pkt_type pkt \<in> {Puback, Pubrec, Pubrel, Pubcomp}"
  defines "sp \<equiv> spec_request env (reached b) (connect_verdict env b) (hooks_onMessageIn (env_hooks env) (b_events b)) (client_of x b) pkt (spec_of b)"
  shows "wp (AckHandler env on_close x pkt) (\<lambda>_ b'. spec_of b' = sp) (settled x b sp) b"
proof (cases "\<exists>ack. pkt_body pkt = AckBody ack")
  case True
  then obtain ack where ack: "pkt_body pkt = AckBody ack" by blast
  from AckHandler_spec [OF inv this order, of on_close x] show ?thesis
    using type ack by (cases "pkt_type pkt") (simp_all add: sp_def spec_request_def split: if_splits)
next
  case False
  then have "sp = spec_close (reached b) (client_of x b) (spec_of b)"
    using type by (cases "pkt_body pkt"; cases "pkt_type pkt") (simp_all add: sp_def spec_request_def)
  then show ?thesis using mismatch(5) [OF False] by (simp only:)
qed

lemma dispatch_spec:
  fixes x :: ctx_ref and env :: Env
  assumes inv: "broker_inv b" and t: "wills_routable b" and order: "\<And>cids. mset (env_order env cids) = mset cids"
    and hooks: "hooks_keep_topic (env_hooks env)" and pkt: "Packet_ok pkt" "small_body (pkt_body pkt)"
    and fresh: "\<not> replaces_session env x pkt b"
  defines "sp \<equiv> spec_request env (reached b) (connect_verdict env b) (hooks_onMessageIn (env_hooks env) (b_events b))
    (client_of x b) pkt (spec_of b)"
  shows "wp (dispatch (registerHandlers Map.empty) env (onClose (Suc n) env) x pkt) (\<lambda>_ b'. spec_of b' = sp) (settled x b sp) b"
proof -
  note sp_def [simp] spec_request_def [simp] dispatch_table [simp]
  note ack = AckHandler_request [OF inv order, of pkt "onClose (Suc n) env" x, folded sp_def]
  show ?thesis
  proof (cases "pkt_type pkt")
    case Connect
    show ?thesis
    proof (cases "\<exists>cp. pkt_body pkt = ConnectBody cp")
      case True
      then obtain cp where cp: "pkt_body pkt = ConnectBody cp" by blast
      then have "cp_client_id cp \<noteq> []" "small_body (ConnectBody cp)"
        using pkt Connect is_valid_utf8_not_empty by (auto simp: Packet_ok_def)
      from ConnectHandler_spec [OF inv t order cp this fresh] show ?thesis using Connect cp by (simp del: onClose.simps)
    next
      case False
      then show ?thesis using mismatch(1) Connect by (auto simp del: onClose.simps split: PacketBody.split)
    qed
  next
    case Publish
    then show ?thesis
      using PublishHandler_spec [OF inv _ hooks order] mismatch(2) pkt
      by (cases "\<exists>pub. pkt_body pkt = PublishBody pub") (auto simp del: onClose.simps small_body.simps split: PacketBody.split)
  next
    case Subscribe
    then show ?thesis
      using SubscribeHandler_spec [OF inv] mismatch(3)
      by (cases "\<exists>sub. pkt_body pkt = SubscribeBody sub") (auto simp del: onClose.simps split: PacketBody.split)
  next
    case Unsubscribe
    then show ?thesis
      using UnsubscribeHandler_spec [OF inv] mismatch(4)
      by (cases "\<exists>unsub. pkt_body pkt = UnsubscribeBody unsub") (auto simp del: onClose.simps split: PacketBody.split)
  next
    case Pingreq
    have "wp (send_reply (onClose (Suc n) env) x \<lparr>pkt_type = Pingresp, pkt_body = EmptyBody\<rparr>) (\<lambda>_ b'. spec_of b' = spec_of b) E b" for E
      by (simp add: wp_def send_reply_eq [OF sendable_pingresp])
    then show ?thesis using Pingreq by (simp add: PingreqHandler_def settled_def del: onClose.simps)
  qed (use ack in \<open>simp_all add: DisconnectHandler_def settled_def del: onClose.simps\<close>)
qed

text \<open>
  C2. The worker implements the abstract broker. One request, of any packet type, whatever
  it holds and whether or not it follows the protocol, changes the sessions, their subscriptions
  and queues and the retained messages exactly as \<open>spec_request\<close> says: a CONNECT begins or resumes
  a session or is turned away, a PUBLISH updates the retained messages and is routed to every
  interested session, SUBSCRIBE and UNSUBSCRIBE change the subscriptions of the sender's session,
  and a violation, or an exception of a plugin, ends the sender's connection with its will
  published. \<open>handleRequest\<close> returns and keeps the invariant in every case but one, which is
  excluded: a CONNECT that is accepted with a clean session while a session of the client is
  stored is undefined behaviour. It is assumed that wills that are due have valid topics, which
  CONNECT does not check, and that plugins leave topics alone.
\<close>

theorem request_refines_spec:
  assumes inv: "broker_inv b" and requests: "b_requests b = (x, pkt) # rest"
    and fresh: "\<not> replaces_session env x pkt b"
    and hooks: "hooks_keep_topic (env_hooks env)" and order: "\<And>cids. mset (env_order env cids) = mset cids"
    and wills: "wills_routable b"
  shows "\<exists>b'. handleRequest (registerHandlers Map.empty) env (onClose (Suc n) env) b = Ok () b' \<and> broker_inv b' \<and>
    spec_of b' = spec_request env (reached b) (connect_verdict env b) (hooks_onMessageIn (env_hooks env) (b_events b))
      (client_of x b) pkt (spec_of b)"
proof -
  let ?b = "b\<lparr>b_requests := rest\<rparr>" and ?close = "\<lambda>e. bindP (getP (lock_channel x)) (\<lambda>channel. case channel of None \<Rightarrow> returnP ()
      | Some (c, ch) \<Rightarrow> requestClose (onClose (Suc n) env) c e)"
  define sp where "sp = spec_request env (reached ?b) (connect_verdict env ?b) (hooks_onMessageIn (env_hooks env) (b_events ?b))
    (client_of x ?b) pkt (spec_of ?b)"
  have b: "broker_inv ?b" "Packet_ok pkt" "small_body (pkt_body pkt)" "wills_routable ?b"
    using inv requests wills by (simp_all add: broker_inv_def)
  have fresh': "\<not> replaces_session env x pkt ?b" using fresh by simp
  have "connect_verdict env ?b = connect_verdict env b" by (simp add: fun_eq_iff connect_verdict_def connectionCount_def)
  then have sp: "sp = spec_request env (reached b) (connect_verdict env b) (hooks_onMessageIn (env_hooks env) (b_events b))
      (client_of x b) pkt (spec_of b)" by (simp add: sp_def)
  have "wp (?close e) (\<lambda>_ b'. spec_of b' = sp) never b'" if "settled x ?b sp e b'" for e b'
    using that spec_close_client [OF b(1,4) order] spec_close_client [of b' env x n e, OF _ _ order] b(4)
    unfolding settled_def close_alike_def by (auto simp del: onClose.simps)
  then have "wp (catchP (dispatch (registerHandlers Map.empty) env (onClose (Suc n) env) x pkt) ?close) (\<lambda>_ b'. spec_of b' = sp) never ?b"
    using dispatch_spec [OF b(1,4) order hooks b(2,3) fresh', of n] unfolding wp_catchP sp_def [symmetric] by (blast intro: wp_mono)
  then have returns: "wp (handleRequest (registerHandlers Map.empty) env (onClose (Suc n) env)) (\<lambda>_ b'. spec_of b' = sp) never b"
    using requests by (simp add: handleRequest_def del: onClose.simps)
  then obtain b' where b': "handleRequest (registerHandlers Map.empty) env (onClose (Suc n) env) b = Ok () b'" "spec_of b' = sp"
    using wp_Ok_unit [of _ "\<lambda>b'. spec_of b' = sp"] by blast
  then show ?thesis using wlp_OkD [OF engine.handleRequest_inv [OF inv hooks] b'(1)] unfolding sp by blast
qed

text \<open>
  C12. Ending a connection implements \<open>spec_close\<close>, whoever asks for it: the will is published
  when it is due, a clean session that was not taken over ends with all it has, and nothing
  else changes; on a connection that is closed already, nothing changes at all. It is assumed that
  wills that are due have valid topics.
\<close>

theorem close_refines_spec:
  assumes inv: "broker_inv b" and channel: "lock_channel x b = Some (c, ch)"
    and order: "\<And>cids. mset (env_order env cids) = mset cids" and wills: "wills_routable b"
  shows "\<exists>b'. requestClose (onClose (Suc n) env) c reason b = Ok () b' \<and> broker_inv b' \<and>
    spec_of b' = spec_close (reached b) (client_of x b) (spec_of b)"
proof -
  have "wp (requestClose (onClose (Suc n) env) c reason) (\<lambda>_ b'. spec_of b' = spec_close (reached b) (client_of x b) (spec_of b)) never b"
    using spec_close_client [OF inv wills order, of x n reason] channel by (simp del: onClose.simps)
  from wp_Ok_unit [OF wp_conj [OF engine.requestClose_inv [OF inv] this, simplified]] show ?thesis by blast
qed

section \<open>The demonstration broker\<close>

lemma demo_wills: "wills_routable demo_broker"
  by (simp add: wills_routable_def demo_broker_def demo_client_def will_due_def no_context_def new_context_def isTopicNameInvalid_def)

lemma demo_spec: "sp_sessions (spec_of demo_broker) ''a'' = Some \<lparr>ss_clean = False, ss_subs = (\<lambda>_. None), ss_queue = []\<rparr>"
  by (simp add: spec_of_def demo_broker_def session_view_def demo_session_def broker_init_def outbox_queue_def listed_def fun_eq_iff)

lemma demo_client_view: "cl_session (client_of 1 demo_broker) = Some ''a''" "cc_connected (b_ctxs demo_broker 1)"
    "cc_client_id (b_ctxs demo_broker 1) = ''a''"
  by (simp_all add: client_of_def lock_session_def demo_broker_def demo_client_def demo_session_def)

definition demo_subscribe_pkt :: Packet where
  "demo_subscribe_pkt = \<lparr>pkt_type = Subscribe, pkt_body = SubscribeBody \<lparr>sub_packet_id = 7,
     sub_entries = [\<lparr>se_filter = ''a/#'', se_qos = AtLeastOnce\<rparr>]\<rparr>\<rparr>"

theorem request_refines_spec_witness:
  "\<exists>b' ss. handleRequest (registerHandlers Map.empty) demo_env (onClose (Suc 0) demo_env)
       (demo_broker\<lparr>b_requests := [(1, demo_subscribe_pkt)]\<rparr>) = Ok () b' \<and>
     sp_sessions (spec_of b') ''a'' = Some ss \<and> ss_subs ss = [''a/#'' \<mapsto> AtLeastOnce]"
proof -
  let ?b = "demo_broker\<lparr>b_requests := [(1, demo_subscribe_pkt)]\<rparr>"
  have "is_valid_utf8 ''a/#''" by code_simp
  then have inv: "broker_inv ?b"
    using demo_inv by (simp add: broker_inv_def Packet_ok_def demo_subscribe_pkt_def)
  have order: "mset (env_order demo_env cids) = mset cids" for cids by (simp add: demo_env_def)
  have code: "grant_code demo_env cid \<lparr>se_filter = ''a/#'', se_qos = AtLeastOnce\<rparr> = 1" for cid
    using sample_filters
    by (simp add: grant_code_def demo_env_def canSubscribe_def registerSecurity_def addAuthenticator_def addAuthorizer_def
        SecurityChain_empty_def AllowAllAuthorizer_def)
  have "spec_request demo_env on verdict hooks (client_of 1 demo_broker) demo_subscribe_pkt (spec_of demo_broker) =
      spec_subscribe ''a'' ''a/#'' AtLeastOnce (spec_of demo_broker)" for on verdict hooks
    by (simp add: spec_request_def demo_subscribe_pkt_def spec_grant_def demo_client_view [simplified] code)
  moreover have "\<not> replaces_session demo_env 1 demo_subscribe_pkt ?b" by (simp add: replaces_session_def demo_subscribe_pkt_def)
  ultimately show ?thesis
    using request_refines_spec [OF inv _ _ demo_hooks order, of 1 demo_subscribe_pkt "[]" 0] demo_wills demo_spec
    by (auto simp: spec_subscribe_def simp del: onClose.simps)
qed

theorem close_refines_spec_witness:
  "\<exists>b'. requestClose (onClose (Suc 0) demo_env) 0 ''peer closed connection'' demo_broker = Ok () b' \<and>
     sp_retained (spec_of b') ''gone/a'' = Some (will_message demo_client) \<and> sp_sessions (spec_of b') ''a'' \<noteq> None"
proof -
  have channel: "lock_channel 1 demo_broker = Some (0, channel_new 64 0)"
    by (simp add: lock_channel_def demo_broker_def demo_client_def new_context_def)
  have order: "mset (env_order demo_env cids) = mset cids" for cids by (simp add: demo_env_def)
  have "cl_open (client_of 1 demo_broker)"
    using channel [simplified] demo_channel(1) [simplified] by (simp add: client_of_def open_channel_def channel_new_def)
  moreover have "will_due demo_client" "w_retain (cc_will demo_client)"
      "m_topic (will_message demo_client) = ''gone/a''" "b_ctxs demo_broker 1 = demo_client"
    by (simp_all add: will_due_def will_message_def demo_client_def new_context_def demo_broker_def)
  moreover have "spec_offer msg on \<lparr>ss_clean = False, ss_subs = (\<lambda>_. None), ss_queue = []\<rparr> = \<lparr>ss_clean = False, ss_subs = (\<lambda>_. None), ss_queue = []\<rparr>"
    for msg on by (simp add: spec_offer_def spec_interests_def)
  ultimately show ?thesis
    using close_refines_spec [OF demo_inv channel order demo_wills, of 0 "''peer closed connection''"] demo_spec demo_client_view(1)
    by (auto simp: spec_close_def spec_leave_def spec_will_def spec_route_def spec_retain_def simp del: onClose.simps spec_retained)
qed

end
