(* ===== verification/Liveness.thy ===== *)
theory Liveness
  imports Broker_Safety
begin

text \<open>
  The queue between the I/O thread and the worker. Nothing but the worker takes requests from
  it, nothing but a received packet adds one, and a handler never touches it; so requests are
  handled in the order of their arrival, and each of them after finitely many turns.
\<close>

section \<open>Handlers leave the queue alone\<close>

definition queue_state :: "Broker \<Rightarrow> (ctx_ref \<times> Packet) list \<times> bool \<times> int" where
  "queue_state b = (b_requests b, b_started b, b_now b)"

lemma queue_state_frame [simp]:
  "queue_state (upd_ctx x f b) = queue_state b" "queue_state (upd_chan c g b) = queue_state b" "queue_state (upd_sess s h b) = queue_state b"
  "queue_state (b\<lparr>b_topics := t\<rparr>) = queue_state b" "queue_state (b\<lparr>b_retains := st\<rparr>) = queue_state b"
  "queue_state (b\<lparr>b_outbox := ob\<rparr>) = queue_state b" "queue_state (b_outbox_update k b) = queue_state b"
  "queue_state (b\<lparr>b_by_id := ids\<rparr>) = queue_state b" "queue_state (b\<lparr>b_by_channel := bc\<rparr>) = queue_state b"
  "queue_state (b\<lparr>b_channels := cs\<rparr>) = queue_state b" "queue_state (b\<lparr>b_events := evs\<rparr>) = queue_state b"
  "queue_state (b\<lparr>b_received := w\<rparr>) = queue_state b" "queue_state (b\<lparr>b_delivered := w\<rparr>) = queue_state b"
  "queue_state (b\<lparr>b_auto_seq := w\<rparr>) = queue_state b" "queue_state (b\<lparr>b_sessions := tab\<rparr>) = queue_state b"
  "queue_state (b\<lparr>b_sess := sess\<rparr>) = queue_state b" "queue_state (b\<lparr>b_next_ref := n\<rparr>) = queue_state b"
  "queue_state (b\<lparr>b_ctxs := ctxs\<rparr>) = queue_state b" "queue_state (b\<lparr>b_chans := chs\<rparr>) = queue_state b"
  by (simp_all add: queue_state_def)

locale queue_frame =
  fixes on_close :: close_callback
  assumes close_keeps: "keeps queue_state (on_close c reason)"
begin

lemma requestClose_keeps: "keeps queue_state (requestClose on_close c reason)"
  by (auto simp: requestClose_def channel_close_def close_keeps)

lemma channel_asyncSend_keeps: "keeps queue_state (channel_asyncSend on_close c pkt)"
  by (auto simp: channel_asyncSend_def transport_of_send_def requestClose_keeps split: outcome.split bool.split)

lemma deliver_keeps: "keeps queue_state (deliver on_close x msg q r d)"
  by (auto simp: deliver_def Let_def channel_asyncSend_keeps split: option.split)

lemma route_keeps: "keeps queue_state (route env on_close msg)"
  by (auto simp: route_def route_one_def enqueue_offline_def deliver_keeps split: option.split)

lemma channel_tick_keeps: "keeps queue_state (channel_tick on_close now c)"
  by (auto simp: channel_tick_def Let_def requestClose_keeps split: option.split)

lemma resend_keeps: "keeps queue_state (resend on_close x pid)"
  by (auto simp: resend_def channel_asyncSend_keeps split: option.split)

lemma retransmit_items_keeps: "keeps queue_state (retransmit_items on_close now x c pids)"
  by (induction pids) (auto simp: requestClose_keeps resend_keeps simp del: bindP_prim prog_apply split: option.split)

lemma checkKeepalive_keeps: "keeps queue_state (checkKeepalive on_close now snapshot)"
  by (auto simp: checkKeepalive_def channel_tick_keeps)

lemma doTick_keeps: "keeps queue_state (doTick on_close snapshot chan_order pid_order)"
  by (auto simp: doTick_def tick_keepalive_def tick_retransmission_def checkKeepalive_def checkRetransmission_def
      retransmit_client_def channel_tick_keeps retransmit_items_keeps split: option.split)

lemma send_keeps:
  "keeps queue_state (connAck on_close x t i)" "keeps queue_state (send_reply on_close x p)" "keeps queue_state (connect_reject on_close x rc)"
  by (auto simp: connAck_def send_reply_def connect_reject_def channel_asyncSend_keeps requestClose_keeps split: option.split)

lemma dropSession_keeps: "keeps queue_state (dropSession entry s)"
  by (auto simp: dropSession_def split: option.split)

lemma getSession_keeps: "keeps queue_state (getSession cid clean)"
  by (auto simp: getSession_def new_session_def dropSession_keeps split: option.split)

lemma connect_accept_keeps: "keeps queue_state (connect_accept env on_close x cp cid)"
proof -
  have "keeps queue_state (connect_takeover on_close x cid)"
    by (auto simp: connect_takeover_def requestClose_keeps split: option.split)
  moreover have "keeps queue_state (connect_finish env on_close x cp cid existed)" for existed
    by (auto simp: connect_finish_def channel_setKeepalive_def bindId_def outbox_drain_def channel_asyncSend_keeps deliver_keeps
        split: option.split)
  ultimately show ?thesis by (auto simp: connect_accept_def bind_client_def getSession_keeps)
qed

lemma ConnectHandler_keeps: "keeps queue_state (ConnectHandler env on_close x pkt)"
  by (auto simp: ConnectHandler_def connect_client_id_def nextAutoSeq_def send_keeps connect_accept_keeps
      split: PacketBody.split option.split)

lemma PublishHandler_keeps: "keeps queue_state (PublishHandler env on_close x pkt)"
proof -
  have "keeps queue_state (publish_accept env on_close x pub msg)" for pub msg
    by (auto simp: publish_accept_def publish_filtered_def publish_ack_def Let_def send_keeps route_keeps split: prod.split)
  then show ?thesis by (auto simp: PublishHandler_def Let_def send_keeps split: PacketBody.split)
qed

lemma SubscribeHandler_keeps: "keeps queue_state (SubscribeHandler env on_close x pkt)"
proof -
  have "keeps queue_state (subscribe_entry env on_close x e)" for e
    by (auto simp: subscribe_entry_def deliver_keeps split: option.split)
  then have "keeps queue_state (subscribe_loop env on_close x es granted)" for es granted
    by (induction es arbitrary: granted) auto
  then show ?thesis by (auto simp: SubscribeHandler_def send_keeps split: PacketBody.split)
qed

lemma UnsubscribeHandler_keeps: "keeps queue_state (UnsubscribeHandler env on_close x pkt)"
  by (auto simp: UnsubscribeHandler_def unsubscribe_one_def send_keeps split: PacketBody.split option.split)

lemma AckHandler_keeps: "keeps queue_state (AckHandler env on_close x pkt)"
  by (auto simp: AckHandler_def Let_def send_keeps route_keeps split: PacketBody.split PacketType.split option.split)

lemma dispatch_keeps: "keeps queue_state (dispatch (registerHandlers Map.empty) env on_close x pkt)"
  by (cases "pkt_type pkt")
     (auto simp: dispatch_def registerHandlers_def registerHandler_def PingreqHandler_def DisconnectHandler_def
       ConnectHandler_keeps PublishHandler_keeps SubscribeHandler_keeps UnsubscribeHandler_keeps AckHandler_keeps send_keeps)

end

lemma onClose_keeps: "keeps queue_state (onClose n env c reason)"
proof (induction n arbitrary: c reason)
  case (Suc n)
  then have "queue_frame (onClose n env)" by unfold_locales
  from queue_frame.route_keeps [OF this] have "keeps queue_state (publish_will env (onClose n env) x)" for x
    by (auto simp: publish_will_def Let_def)
  moreover have "keeps queue_state (removeChannel c)" for c
    by (auto simp: removeChannel_def Let_def dropSession_def split: option.split)
  ultimately show ?case by (auto simp: remove_channel_ref_def simp del: bindP_prim prog_apply split: option.split)
qed (auto simp del: prog_apply)

interpretation queue: queue_frame "onClose n env" for n env
  by unfold_locales (rule onClose_keeps)

section \<open>The queue\<close>

text \<open>A turn of the worker takes the first request, whatever its handler does.\<close>

lemma worker_step_queue:
  assumes "worker_step env n b b'"
  shows "b_requests b' = tl (b_requests b)" "b_started b' = b_started b"
proof -
  have "queue_state b' = (tl (b_requests b), b_started b, b_now b)"
  proof (cases "b_requests b")
    case Nil
    then show ?thesis using assms by (simp add: worker_step_def handleRequest_def queue_state_def)
  next
    case (Cons r rest)
    obtain x pkt where r: "r = (x, pkt)" by (cases r)
    let ?m = "catchP (dispatch (registerHandlers Map.empty) env (onClose n env) x pkt)
      (\<lambda>e. bindP (getP (lock_channel x)) (\<lambda>channel. case channel of None \<Rightarrow> returnP () | Some (c, ch) \<Rightarrow> requestClose (onClose n env) c e))"
    have "keeps queue_state ?m"
      by (auto simp: queue.dispatch_keeps queue.requestClose_keeps split: option.split)
    moreover have "?m (b\<lparr>b_requests := rest\<rparr>) = Ok () b'"
      using assms Cons r by (simp add: worker_step_def handleRequest_def)
    ultimately show ?thesis using keepsD(1) [of queue_state ?m] Cons by (fastforce simp: queue_state_def)
  qed
  then show "b_requests b' = tl (b_requests b)" "b_started b' = b_started b" by (simp_all add: queue_state_def)
qed

lemma receive_frame_queue:
  "wlp (receive_frame env (onClose n env) c) (\<lambda>_ b'. \<exists>arrived. b_requests b' = b_requests b @ arrived) (\<lambda>_ _. True) b"
proof -
  have close: "wlp (requestClose (onClose n env) c e) (\<lambda>_ b'. \<exists>arrived. b_requests b' = b_requests b @ arrived) (\<lambda>_ _. True) b" for e
  proof -
    have "wlp (requestClose (onClose n env) c e) (\<lambda>_ b'. queue_state b' = queue_state b) (\<lambda>_ b'. queue_state b' = queue_state b) b"
      using queue.requestClose_keeps by (simp add: keeps_def)
    then show ?thesis by (rule wlp_mono) (simp_all add: queue_state_def)
  qed
  show ?thesis
    unfolding receive_frame_def channel_on_packet_def onPacket_def whenP_def wlp_bindP wlp_prim
    using close by (auto simp: liftP_def wlp_def bindP_apply seqP_apply catchP_apply split: option.split outcome.split)
qed

lemma io_step_queue:
  assumes "io_step env n b b'"
  shows "\<exists>arrived. b_requests b' = b_requests b @ arrived"
  using assms
proof cases
  case step_frame
  then show ?thesis using wlp_OkD [OF receive_frame_queue] by blast
next
  case (step_peer_close c)
  then show ?thesis using keepsD(1) [OF queue.requestClose_keeps step_peer_close] by (simp add: queue_state_def)
next
  case (step_tick snapshot b1 chan_order pid_order)
  then show ?thesis using keepsD(1) [OF queue.doTick_keeps doTick_Ok [OF step_tick(2,4)]] by (simp add: queue_state_def)
next
  case step_start
  have "keeps b_requests (engine_start env)"
    by (auto simp: engine_start_def listen_def addChannel_def split: option.split)
  from keepsD(1) [OF this step_start] show ?thesis by simp
next
  case (step_accept ec endpoint c)
  have "keeps b_requests (on_accept env ec endpoint c)"
    by (auto simp: on_accept_def channel_start_def engine_start_def listen_def addChannel_def split: option.split)
  from keepsD(1) [OF this step_accept] show ?thesis by simp
next
  case step_stop
  have "keeps b_requests engine_stop" by (auto simp: engine_stop_def)
  from keepsD(1) [OF this step_stop] show ?thesis by simp
qed simp_all

section \<open>Runs\<close>

text \<open>
  An infinite run: in every step either the worker takes a turn, which it does while the engine
  is started, or something happens outside it.
\<close>

definition broker_run :: "Env \<Rightarrow> nat \<Rightarrow> (nat \<Rightarrow> bool) \<Rightarrow> (nat \<Rightarrow> Broker) \<Rightarrow> bool" where
  "broker_run env n turn \<sigma> \<longleftrightarrow>
     (\<forall>i. if turn i then b_started (\<sigma> i) \<and> worker_step env n (\<sigma> i) (\<sigma> (Suc i)) else io_step env n (\<sigma> i) (\<sigma> (Suc i)))"

definition fair :: "(nat \<Rightarrow> bool) \<Rightarrow> bool" where
  "fair turn \<longleftrightarrow> (\<forall>i. \<exists>j\<ge>i. turn j)"

lemma queue_until_turn:
  assumes run: "broker_run env n turn \<sigma>" and "\<forall>l. i \<le> l \<and> l < j \<longrightarrow> \<not> turn l" "i \<le> j"
  shows "\<exists>arrived. b_requests (\<sigma> j) = b_requests (\<sigma> i) @ arrived"
  using assms(3,2)
proof (induction j rule: dec_induct)
  case (step j)
  then have "io_step env n (\<sigma> j) (\<sigma> (Suc j))" using run by (auto simp: broker_run_def dest!: spec [of _ j])
  from io_step_queue [OF this] step show ?case by fastforce
qed simp

lemma next_turn:
  assumes "fair turn"
  obtains j where "i \<le> j" "turn j" "\<forall>l. i \<le> l \<and> l < j \<longrightarrow> \<not> turn l"
proof -
  let ?j = "LEAST j. i \<le> j \<and> turn j"
  have "\<exists>j\<ge>i. turn j" using assms by (simp add: fair_def)
  then have "i \<le> ?j \<and> turn ?j" by (rule LeastI_ex)
  moreover have "\<forall>l. i \<le> l \<and> l < ?j \<longrightarrow> \<not> turn l" using not_less_Least by blast
  ultimately show ?thesis using that by blast
qed

lemma no_turns: "\<forall>l. i \<le> l \<and> l < j \<longrightarrow> \<not> turn l \<Longrightarrow> filter turn [i..<j] = []"
  by (simp add: filter_empty_conv)

text \<open>
  C10. Every request is handled. In a run in which the worker has a turn again and again, a
  request with \<open>k\<close> others before it in the queue is the first one after exactly \<open>k\<close> turns,
  however many requests arrive, connections close and timers tick in the meantime, and the
  next turn is its own. So requests are handled in the order of their arrival and none starves.
\<close>

theorem request_eventually_handled:
  assumes run: "broker_run env n turn \<sigma>" and fair: "fair turn" and k: "k < length (b_requests (\<sigma> i))"
  shows "\<exists>j\<ge>i. turn j \<and> length (filter turn [i..<j]) = k \<and>
    (\<exists>rest. b_requests (\<sigma> j) = b_requests (\<sigma> i) ! k # rest \<and> b_requests (\<sigma> (Suc j)) = rest)"
  using k
proof (induction k arbitrary: i)
  case 0
  obtain j where j: "i \<le> j" "turn j" "\<forall>l. i \<le> l \<and> l < j \<longrightarrow> \<not> turn l" using next_turn [OF fair] .
  obtain arrived where "b_requests (\<sigma> j) = b_requests (\<sigma> i) @ arrived" using queue_until_turn [OF run j(3,1)] by blast
  moreover have "worker_step env n (\<sigma> j) (\<sigma> (Suc j))" using run j(2) by (auto simp: broker_run_def dest!: spec [of _ j])
  ultimately show ?case
    using 0 j no_turns [OF j(3)] worker_step_queue(1) by (intro exI [of _ j]) (cases "b_requests (\<sigma> i)", auto)
next
  case (Suc k)
  obtain j0 where j0: "i \<le> j0" "turn j0" "\<forall>l. i \<le> l \<and> l < j0 \<longrightarrow> \<not> turn l" using next_turn [OF fair] .
  obtain arrived where "b_requests (\<sigma> j0) = b_requests (\<sigma> i) @ arrived" using queue_until_turn [OF run j0(3,1)] by blast
  moreover have "worker_step env n (\<sigma> j0) (\<sigma> (Suc j0))" using run j0(2) by (auto simp: broker_run_def dest!: spec [of _ j0])
  ultimately have after: "b_requests (\<sigma> (Suc j0)) = tl (b_requests (\<sigma> i)) @ arrived"
    using Suc.prems worker_step_queue(1) by (cases "b_requests (\<sigma> i)") auto
  then have nth: "b_requests (\<sigma> (Suc j0)) ! k = b_requests (\<sigma> i) ! Suc k" and "k < length (b_requests (\<sigma> (Suc j0)))"
    using Suc.prems by (auto simp: nth_append nth_tl)
  from Suc.IH [OF this(2)] obtain j where j: "Suc j0 \<le> j" "turn j" "length (filter turn [Suc j0..<j]) = k"
      "\<exists>rest. b_requests (\<sigma> j) = b_requests (\<sigma> (Suc j0)) ! k # rest \<and> b_requests (\<sigma> (Suc j)) = rest" by blast
  have "[i..<j] = [i..<j0] @ j0 # [Suc j0..<j]"
    using upt_add_eq_append [OF j0(1), of "j - j0"] upt_conv_Cons [of j0 j] j(1) by simp
  then have "length (filter turn [i..<j]) = Suc k" using no_turns [OF j0(3)] j0(2) j(3) by simp
  with j j0(1) nth show ?case by (intro exI [of _ j]) auto
qed

text \<open>The demonstration broker with a DISCONNECT in its queue, and the run of its worker.\<close>

definition demo_disconnect :: "nat \<Rightarrow> Broker" where
  "demo_disconnect i = (if i = 0 then demo_broker\<lparr>b_requests := [(1, \<lparr>pkt_type = Disconnect, pkt_body = EmptyBody\<rparr>)]\<rparr>
     else upd_ctx 1 (\<lambda>ctx. ctx\<lparr>cc_clean_disconnect := True, cc_connected := False\<rparr>) demo_broker)"

lemma demo_disconnect_run: "broker_run demo_env 1 (\<lambda>_. True) demo_disconnect"
proof -
  have started: "b_started demo_broker" "b_requests demo_broker = []" by (simp_all add: demo_broker_def broker_init_def)
  have "dispatch (registerHandlers Map.empty) demo_env f 1 \<lparr>pkt_type = Disconnect, pkt_body = EmptyBody\<rparr> =
      modP (upd_ctx 1 (\<lambda>ctx. ctx\<lparr>cc_clean_disconnect := True, cc_connected := False\<rparr>))" for f
    by (simp add: dispatch_def registerHandlers_def registerHandler_def DisconnectHandler_def)
  moreover have "upd_ctx 1 f (demo_broker\<lparr>b_requests := []\<rparr>) = upd_ctx 1 f demo_broker" for f
    using started(2) by (simp add: upd_ctx_def)
  ultimately show ?thesis
    using started
    by (simp add: broker_run_def worker_step_def handleRequest_def demo_disconnect_def catchP_apply del: One_nat_def)
qed

theorem request_eventually_handled_witness:
  "\<exists>j. b_requests (demo_disconnect j) = [(1, \<lparr>pkt_type = Disconnect, pkt_body = EmptyBody\<rparr>)] \<and> b_requests (demo_disconnect (Suc j)) = []"
proof -
  have "fair (\<lambda>_. True)" by (auto simp: fair_def)
  moreover have "0 < length (b_requests (demo_disconnect 0))" by (simp add: demo_disconnect_def)
  ultimately obtain j rest where "length (filter (\<lambda>_. True) [0..<j]) = 0"
      "b_requests (demo_disconnect j) = b_requests (demo_disconnect 0) ! 0 # rest" "b_requests (demo_disconnect (Suc j)) = rest"
    using request_eventually_handled [OF demo_disconnect_run] by blast
  then show ?thesis by (intro exI [of _ j]) (simp add: demo_disconnect_def demo_broker_def broker_init_def)
qed

text \<open>
  The worker's loop: on a started engine, \<open>k\<close> turns that return take the first \<open>k\<close> requests, and
  keep the invariant.
\<close>

lemma worker_takes_requests:
  assumes "handlePacket k (registerHandlers Map.empty) env (onClose (Suc n) env) b = Ok () b'"
    and "broker_inv b" "hooks_keep_topic (env_hooks env)" "b_started b"
  shows "b_requests b' = drop k (b_requests b) \<and> b_started b' \<and> broker_inv b'"
  using assms(1,2,4)
proof (induction k arbitrary: b)
  case (Suc k)
  then obtain b1 where b1: "handleRequest (registerHandlers Map.empty) env (onClose (Suc n) env) b = Ok () b1"
      "handlePacket k (registerHandlers Map.empty) env (onClose (Suc n) env) b1 = Ok () b'"
    by (auto simp: seqP_apply simp del: onClose.simps split: res.splits)
  then have "worker_step env (Suc n) b b1" by (simp add: worker_step_def)
  note queue = worker_step_queue [OF this]
  show ?case
    using Suc.IH [OF b1(2) wlp_OkD [OF engine.handleRequest_inv [OF Suc.prems(2) assms(3)] b1(1)]] queue Suc.prems(3)
    by (simp add: drop_Suc)
qed simp

section \<open>Accepting connections\<close>

text \<open>
  An accept error on a started engine ends the accepting of connections: the handler calls
  \<open>start\<close>, which returns at once, and no channel waits in \<open>async_accept\<close> any more.
\<close>

lemma accept_error_stops_listening: "b_started b \<Longrightarrow> on_accept env True endpoint c b = Ok () b"
  by (simp add: on_accept_def engine_start_def catchP_apply)

end
