(* ===== verification/Reading.thy ===== *)
theory Reading
  imports Liveness
begin

text \<open>
  The read loop of a channel, \<open>src/net/Channel.cpp\<close>: the framing of the byte stream, the decoder
  and the queue of the worker put together. A frame is cut, decoded and handed on, the buffer
  is cleared and the next head is read, until the channel closes or no more bytes have come.
\<close>

section \<open>The loop\<close>

lemma asyncRemainingLen_consumes: "asyncRemainingLen stopped offset buf evs = Frame buf' evs' \<Longrightarrow> length evs' < length evs"
proof (induction stopped offset buf evs rule: asyncRemainingLen.induct)
  case (1 stopped offset buf evs)
  then show ?case
    by (subst (asm) (2) asyncRemainingLen.simps)
       (fastforce simp: asyncReadPayload_def Let_def split: if_splits option.splits dest: transport_asyncReadSome_consumes)
qed

lemma asyncReadHead_consumes: "asyncReadHead stopped buf evs = Frame buf' evs' \<Longrightarrow> length evs' < length evs"
  by (auto simp: asyncReadHead_def split: if_splits option.splits
      dest!: transport_asyncReadSome_consumes asyncRemainingLen_consumes)

text \<open>
  The guard against packets above 256 MiB never fires: a remaining length is below that. So the
  only reason for which the framing closes a channel is an error of the socket.
\<close>

lemma asyncRemainingLen_closed: "asyncRemainingLen stopped offset buf evs = Closed reason \<Longrightarrow> reason = ''peer closed connection''"
proof (induction stopped offset buf evs rule: asyncRemainingLen.induct)
  case (1 stopped offset buf evs)
  have "\<not> to_int32 (int (fst (decodeRemainingLength buf 1))) > DEFAULT_PACKET_MAX_SIZE"
    using decodeRemainingLength_bound [of buf 1] by (simp add: to_int32_small DEFAULT_PACKET_MAX_SIZE_def)
  then show ?case
    using 1 by (subst (asm) (2) asyncRemainingLen.simps)
      (fastforce simp: asyncReadPayload_def Let_def split: if_splits option.splits)
qed

lemma size_guard_never_fires: "asyncReadHead stopped buf evs = Closed reason \<Longrightarrow> reason = ''peer closed connection''"
  by (auto simp: asyncReadHead_def split: if_splits option.splits dest: asyncRemainingLen_closed)

text \<open>
  The events are the completed reads of the channel's socket; the result is those that are left
  when the loop has stopped, none after an error of the socket. A channel or transport that is
  closing starts no read.
\<close>

function read_loop :: "Env \<Rightarrow> close_callback \<Rightarrow> chan_ref \<Rightarrow> ReadEvent list \<Rightarrow> Broker \<Rightarrow> (ReadEvent list, Broker) res" where
  "read_loop env on_close c evs b =
     (case b_chans b c of
        None \<Rightarrow> Ok evs b
      | Some ch \<Rightarrow>
          if ch_closing ch then Ok evs b
          else
            case asyncReadHead (tr_closing (ch_transport ch)) (ch_buffer ch) evs of
              Waiting \<Rightarrow> Ok (if tr_closing (ch_transport ch) then evs else []) b
            | Closed reason \<Rightarrow> seqP (requestClose on_close c reason) (returnP []) b
            | Frame buf evs' \<Rightarrow>
                (case receive_frame env on_close c (upd_chan c (\<lambda>ch. ch\<lparr>ch_buffer := buf\<rparr>) b) of
                   Ok _ b' \<Rightarrow> read_loop env on_close c evs' b'
                 | Exn e b' \<Rightarrow> Exn e b'
                 | Undef \<Rightarrow> Undef))"
  by pat_completeness auto
termination
  by (relation "measure (\<lambda>(env, on_close, c, evs, b). length evs)") (auto dest: asyncReadHead_consumes)

declare read_loop.simps [simp del]

text \<open>What the loop does with the first packet of a stream.\<close>

lemma read_loop_frame:
  assumes "b_chans b c = Some ch" "\<not> ch_closing ch" "\<not> tr_closing (ch_transport ch)"
    and "asyncReadHead False (ch_buffer ch) evs = Frame buf evs'"
  shows "read_loop env on_close c evs b =
    (case receive_frame env on_close c (upd_chan c (\<lambda>ch. ch\<lparr>ch_buffer := buf\<rparr>) b) of
       Ok _ b' \<Rightarrow> read_loop env on_close c evs' b' | Exn e b' \<Rightarrow> Exn e b' | Undef \<Rightarrow> Undef)"
  using assms by (subst read_loop.simps) simp

text \<open>The loop makes steps of the broker, so what holds of reachable states holds after it.\<close>

lemma read_loop_reachable:
  assumes "reachable env n b" "read_loop env (onClose n env) c evs b = Ok r b'"
  shows "reachable env n b'"
  using assms
proof (induction "length evs" arbitrary: evs b rule: less_induct)
  case less
  have step: "reachable env n b2" if "reachable env n b1" "io_step env n b1 b2" for b1 b2
    using reachable_step [OF that(1)] that(2) by (simp add: engine_step_def)
  show ?case
  proof (cases "\<exists>ch buf evs'. b_chans b c = Some ch \<and> \<not> ch_closing ch \<and> \<not> tr_closing (ch_transport ch) \<and>
      asyncReadHead False (ch_buffer ch) evs = Frame buf evs'")
    case True
    then obtain ch buf evs' where f: "b_chans b c = Some ch" "\<not> ch_closing ch" "\<not> tr_closing (ch_transport ch)"
      "asyncReadHead False (ch_buffer ch) evs = Frame buf evs'" by blast
    let ?b = "upd_chan c (\<lambda>ch. ch\<lparr>ch_buffer := buf\<rparr>) b"
    obtain b1 where b1: "receive_frame env (onClose n env) c ?b = Ok () b1" "read_loop env (onClose n env) c evs' b1 = Ok r b'"
      using less.prems(2) by (auto simp: read_loop_frame [OF f] split: res.splits)
    have "reachable env n b1"
      using step [OF step [OF less.prems(1) step_read [OF HOL.refl]] step_frame [OF b1(1)]] .
    then show ?thesis using less.hyps asyncReadHead_consumes [OF f(4)] b1(2) by blast
  next
    case False
    then have "b' = b \<or> (\<exists>reason. requestClose (onClose n env) c reason b = Ok () b' \<and> reason = ''peer closed connection'')"
      using less.prems(2)
      by (subst (asm) read_loop.simps) (auto simp: seqP_apply split: option.splits if_splits ReadResult.splits res.splits
        dest: size_guard_never_fires)
    then show ?thesis using less.prems(1) step step_peer_close by blast
  qed
qed

text \<open>It ends with a result, or in a frame that makes the decoder read past the buffer.\<close>

lemma read_loop_returns:
  assumes "broker_inv b"
  shows "read_loop env (onClose (Suc n) env) c evs b = Undef \<or> (\<exists>r b'. read_loop env (onClose (Suc n) env) c evs b = Ok r b')"
  using assms
proof (induction "length evs" arbitrary: evs b rule: less_induct)
  case less
  have "\<exists>b'. requestClose (onClose (Suc n) env) c reason b = Ok () b'" for reason
    using wp_Ok_unit [OF engine.requestClose_inv [OF less.prems]] by blast
  then obtain after where close: "\<And>reason. requestClose (onClose (Suc n) env) c reason b = Ok () (after reason)" by metis
  show ?case
  proof (cases "\<exists>ch buf evs'. b_chans b c = Some ch \<and> \<not> ch_closing ch \<and> \<not> tr_closing (ch_transport ch) \<and>
      asyncReadHead False (ch_buffer ch) evs = Frame buf evs'")
    case True
    then obtain ch buf evs' where f: "b_chans b c = Some ch" "\<not> ch_closing ch" "\<not> tr_closing (ch_transport ch)"
      "asyncReadHead False (ch_buffer ch) evs = Frame buf evs'" by blast
    let ?b = "upd_chan c (\<lambda>ch. ch\<lparr>ch_buffer := buf\<rparr>) b"
    have b: "broker_inv ?b" "b_chans ?b c = Some (ch\<lparr>ch_buffer := buf\<rparr>)" using less.prems f(1) by simp_all
    show ?thesis
    proof (cases "decode (env_MaxPacketSize env) buf = UB")
      case True
      then have "receive_frame env (onClose (Suc n) env) c ?b = Undef"
        using receive_frame_outcomes [OF b, of env n] by (simp del: onClose.simps)
      then show ?thesis by (simp add: read_loop_frame [OF f] del: onClose.simps)
    next
      case False
      then have "decode (env_MaxPacketSize env) (ch_buffer (ch\<lparr>ch_buffer := buf\<rparr>)) \<noteq> UB" by simp
      then obtain b1 where "receive_frame env (onClose (Suc n) env) c ?b = Ok () b1" "broker_inv b1"
        using wp_Ok_unit [OF engine.receive_frame_inv [OF b]] by blast
      then show ?thesis
        using less.hyps [OF asyncReadHead_consumes [OF f(4)]] by (simp add: read_loop_frame [OF f] del: onClose.simps)
    qed
  next
    case False
    then show ?thesis
      by (subst (1 2) read_loop.simps)
         (auto simp: seqP_apply close simp del: onClose.simps split: option.splits ReadResult.splits)
  qed
qed

section \<open>Streams of packets\<close>

text \<open>
  The reads that bring one packet, in any pieces the socket may cut it into: the first two
  bytes, the rest of the remaining length byte by byte, and the body. A read of nothing
  completes with no bytes.
\<close>

definition packet_reads :: "byte \<times> buffer \<Rightarrow> ReadEvent list \<Rightarrow> bool" where
  "packet_reads p evs \<longleftrightarrow> (case p of (h, body) \<Rightarrow>
     \<exists>evs1 evs3. evs = evs1 @ map (\<lambda>v. ReadBytes [v]) (tl (varint (length body))) @ evs3 \<and>
       delivers [h, hd (varint (length body))] evs1 \<and> (if body = [] then evs3 = [ReadBytes []] else delivers body evs3))"

inductive stream_reads :: "(byte \<times> buffer) list \<Rightarrow> ReadEvent list \<Rightarrow> bool" where
  no_packet: "stream_reads [] []"
| next_packet: "packet_reads p evs \<Longrightarrow> stream_reads ps evs' \<Longrightarrow> stream_reads (p # ps) (evs @ evs')"

inductive_cases stream_readsE: "stream_reads (p # ps) evs" "stream_reads [] evs"

text \<open>
  The packets that the decoder makes of a stream, each from its own bytes; a type without a
  decoder gives none, and \<open>None\<close> says that some packet is malformed. The first packet of a
  connection is followed by what the buffer holds beyond it.
\<close>

definition frame_bytes :: "byte \<times> buffer \<Rightarrow> buffer \<Rightarrow> buffer" where
  "frame_bytes p buf = (case p of (h, body) \<Rightarrow> mqtt_packet h body @ drop (length (mqtt_packet h body)) buf)"

fun stream_packets :: "u32 \<Rightarrow> buffer \<Rightarrow> (byte \<times> buffer) list \<Rightarrow> Packet list option" where
  "stream_packets M buf [] = Some []"
| "stream_packets M buf (p # ps) =
     (case decode M (frame_bytes p buf) of
        Ret pack \<Rightarrow> map_option (\<lambda>pkts. case pack of None \<Rightarrow> pkts | Some pkt \<Rightarrow> pkt # pkts) (stream_packets M [] ps)
      | _ \<Rightarrow> None)"

lemma asyncReadHead_packet:
  assumes "packet_reads p evs" "length (snd p) < 2 ^ 28"
  shows "asyncReadHead False buf (evs @ rest) = Frame (frame_bytes p buf) rest"
proof -
  obtain h body where p: "p = (h, body)" by (cases p)
  then show ?thesis
    using assms channel_framing [OF _ _ HOL.refl] by (fastforce simp: packet_reads_def frame_bytes_def)
qed

text \<open>A decoded packet is queued; a DISCONNECT also marks the context at once.\<close>

definition queued :: "chan_ref \<Rightarrow> ctx_ref \<Rightarrow> Packet \<Rightarrow> Broker \<Rightarrow> Broker" where
  "queued c x pkt b =
     (let b' = (upd_chan c (\<lambda>ch. ch\<lparr>ch_last_read := b_now b, ch_buffer := []\<rparr>) b)\<lparr>b_requests := b_requests b @ [(x, pkt)]\<rparr>
      in if pkt_type pkt = Disconnect then upd_ctx x (\<lambda>ctx. ctx\<lparr>cc_clean_disconnect := True\<rparr>) b' else b')"

lemma queued_simps [simp]:
  "b_requests (queued c x pkt b) = b_requests b @ [(x, pkt)]" "b_by_channel (queued c x pkt b) = b_by_channel b"
  "b_now (queued c x pkt b) = b_now b"
  "b_chans b c = Some ch \<Longrightarrow> b_chans (queued c x pkt b) c = Some (ch\<lparr>ch_last_read := b_now b, ch_buffer := []\<rparr>)"
  by (simp_all add: queued_def Let_def)

lemma receive_frame_queues:
  assumes "b_chans b c = Some ch" "decode (env_MaxPacketSize env) (ch_buffer ch) = Ret (Some pkt)" "byChannel c b = Some x"
  shows "receive_frame env on_close c b = Ok () (queued c x pkt b)"
  using assms
  by (simp add: receive_frame_def prog_simps liftP_def channel_on_packet_def byChannel_def onPacket_def whenP_def upd_chan_def
      upd_ctx_def queued_def Let_def)

lemma queued_buffer: "queued c x pkt (upd_chan c (\<lambda>ch. ch\<lparr>ch_buffer := buf\<rparr>) b) = queued c x pkt b"
  by (cases "b_chans b c") (simp_all add: queued_def Let_def upd_chan_def upd_ctx_def)

lemma receive_frame_other:
  assumes "b_chans b c = Some ch"
  shows "decode (env_MaxPacketSize env) (ch_buffer ch) = Ret None \<Longrightarrow>
      receive_frame env on_close c b = Ok () (upd_chan c (\<lambda>ch. ch\<lparr>ch_buffer := []\<rparr>) b)"
    and "decode (env_MaxPacketSize env) (ch_buffer ch) = Throw e \<Longrightarrow> receive_frame env on_close c b = requestClose on_close c e b"
  using assms by (simp_all add: receive_frame_def prog_simps liftP_def)

text \<open>A channel that reads for a registered client.\<close>

definition reading :: "chan_ref \<Rightarrow> ctx_ref \<Rightarrow> buffer \<Rightarrow> Broker \<Rightarrow> bool" where
  "reading c x buf b \<longleftrightarrow> broker_inv b \<and> byChannel c b = Some x \<and>
     (\<exists>ch. b_chans b c = Some ch \<and> \<not> ch_closing ch \<and> \<not> tr_closing (ch_transport ch) \<and> ch_buffer ch = buf)"

lemma read_loop_packet:
  assumes r: "reading c x buf b" and p: "packet_reads p evs" "length (snd p) < 2 ^ 28"
    and dec: "decode (env_MaxPacketSize env) (frame_bytes p buf) = Ret pack"
  shows "\<exists>b'. read_loop env (onClose (Suc n) env) c (evs @ rest) b = read_loop env (onClose (Suc n) env) c rest b' \<and>
    reading c x [] b' \<and> b_requests b' = b_requests b @ (case pack of None \<Rightarrow> [] | Some pkt \<Rightarrow> [(x, pkt)]) \<and>
    (\<forall>pkt. pack = Some pkt \<longrightarrow> b' = queued c x pkt b)"
proof -
  obtain ch where ch: "b_chans b c = Some ch" "\<not> ch_closing ch" "\<not> tr_closing (ch_transport ch)" "ch_buffer ch = buf"
    and x: "byChannel c b = Some x" and inv: "broker_inv b"
    using r by (auto simp: reading_def)
  let ?b = "upd_chan c (\<lambda>ch. ch\<lparr>ch_buffer := frame_bytes p buf\<rparr>) b"
  have chan: "b_chans ?b c = Some (ch\<lparr>ch_buffer := frame_bytes p buf\<rparr>)" "byChannel c ?b = Some x" "broker_inv ?b"
    using ch(1) x inv by (simp_all add: byChannel_def)
  define b' where "b' = (case pack of None \<Rightarrow> upd_chan c (\<lambda>ch. ch\<lparr>ch_buffer := []\<rparr>) ?b | Some pkt \<Rightarrow> queued c x pkt ?b)"
  have recv: "receive_frame env (onClose (Suc n) env) c ?b = Ok () b'"
    using receive_frame_queues [OF chan(1) _ chan(2), of env] receive_frame_other(1) [OF chan(1), of env] dec
    by (cases pack) (simp_all add: b'_def del: onClose.simps)
  have "broker_inv b'"
    using wp_OkD [OF engine.receive_frame_inv [OF chan(3,1)] recv] dec by simp
  then have "reading c x [] b'"
    using ch x chan by (auto simp: reading_def b'_def byChannel_def split: option.split)
  moreover have "b_requests b' = b_requests b @ (case pack of None \<Rightarrow> [] | Some pkt \<Rightarrow> [(x, pkt)])"
    by (simp add: b'_def split: option.split)
  moreover have "asyncReadHead False (ch_buffer ch) (evs @ rest) = Frame (frame_bytes p buf) rest"
    using asyncReadHead_packet [OF p] ch(4) by simp
  note read_loop_frame [OF ch(1-3) this, of env "onClose (Suc n) env"]
  ultimately show ?thesis using recv by (intro exI [of _ b']) (auto simp: b'_def queued_buffer simp del: onClose.simps)
qed

lemma read_loop_end:
  assumes "reading c x buf b"
  shows "read_loop env on_close c [] b = Ok [] b"
  using assms by (subst read_loop.simps) (auto simp: reading_def asyncReadHead_def split: option.split)

text \<open>The loop over a stream of packets, and what it goes on with.\<close>

lemma read_loop_stream:
  assumes "stream_reads ps evs" "reading c x buf b" "\<forall>p \<in> set ps. length (snd p) < 2 ^ 28"
    and "stream_packets (env_MaxPacketSize env) buf ps = Some pkts"
  shows "\<exists>b'. read_loop env (onClose (Suc n) env) c (evs @ rest) b = read_loop env (onClose (Suc n) env) c rest b' \<and>
    reading c x (if ps = [] then buf else []) b' \<and> b_requests b' = b_requests b @ map (Pair x) pkts"
  using assms
proof (induction arbitrary: b buf pkts rule: stream_reads.induct)
  case (next_packet p evs ps evs')
  obtain pack pkts' where d: "decode (env_MaxPacketSize env) (frame_bytes p buf) = Ret pack"
      "stream_packets (env_MaxPacketSize env) [] ps = Some pkts'" "pkts = (case pack of None \<Rightarrow> pkts' | Some pkt \<Rightarrow> pkt # pkts')"
    using next_packet.prems(3) by (auto split: outcome.splits)
  obtain b1 where b1: "read_loop env (onClose (Suc n) env) c (evs @ evs' @ rest) b = read_loop env (onClose (Suc n) env) c (evs' @ rest) b1"
      "reading c x [] b1" "b_requests b1 = b_requests b @ (case pack of None \<Rightarrow> [] | Some pkt \<Rightarrow> [(x, pkt)])"
    using read_loop_packet [OF next_packet.prems(1) next_packet.hyps(1) _ d(1)] next_packet.prems(2) by fastforce
  then show ?case
    using next_packet.IH [OF b1(2) _ d(2)] next_packet.prems(2) d(3) by (auto simp del: onClose.simps split: option.splits)
qed auto

text \<open>
  C9. The read loop queues what the peer sends. Whatever pieces the socket cuts a stream of
  packets into, from a channel that is open and registered the worker's queue is extended by
  the packets of the stream, decoded, complete, in their order and with the context of the
  channel; nothing else is queued, and the channel stays open and waits for the next packet.
\<close>

theorem stream_queued:
  assumes "reading c x buf b" "stream_reads ps evs" "\<forall>p \<in> set ps. length (snd p) < 2 ^ 28"
    and "stream_packets (env_MaxPacketSize env) buf ps = Some pkts"
  shows "\<exists>b'. read_loop env (onClose (Suc n) env) c evs b = Ok [] b' \<and> broker_inv b' \<and>
    b_requests b' = b_requests b @ map (Pair x) pkts \<and> reading c x (if ps = [] then buf else []) b'"
proof -
  obtain b' where b': "read_loop env (onClose (Suc n) env) c (evs @ []) b = read_loop env (onClose (Suc n) env) c [] b'"
      "reading c x (if ps = [] then buf else []) b'" "b_requests b' = b_requests b @ map (Pair x) pkts"
    using read_loop_stream [OF assms(2,1,3,4)] by blast
  have "read_loop env (onClose (Suc n) env) c [] b' = Ok [] b'"
    using b'(2) by (rule read_loop_end)
  then show ?thesis using b' by (auto simp: reading_def simp del: onClose.simps)
qed

text \<open>The demonstration broker and two PINGREQ packets, the first cut into single bytes.\<close>

definition pingreq :: Packet where
  "pingreq = \<lparr>pkt_type = Pingreq, pkt_body = EmptyBody\<rparr>"

lemma demo_reading: "reading 0 1 (replicate 64 0) demo_broker"
  using demo_inv by (auto simp: reading_def byChannel_def demo_broker_def channel_new_def transport_new_def)

lemma demo_packet_reads:
  "packet_reads (h, []) [ReadBytes [h], ReadBytes [0], ReadBytes []]" "packet_reads (h, []) [ReadBytes [h, 0], ReadBytes []]"
  by (force simp: packet_reads_def delivers_def varint.simps intro: exI [of _ "[[h], [0]]"] exI [of _ "[[h, 0]]"])+

lemma demo_stream: "stream_reads [(0xC0, []), (0xC0, [])]
    ([ReadBytes [0xC0], ReadBytes [0], ReadBytes []] @ [ReadBytes [0xC0, 0], ReadBytes []] @ [])"
  by (intro stream_reads.intros demo_packet_reads)

lemma demo_stream_packets:
  "stream_packets (env_MaxPacketSize demo_env) (replicate 64 0) [(0xC0, []), (0xC0, [])] = Some [pingreq, pingreq]"
  by (simp add: demo_env_def) code_simp

theorem stream_queued_witness:
  "\<exists>b'. read_loop demo_env (onClose (Suc 0) demo_env) 0
     [ReadBytes [0xC0], ReadBytes [0], ReadBytes [], ReadBytes [0xC0, 0], ReadBytes []] demo_broker = Ok [] b' \<and>
     b_requests b' = [(1, pingreq), (1, pingreq)]"
  using stream_queued [OF demo_reading demo_stream _ demo_stream_packets, of 0]
  by (auto simp: demo_broker_def broker_init_def simp del: onClose.simps)

text \<open>
  C20. A malformed packet ends the connection where it stands. The packets before it are queued
  as if it were not there, the channel is closed with the decoder's message, and the reads that
  follow are not looked at.
\<close>

theorem malformed_packet_closes:
  assumes "reading c x buf b" "stream_reads ps evs" "\<forall>p \<in> set ps. length (snd p) < 2 ^ 28"
    and "stream_packets (env_MaxPacketSize env) buf ps = Some pkts"
    and bad: "packet_reads p evs'" "length (snd p) < 2 ^ 28"
      "decode (env_MaxPacketSize env) (frame_bytes p (if ps = [] then buf else [])) = Throw e"
  shows "\<exists>b'. read_loop env (onClose (Suc n) env) c (evs @ evs' @ rest) b = Ok rest b' \<and> broker_inv b' \<and>
    b_requests b' = b_requests b @ map (Pair x) pkts \<and> isClosing c b'"
proof -
  let ?buf = "if ps = [] then buf else []"
  obtain b1 where b1: "read_loop env (onClose (Suc n) env) c (evs @ evs' @ rest) b = read_loop env (onClose (Suc n) env) c (evs' @ rest) b1"
      "reading c x ?buf b1" "b_requests b1 = b_requests b @ map (Pair x) pkts"
    using read_loop_stream [OF assms(2,1,3,4)] by blast
  obtain ch where ch: "b_chans b1 c = Some ch" "\<not> ch_closing ch" "\<not> tr_closing (ch_transport ch)" "ch_buffer ch = ?buf" and inv: "broker_inv b1"
    using b1(2) by (auto simp: reading_def)
  let ?b = "upd_chan c (\<lambda>ch. ch\<lparr>ch_buffer := frame_bytes p ?buf\<rparr>) b1"
  have chan: "b_chans ?b c = Some (ch\<lparr>ch_buffer := frame_bytes p ?buf\<rparr>)" "broker_inv ?b" using ch(1) inv by simp_all
  have recv: "receive_frame env (onClose (Suc n) env) c ?b = requestClose (onClose (Suc n) env) c e ?b"
    using receive_frame_other(2) [OF chan(1)] bad(3) by (simp del: onClose.simps)
  obtain b2 where b2: "requestClose (onClose (Suc n) env) c e ?b = Ok () b2" "broker_inv b2" "isClosing c b2"
    using wp_Ok_unit [OF requestClose_closes [OF chan(2)]] by blast
  have "b_requests b2 = b_requests ?b"
    using keepsD(1) [OF queue.requestClose_keeps b2(1)] by (simp add: queue_state_def)
  moreover have "read_loop env (onClose (Suc n) env) c rest b2 = Ok rest b2"
    using b2(3) by (subst read_loop.simps) (auto simp: isClosing_def split: option.splits)
  moreover have "asyncReadHead False (ch_buffer ch) (evs' @ rest) = Frame (frame_bytes p ?buf) rest"
    using asyncReadHead_packet [OF bad(1,2)] ch(4) by simp
  note read_loop_frame [OF ch(1-3) this, of env "onClose (Suc n) env"]
  ultimately show ?thesis using b1(1,3) b2 recv by (intro exI [of _ b2]) (simp del: onClose.simps)
qed

theorem malformed_packet_closes_witness:
  "\<exists>b'. read_loop demo_env (onClose (Suc 0) demo_env) 0
     [ReadBytes [0xC0], ReadBytes [0], ReadBytes [], ReadBytes [0xC0, 0], ReadBytes [], ReadBytes [0xC1, 0], ReadBytes [], ReadBytes [0xC0]]
     demo_broker = Ok [ReadBytes [0xC0]] b' \<and>
     b_requests b' = [(1, pingreq), (1, pingreq)] \<and> isClosing 0 b'"
proof -
  have "decode (env_MaxPacketSize demo_env) (frame_bytes (0xC1, []) []) = Throw ''Empty packet flags error''"
    by (simp add: demo_env_def) code_simp
  then show ?thesis
    using malformed_packet_closes [OF demo_reading demo_stream _ demo_stream_packets demo_packet_reads(2) [of "0xC1"], of _ 0 "[ReadBytes [0xC0]]"]
    by (auto simp: demo_broker_def broker_init_def simp del: onClose.simps)
qed

end
