(* ===== verification/EndToEnd.thy ===== *)
theory EndToEnd
  imports Refinement Reading
begin

text \<open>
  A message from the bytes a publisher sends to the bytes a subscriber is sent: the decoder, the
  queue, the worker, the handler, the topic tree, the router, delivery, the encoder and the
  transport in one statement.
\<close>

section \<open>The stages\<close>

lemma publish_accept_routes:
  fixes b0 :: Broker
  assumes inv: "broker_inv b" and small: "small_msg msg" and topic: "m_topic msg = pub_topic pub"
    and hooks: "hooks_onMessageIn (env_hooks env) (b_events b) pub (cc_client_id (b_ctxs b x)) = Ret (True, pub)"
    and pub: "pub_qos pub \<noteq> ExactlyOnce" "\<not> (pub_retain pub \<and> pub_payload pub = [])"
    and b0: "b0 = b\<lparr>b_events := b_events b @ [MessageIn pub (cc_client_id (b_ctxs b x))]\<rparr>"
  shows "\<exists>st. publish_accept env on_close x pub msg b =
    Ok () (let b1 = (routed msg (best_maps b0 msg) (env_order env (map fst (fst (best_maps b0 msg)))) b0)\<lparr>b_retains := st\<rparr>
           in if pub_qos pub = AtLeastOnce then reply x (ack_packet Puback (pub_packet_id pub)) b1 else b1)"
proof -
  have inv0: "broker_inv b0" using inv by (simp add: b0)
  obtain st where st: "retain_store (b_retains b0) (pub_topic pub) msg = Ret st"
    using retain_update_returns(1) [OF inv0 topic] by blast
  have same: "(routed msg maps xs b0)\<lparr>b_retains := b_retains b0\<rparr> = routed msg maps xs b0" for maps xs
    by (metis routed_retains Broker.surjective Broker.update_convs(2))
  have start: "publish_accept env on_close x pub msg b = publish_filtered env on_close x msg True pub b0"
    using hooks by (simp add: publish_accept_def bindP_apply seqP_apply liftP_def b0)
  show ?thesis
    unfolding start using pub st
    by (cases "pub_retain pub"; intro exI [of _ "if pub_retain pub then st else b_retains b0"])
       (auto simp: publish_filtered_def publish_ack_def Let_def seqP_apply bindP_apply liftP_def route_eq [OF small] routed_retains
          connAck_eq same)
qed

text \<open>Nothing but the routing reaches another client's connection.\<close>

lemma endpoint_reply:
  assumes "\<And>c. cc_channel (b_ctxs b x) = Some c \<Longrightarrow> x = Suc c" "y = Suc d" "y \<noteq> x"
  shows "endpoint_of y d (reply x p b) = endpoint_of y d b"
proof -
  have "c \<noteq> d" if "open_channel x b = Some c" for c
    using assms(1) [of c] that assms(2,3)
    by (auto simp: open_channel_def lock_channel_def split: option.splits if_splits)
  then show ?thesis by (auto simp: endpoint_of_def reply_def send_bytes_other split: option.split)
qed

lemma interests_cong:
  "b_sessions b' = b_sessions b \<Longrightarrow> b_sess b' = b_sess b \<Longrightarrow> interests b' msg cid = interests b msg cid"
  by (simp add: interests_def)

text \<open>What a subscriber is sent, and what it decodes to.\<close>

lemma min_qos_interests: "q \<in> interests b msg cid \<Longrightarrow> min_qos q (m_qos msg) = q"
  by (auto simp: interests_def min_qos_def)

lemma encode_source: "encode (publish_packet (pub\<lparr>pub_source_client := cid\<rparr>)) buf = encode (publish_packet pub) buf"
  by (simp add: publish_packet_def encode_def serializePacket_def encoders_def serializePublish_def calcPublishRemainingLength_def Let_def)

lemma delivered_wire:
  assumes msg: "is_valid_utf8 (m_topic msg)" "length (m_topic msg) < 65536" "length (m_topic msg) + length (m_payload msg) + 9 \<le> unat M"
      "length (m_topic msg) + length (m_payload msg) + 4 < 2 ^ 28"
    and q: "min_qos q (m_qos msg) = q" and d: "b_chans b d = Some ch"
  shows "\<exists>bytes pub. b_chans (delivered y d msg q False False b) d = Some (ch\<lparr>ch_transport := transport_asyncSend bytes (ch_transport ch)\<rparr>) \<and>
    decode M bytes = Ret (Some \<lparr>pkt_type = Publish, pkt_body = PublishBody pub\<rparr>) \<and>
    pub_topic pub = m_topic msg \<and> pub_payload pub = m_payload msg \<and> pub_qos pub = q \<and> \<not> pub_retain pub \<and> \<not> pub_dup pub"
proof -
  define pid where "pid = (if q = AtMostOnce then 0 else fst (nextPacketId (b_ctxs b y)))"
  define pub where "pub = \<lparr>pub_topic = m_topic msg, pub_payload = m_payload msg, pub_qos = q, pub_retain = False, pub_dup = False,
    pub_packet_id = pid, pub_source_client = []\<rparr>"
  have "publish_ok pub" using msg nextPacketId_pos [of "b_ctxs b y"] by (simp add: publish_ok_def pub_def pid_def)
  moreover have "length (publish_body pub) + 5 \<le> unat M" using msg(3) by (simp add: publish_body_def pub_def)
  ultimately obtain bytes where bytes: "encode (publish_packet pub) [] = Ret (True, bytes)"
      "decode M bytes = Ret (Some \<lparr>pkt_type = Publish, pkt_body = PublishBody pub\<rparr>)"
    using publish_wire [of pub M] by (auto simp: publish_packet_def)
  have "delivery_packet msg q False False pid = publish_packet (pub\<lparr>pub_source_client := m_source_client msg\<rparr>)"
    by (simp add: delivery_packet_def pub_def)
  then have "encode (delivery_packet msg q False False pid) [] = Ret (True, bytes)" using bytes(1) encode_source by simp
  then have "b_chans (delivered y d msg q False False b) d = Some (ch\<lparr>ch_transport := transport_asyncSend bytes (ch_transport ch)\<rparr>)"
    using d q by (simp add: delivered_def Let_def pid_def send_bytes_chan split: if_splits)
  with bytes(2) show ?thesis by (intro exI [of _ bytes] exI [of _ pub]) (simp add: pub_def)
qed

section \<open>The whole way\<close>

lemma noted_rest:
  "b_by_id (noted x pub b) = b_by_id b" "b_chans (noted x pub b) = b_chans b" "b_sess (noted x pub b) = b_sess b"
  "b_sessions (noted x pub b) = b_sessions b" "b_now (noted x pub b) = b_now b"
  "cc_connected (b_ctxs (noted x pub b) y) = cc_connected (b_ctxs b y)" "cc_channel (b_ctxs (noted x pub b) y) = cc_channel (b_ctxs b y)"
  by (simp_all add: noted_def Let_def split: Qos.split)

text \<open>The worker on a permitted PUBLISH of QoS 0 or 1: another client's connection sees the routing and nothing else.\<close>

lemma worker_publishes:
  fixes env :: Env
  assumes msg_def: "msg = publish_message pub (cc_client_id (b_ctxs b x))"
    and inv: "broker_inv b" and requests: "b_requests b = [(x, publish_packet pub)]" and small: "small_body (PublishBody pub)"
    and may: "may_publish env x (pub_topic pub) b" "\<not> duplicate (b_ctxs b x) pub"
    and hooks: "hooks_onMessageIn (env_hooks env) (b_events b) (stamped x pub b) (cc_client_id (b_ctxs b x)) = Ret (True, stamped x pub b)"
    and pub: "pub_qos pub \<noteq> ExactlyOnce" "\<not> (pub_retain pub \<and> pub_payload pub = [])"
    and order: "\<And>cids. mset (env_order env cids) = mset cids"
    and on: "online cid b = Some (y, d)" "y \<noteq> x"
    and alone: "\<And>cid' x' c'. interests b msg cid' \<noteq> {} \<Longrightarrow> cid' \<noteq> cid \<Longrightarrow> online cid' b = Some (x', c') \<Longrightarrow> x' \<noteq> y"
    and want: "interests b msg cid \<noteq> {}"
  shows "\<exists>b1 b2. handleRequest (registerHandlers Map.empty) env on_close b = Ok () b2 \<and> b_chans b1 d = b_chans b d \<and>
    b_chans b2 d = b_chans (delivered y d msg (Max (interests b msg cid)) False False b1) d"
proof -
  define b0 where "b0 = b\<lparr>b_requests := []\<rparr>"
  define bn where "bn = noted x pub b0"
  define b1 where "b1 = bn\<lparr>b_events := b_events bn @ [MessageIn (stamped x pub b) (cc_client_id (b_ctxs bn x))]\<rparr>"
  define b2 where "b2 = routed msg (best_maps b1 msg) (env_order env (map fst (fst (best_maps b1 msg)))) b1"
  have inv0: "broker_inv b0" using inv by (simp add: b0_def broker_inv_def)
  have msg: "small_msg msg" "\<not> isTopicNameInvalid (m_topic msg)" "m_topic msg = pub_topic (stamped x pub b)"
    using small may(1) by (simp_all add: msg_def publish_message_def small_msg_def may_publish_def stamped_def)
  have fields: "pub_qos (stamped x pub b) = pub_qos pub" "pub_retain (stamped x pub b) = pub_retain pub"
      "pub_payload (stamped x pub b) = pub_payload pub" "pub_packet_id (stamped x pub b) = pub_packet_id pub"
    by (simp_all add: stamped_def)
  have ctx0: "b_ctxs b0 = b_ctxs b" by (simp add: b0_def)
  have invn: "broker_inv bn"
    unfolding bn_def using noted_frame(1) [OF inv0, of pub x] msg(1,2) by (simp add: ctx0 msg_def publish_message_def)
  then have inv1: "broker_inv b1" by (simp add: b1_def)
  have "cc_client_id (b_ctxs bn x) = cc_client_id (b_ctxs b x)" "b_events bn = b_events b"
    unfolding bn_def using noted_frame(4,5) [OF inv0, of pub x] msg(1,2) by (simp_all add: ctx0 b0_def msg_def publish_message_def)
  then have plugins: "hooks_onMessageIn (env_hooks env) (b_events bn) (stamped x pub b) (cc_client_id (b_ctxs bn x)) = Ret (True, stamped x pub b)"
    using hooks by simp
  have same: "interests b1 msg' cid' = interests b msg' cid'" "online cid' b1 = online cid' b" for msg' cid'
    by (rule interests_cong, simp_all add: b1_def bn_def b0_def noted_rest) (rule online_cong, simp_all add: b1_def bn_def b0_def noted_rest)
  have "PublishHandler env on_close x (publish_packet pub) b0 = publish_accept env on_close x (stamped x pub b) msg bn"
    using PublishHandler_past_checks(2) [of env x pub b0 "publish_packet pub" on_close] may
    by (simp add: bn_def ctx0 may_publish_def publish_packet_def stamped_def msg_def)
  moreover obtain st where "publish_accept env on_close x (stamped x pub b) msg bn =
      Ok () (let b3 = b2\<lparr>b_retains := st\<rparr>
             in if pub_qos pub = AtLeastOnce then reply x (ack_packet Puback (pub_packet_id pub)) b3 else b3)"
    using publish_accept_routes [OF invn msg(1,3) plugins pub [folded fields] b1_def, of on_close, folded b2_def]
    unfolding fields by auto
  ultimately have run: "handleRequest (registerHandlers Map.empty) env on_close b =
      Ok () (let b3 = b2\<lparr>b_retains := st\<rparr>
             in if pub_qos pub = AtLeastOnce then reply x (ack_packet Puback (pub_packet_id pub)) b3 else b3)"
    using requests by (simp add: handleRequest_def dispatch_table b0_def publish_packet_def catchP_apply)
  have yd: "y = Suc d" using online_channel [OF inv on(1)] .
  have "x = Suc c" if "cc_channel (b_ctxs b2 x) = Some c" for c
    using that inv_channel_ref [OF inv1, of x c] publisher_sideD(7) [OF publisher_side_routed, of msg] by (simp add: b2_def)
  then have "endpoint_of y d (reply x p (b2\<lparr>b_retains := st\<rparr>)) = endpoint_of y d b2" for p
    using endpoint_reply [of "b2\<lparr>b_retains := st\<rparr>" x y d p] yd on(2) by (simp add: endpoint_of_def)
  moreover have "endpoint_of y d b2 = endpoint_of y d (delivered y d msg (Max (interests b msg cid)) False False b1)"
    unfolding b2_def using route_endpoint [OF inv1 msg(2) order, of cid y d] on(1) alone want by (auto simp: same)
  ultimately have "b_chans (reply x p (b2\<lparr>b_retains := st\<rparr>)) d = b_chans (delivered y d msg (Max (interests b msg cid)) False False b1) d"
      "b_chans (b2\<lparr>b_retains := st\<rparr>) d = b_chans (delivered y d msg (Max (interests b msg cid)) False False b1) d" for p
    by (simp_all add: endpoint_of_def)
  moreover have "b_chans b1 d = b_chans b d" by (simp add: b1_def bn_def b0_def noted_rest)
  ultimately show ?thesis
    unfolding run Let_def by - (rule exI [of _ b1], auto)
qed

text \<open>
  C3. A message reaches its subscriber. The bytes of a PUBLISH of QoS 0 or 1, as the encoder
  writes them, arrive on a client's socket in any pieces, and another client that has a matching
  subscription is online. Then the read loop queues the packet, the worker's next turn handles
  it, and the subscriber's transport is given, exactly once, bytes that decode to a PUBLISH with the
  same topic and payload, at the highest quality of service its subscriptions grant.
\<close>

theorem publish_end_to_end:
  fixes env :: Env
  assumes msg: "msg = publish_message pub (cc_client_id (b_ctxs b x))"
    and reads: "reading c x [] b" and idle: "b_requests b = []"
    and bytes: "encode (publish_packet pub) [] = Ret (True, mqtt_packet h body)" "length body < 2 ^ 28" "packet_reads (h, body) evs"
    and pub: "publish_ok pub" "length (pub_topic pub) + length (pub_payload pub) + 9 \<le> unat (env_MaxPacketSize env)"
      "pub_qos pub \<noteq> ExactlyOnce" "\<not> (pub_retain pub \<and> pub_payload pub = [])"
    and may: "may_publish env x (pub_topic pub) b" "\<not> duplicate (b_ctxs b x) pub"
    and hooks: "hooks_onMessageIn (env_hooks env) (b_events b) (stamped x pub b) (cc_client_id (b_ctxs b x)) = Ret (True, stamped x pub b)"
    and order: "\<And>cids. mset (env_order env cids) = mset cids"
    and subscriber: "online cid b = Some (y, d)" "y \<noteq> x" "b_chans b d = Some dch" "interests b msg cid \<noteq> {}"
    and alone: "\<forall>cid' x' c'. interests b msg cid' \<noteq> {} \<longrightarrow> cid' \<noteq> cid \<longrightarrow> online cid' b = Some (x', c') \<longrightarrow> x' \<noteq> y"
  shows "\<exists>b1 b2 bytes pub'. read_loop env (onClose (Suc n) env) c evs b = Ok [] b1 \<and>
    handleRequest (registerHandlers Map.empty) env (onClose (Suc n) env) b1 = Ok () b2 \<and>
    b_chans b2 d = Some (dch\<lparr>ch_transport := transport_asyncSend bytes (ch_transport dch)\<rparr>) \<and>
    decode (env_MaxPacketSize env) bytes = Ret (Some \<lparr>pkt_type = Publish, pkt_body = PublishBody pub'\<rparr>) \<and>
    pub_topic pub' = pub_topic pub \<and> pub_payload pub' = pub_payload pub \<and> pub_qos pub' = Max (interests b msg cid) \<and>
    \<not> pub_retain pub' \<and> \<not> pub_dup pub'"
proof -
  let ?q = "Max (interests b msg cid)"
  define b1 where "b1 = (upd_chan c (\<lambda>ch. ch\<lparr>ch_last_read := b_now b, ch_buffer := []\<rparr>) b)\<lparr>b_requests := [(x, publish_packet pub)]\<rparr>"
  have inv: "broker_inv b" and x: "byChannel c b = Some x" using reads by (simp_all add: reading_def)
  have "length (publish_body pub) + 5 \<le> unat (env_MaxPacketSize env)"
    using pub(2) by (simp add: publish_body_def)
  then have "decode (env_MaxPacketSize env) (frame_bytes (h, body) []) = Ret (Some (publish_packet pub))"
    using publish_wire [OF pub(1)] bytes(1) by (auto simp: publish_packet_def frame_bytes_def)
  from read_loop_packet [OF reads bytes(3) _ this, of n "[]"]
  have recv: "read_loop env (onClose (Suc n) env) c evs b = Ok [] b1"
    using bytes(2) idle read_loop_end by (fastforce simp: b1_def queued_def publish_packet_def simp del: onClose.simps)
  have ok: "packet_ok Publish (PublishBody pub)" "small_body (PublishBody pub)"
    using pub(1) by (simp_all add: publish_ok_def)
  have inv1: "broker_inv b1" using inv ok by (simp add: b1_def broker_inv_def Packet_ok_def publish_packet_def)
  have closing: "map_option ch_closing (b_chans b1 e) = map_option ch_closing (b_chans b e)" for e
    by (simp add: b1_def option.map_comp comp_def)
  have same: "interests b1 msg' cid' = interests b msg' cid'" "online cid' b1 = online cid' b" "b_ctxs b1 = b_ctxs b" for msg' cid'
    using interests_cong [of b1 b] online_cong [OF _ _ _ closing] by (simp_all add: b1_def)
  have "c \<noteq> d" using subscriber(1,2) x inv online_channel [OF inv subscriber(1)]
    by (auto simp: byChannel_def broker_inv_def channels_ok_def dest!: map_of_SomeD)
  then have d: "b_chans b1 d = Some dch" using subscriber(3) by (simp add: b1_def)
  obtain b2 b3 where run: "handleRequest (registerHandlers Map.empty) env (onClose (Suc n) env) b1 = Ok () b2"
      "b_chans b3 d = Some dch" "b_chans b2 d = b_chans (delivered y d msg ?q False False b3) d"
    using worker_publishes [OF msg [folded same(3)] inv1 _ ok(2) _ _ _ pub(3,4) order, of cid y d "onClose (Suc n) env"]
      may hooks subscriber(1,2,4) alone d unfolding same
    by (auto simp: b1_def may_publish_def stamped_def simp del: onClose.simps)
  have "?q \<in> interests b msg cid" using subscriber(4) by (simp add: finite_Qos)
  then have q: "min_qos ?q (m_qos msg) = ?q" by (rule min_qos_interests)
  have m: "m_topic msg = pub_topic pub" "m_payload msg = pub_payload pub" by (simp_all add: msg publish_message_def)
  obtain bytes pub' where "b_chans (delivered y d msg ?q False False b3) d = Some (dch\<lparr>ch_transport := transport_asyncSend bytes (ch_transport dch)\<rparr>)"
      "decode (env_MaxPacketSize env) bytes = Ret (Some \<lparr>pkt_type = Publish, pkt_body = PublishBody pub'\<rparr>)"
      "pub_topic pub' = m_topic msg" "pub_payload pub' = m_payload msg" "pub_qos pub' = ?q" "\<not> pub_retain pub'" "\<not> pub_dup pub'"
    using delivered_wire [OF _ _ _ _ q run(2), of "env_MaxPacketSize env" y] pub(1,2) unfolding m publish_ok_def by blast
  then show ?thesis using recv run m by auto
qed

text \<open>A publisher beside the two subscribers of the demonstration broker.\<close>

definition demo_publish :: PublishPacket where
  "demo_publish = \<lparr>pub_topic = ''a/b'', pub_payload = ''x'', pub_qos = AtMostOnce, pub_retain = False, pub_dup = False,
     pub_packet_id = 0, pub_source_client = []\<rparr>"

definition demo_publisher :: Broker where
  "demo_publisher = upd_chan 4 (\<lambda>ch. ch\<lparr>ch_buffer := []\<rparr>)
     (upd_ctx 5 (\<lambda>ctx. ctx\<lparr>cc_client_id := ''p'', cc_connected := True\<rparr>)
     (demo_subscribed\<lparr>b_chans := (b_chans demo_subscribed)(4 \<mapsto> channel_new 64 0), b_channels := [0, 4],
        b_ctxs := (b_ctxs demo_subscribed)(5 := new_context 4), b_by_channel := AList.update 4 5 (b_by_channel demo_subscribed),
        b_next_ref := 6\<rparr>))"

lemma demo_publish_bytes: "encode (publish_packet demo_publish) [] = Ret (True, [0x30, 6, 0, 3, 0x61, 0x2F, 0x62, 0x78])"
  by code_simp

lemma demo_publisher_inv: "broker_inv demo_publisher"
proof -
  have "b_next_ref demo_subscribed = 4" by (simp add: demo_subscribed_def demo_subscribe_def demo_broker_def)
  from inv_add_channel [OF demo_subscribed_inv this [symmetric], of "[0, 4]" "(b_chans demo_subscribed)(4 \<mapsto> channel_new 64 0)"]
  show ?thesis unfolding demo_publisher_def inv_upd_chan by (intro inv_upd_ctx) (simp_all add: ctx_ok_def)
qed

lemma demo_publisher_state:
  "b_requests demo_publisher = []" "byChannel 4 demo_publisher = Some 5" "b_ctxs demo_publisher 5 = (new_context 4)\<lparr>cc_client_id := ''p'', cc_connected := True\<rparr>"
  "b_chans demo_publisher 4 = Some ((channel_new 64 0)\<lparr>ch_buffer := []\<rparr>)"
  "b_chans demo_publisher 0 = Some (channel_new 64 0)"
  "online cid demo_publisher = (if cid = ''a'' then Some (1, 0) else None)"
  "interests demo_publisher msg cid = interests demo_subscribed msg cid"
  by (simp_all add: demo_publisher_def byChannel_def interests_def demo_subscribed_def demo_subscribe_def demo_broker_def broker_init_def
      update_conv' online_def byId_def open_channel_def lock_channel_def demo_client_def new_context_def channel_new_def)

theorem publish_end_to_end_witness:
  "\<exists>b1 b2 bytes pub'. read_loop demo_env (onClose (Suc 0) demo_env) 4
       [ReadBytes [0x30, 6], ReadBytes [0, 3, 0x61], ReadBytes [0x2F, 0x62, 0x78]] demo_publisher = Ok [] b1 \<and>
     handleRequest (registerHandlers Map.empty) demo_env (onClose (Suc 0) demo_env) b1 = Ok () b2 \<and>
     b_chans b2 0 = Some ((channel_new 64 0)\<lparr>ch_transport := transport_asyncSend bytes transport_new\<rparr>) \<and>
     decode 256 bytes = Ret (Some \<lparr>pkt_type = Publish, pkt_body = PublishBody pub'\<rparr>) \<and>
     pub_topic pub' = ''a/b'' \<and> pub_payload pub' = ''x'' \<and> pub_qos pub' = AtMostOnce"
proof -
  let ?msg = "publish_message demo_publish ''p''"
  have "isTopicMatchesFilter ''a/#'' ''a/b''" "isTopicMatchesFilter ''+/b'' ''a/b''"
    by (simp_all add: isTopicMatchesFilter_def splitTopic_def splitTopic_loop.simps)
  then have want: "interests demo_publisher ?msg ''a'' = {AtMostOnce}"
    by (simp add: demo_publisher_state interests_list demo_sess publish_message_def demo_publish_def min_qos_def)
  have ok: "publish_ok demo_publish" by (simp add: publish_ok_def demo_publish_def) code_simp
  have may: "may_publish demo_env 5 (pub_topic demo_publish) demo_publisher"
    by (simp add: may_publish_def demo_publisher_state demo_publish_def isTopicNameInvalid_def demo_env_def canPublish_def
        registerSecurity_def addAuthenticator_def addAuthorizer_def SecurityChain_empty_def AllowAllAuthorizer_def)
  have rest: "length (pub_topic demo_publish) + length (pub_payload demo_publish) + 9 \<le> unat (env_MaxPacketSize demo_env)"
      "pub_qos demo_publish \<noteq> ExactlyOnce" "\<not> (pub_retain demo_publish \<and> pub_payload demo_publish = [])"
      "\<not> duplicate (b_ctxs demo_publisher 5) demo_publish"
    by (simp_all add: demo_publish_def demo_env_def duplicate_def)
  have hooks: "hooks_onMessageIn (env_hooks demo_env) events pub cid = Ret (True, pub)" for events pub cid by (simp add: demo_env_def)
  have order: "mset (env_order demo_env cids) = mset cids" for cids by (simp add: demo_env_def)
  have msg: "?msg = publish_message demo_publish (cc_client_id (b_ctxs demo_publisher 5))" by (simp add: demo_publisher_state)
  have bytes: "encode (publish_packet demo_publish) [] = Ret (True, mqtt_packet 0x30 [0, 3, 0x61, 0x2F, 0x62, 0x78])"
    by (simp add: demo_publish_bytes mqtt_packet_def varint.simps)
  have reads: "packet_reads (0x30, [0, 3, 0x61, 0x2F, 0x62, 0x78]) [ReadBytes [0x30, 6], ReadBytes [0, 3, 0x61], ReadBytes [0x2F, 0x62, 0x78]]"
    unfolding packet_reads_def prod.case
    by (rule exI [of _ "[ReadBytes [0x30, 6]]"], rule exI [of _ "[ReadBytes [0, 3, 0x61], ReadBytes [0x2F, 0x62, 0x78]]"])
       (auto simp: delivers_def varint.simps intro: exI [of _ "[[0x30, 6]]"] exI [of _ "[[0, 3, 0x61], [0x2F, 0x62, 0x78]]"])
  have idle: "reading 4 5 [] demo_publisher"
    using demo_publisher_inv by (auto simp: reading_def demo_publisher_state channel_new_def transport_new_def)
  have sub: "online ''a'' demo_publisher = Some (1, 0)" "(1 :: nat) \<noteq> 5" "interests demo_publisher ?msg ''a'' \<noteq> {}"
    by (simp_all add: demo_publisher_state(6) want)
  have alone: "\<forall>cid' x' c'. interests demo_publisher ?msg cid' \<noteq> {} \<longrightarrow> cid' \<noteq> ''a'' \<longrightarrow> online cid' demo_publisher = Some (x', c') \<longrightarrow> x' \<noteq> 1"
    by (simp add: demo_publisher_state(6))
  have max: "Max (interests demo_publisher ?msg ''a'') = AtMostOnce" by (simp add: want)
  have "env_MaxPacketSize demo_env = 256" "ch_transport (channel_new 64 0) = transport_new"
      "pub_topic demo_publish = ''a/b''" "pub_payload demo_publish = ''x''"
    by (simp_all add: demo_env_def channel_new_def demo_publish_def)
  with max show ?thesis
    using publish_end_to_end [OF msg idle demo_publisher_state(1) bytes _ reads ok rest(1-3) may rest(4) hooks order
        sub(1,2) demo_publisher_state(5) sub(3) alone, of 0] by simp metis
qed

end
