(* ===== verification/Forwarding.thy ===== *)
theory Forwarding
  imports Refinement
begin

text \<open>
  Messages that the broker keeps and sends later: those for a client that is away, routed to its
  offline queue and sent on its next connection, and the retained ones, sent to every new
  subscription. Router, stores, handlers, encoder and transport together.
\<close>

section \<open>Sending a list of messages\<close>

text \<open>The PUBLISH that delivers a message to a subscriber, up to its packet identifier.\<close>

definition carries :: "bool \<Rightarrow> OutboxMessage \<Rightarrow> buffer \<Rightarrow> bool" where
  "carries dup m bytes \<longleftrightarrow>
     (\<exists>pid. encode (delivery_packet (om_msg m) (min_qos (om_granted_qos m) (m_qos (om_msg m))) (om_retained m) dup pid) [] = Ret (True, bytes))"

abbreviation deliver_item :: "bool \<Rightarrow> ctx_ref \<Rightarrow> chan_ref \<Rightarrow> OutboxMessage \<Rightarrow> Broker \<Rightarrow> Broker" where
  "deliver_item dup x c m \<equiv> delivered x c (om_msg m) (om_granted_qos m) (om_retained m) dup"

lemma forP_deliver:
  "\<forall>m \<in> set q. small_msg (om_msg m) \<Longrightarrow> open_channel x b = Some c \<Longrightarrow>
   forP q (\<lambda>m. deliver on_close x (om_msg m) (om_granted_qos m) (om_retained m) dup) b = Ok () (fold (deliver_item dup x c) q b)"
  by (induction q arbitrary: b) (simp_all add: deliver_eq seqP_apply)

lemma deliver_item_chan:
  assumes "small_msg (om_msg m)" "b_chans b c = Some ch"
  shows "\<exists>bytes. carries dup m bytes \<and>
    b_chans (deliver_item dup x c m b) c = Some (ch\<lparr>ch_transport := transport_asyncSend bytes (ch_transport ch)\<rparr>)"
proof -
  define q where "q = min_qos (om_granted_qos m) (m_qos (om_msg m))"
  define pid where "pid = (if q = AtMostOnce then 0 else fst (nextPacketId (b_ctxs b x)))"
  obtain bytes where bytes: "encode (delivery_packet (om_msg m) q (om_retained m) dup pid) [] = Ret (True, bytes)"
    using sendable_delivery [OF assms(1)] unfolding sendable_def by blast
  then have "b_chans (deliver_item dup x c m b) c = Some (ch\<lparr>ch_transport := transport_asyncSend bytes (ch_transport ch)\<rparr>)"
    using assms(2) by (auto simp: delivered_def Let_def q_def pid_def send_bytes_chan split: if_splits)
  with bytes show ?thesis by (auto simp: carries_def q_def)
qed

lemma deliver_items_chan:
  assumes "\<forall>m \<in> set q. small_msg (om_msg m)" "b_chans b c = Some ch"
  shows "\<exists>bytes. list_all2 (carries dup) q bytes \<and>
    b_chans (fold (deliver_item dup x c) q b) c = Some (ch\<lparr>ch_transport := fold transport_asyncSend bytes (ch_transport ch)\<rparr>)"
  using assms
proof (induction q arbitrary: b ch)
  case (Cons m q)
  obtain bs where bs: "carries dup m bs" "b_chans (deliver_item dup x c m b) c = Some (ch\<lparr>ch_transport := transport_asyncSend bs (ch_transport ch)\<rparr>)"
    using deliver_item_chan Cons.prems by fastforce
  obtain bytes where "list_all2 (carries dup) q bytes" "b_chans (fold (deliver_item dup x c) q (deliver_item dup x c m b)) c =
      Some (ch\<lparr>ch_transport := fold transport_asyncSend bytes (transport_asyncSend bs (ch_transport ch))\<rparr>)"
    using Cons.IH [OF _ bs(2)] Cons.prems(1) by auto
  then show ?case using bs(1) by (intro exI [of _ "bs # bytes"]) simp
qed simp

lemma drain_sends:
  assumes inv: "broker_inv b" and open_ch: "open_channel x b = Some c" "b_chans b c = Some ch"
  shows "\<exists>k b' bytes. outbox_drain b_outbox b_outbox_update (\<lambda>m q r. deliver on_close x m q r True) s b = Ok k b' \<and>
    list_all2 (carries True) (outbox_queue (b_outbox b) s) bytes \<and> outbox_queue (b_outbox b') s = [] \<and>
    b_chans b' c = Some (ch\<lparr>ch_transport := fold transport_asyncSend bytes (ch_transport ch)\<rparr>)"
proof (cases "map_of (b_outbox b) s")
  case None
  then show ?thesis using open_ch by (auto simp: outbox_drain_def outbox_queue_def)
next
  case (Some q)
  then have q: "outbox_queue (b_outbox b) s = q" by (simp add: outbox_queue_def)
  have small: "\<forall>m \<in> set q. small_msg (om_msg m)"
    using inv Some by (auto simp: broker_inv_def outbox_ok_def outbox_queue_def dest: spec [of _ s])
  obtain bytes where "list_all2 (carries True) q bytes" "b_chans (fold (deliver_item True x c) q b) c =
      Some (ch\<lparr>ch_transport := fold transport_asyncSend bytes (ch_transport ch)\<rparr>)"
    using deliver_items_chan [OF small open_ch(2)] by blast
  then show ?thesis
    using Some q forP_deliver [OF small open_ch(1)]
    by (auto simp: outbox_drain_def seqP_apply outbox_queue_def delete_conv')
qed

section \<open>Coming back\<close>

text \<open>A CONNECT that resumes a session sends CONNACK and then the queue, in order.\<close>

lemma connect_sends_queue:
  assumes inv: "broker_inv b" and ch: "lock_channel x b = Some (c, ch)" "\<not> ch_closing ch"
    and connect: "\<not> cc_connected (b_ctxs b x)" "pkt_body pkt = ConnectBody cp" "cp_protocol cp = ''MQTT''" "cp_client_id cp \<noteq> []"
      "length (cp_will_topic cp) < 65536" "length (cp_will_payload cp) < 65536"
    and ok: "connect_verdict env b cp = accepted" "\<not> cp_clean_session cp" "byId (cp_client_id cp) b = None"
    and s: "map_of (b_sessions b) (cp_client_id cp) = Some s"
  shows "\<exists>b' ch' bytes. ConnectHandler env (onClose (Suc n) env) x pkt b = Ok () b' \<and> broker_inv b' \<and>
    list_all2 (carries True) (outbox_queue (b_outbox b) s) bytes \<and> outbox_queue (b_outbox b') s = [] \<and>
    b_chans b' c = Some ch' \<and> ch_transport ch' = fold transport_asyncSend ([0x20, 0x02, 1, 0] # bytes) (ch_transport ch)"
proof -
  let ?cid = "cp_client_id cp"
  obtain v where v: "b_sess b s = Some v" using sessions_okD(1) [OF inv_sessions [OF inv] s] by blast
  define b2 where "b2 = bind_client x cp ?cid s b"
  define b3 where "b3 = (if cp_keepalive cp > 0 then upd_chan c (\<lambda>ch. ch\<lparr>ch_keepalive := cp_keepalive cp, ch_last_read := b_now b2\<rparr>) b2 else b2)"
  define b4 where "b4 = send_bytes c (connack_packet True accepted) (b3\<lparr>b_by_id := (b_by_id b3)(?cid \<mapsto> x)\<rparr>)"
  have "broker_inv b2" unfolding b2_def bind_client_def using inv connect(5,6) by (intro inv_upd_ctx) (simp_all add: ctx_ok_def)
  then have inv4: "broker_inv b4" by (simp add: b4_def b3_def)
  have chan: "cc_channel (b_ctxs b x) = Some c" "b_chans b c = Some ch" using ch(1) by (auto simp: lock_channel_def split: option.splits)
  have ctx: "cc_channel (b_ctxs b4 x) = Some c" "b_outbox b4 = b_outbox b" "lock_session x b4 = Some (s, v)"
    using chan(1) v by (simp_all add: b4_def b3_def b2_def bind_client_def lock_session_def)
  have chan2: "b_chans b2 c = Some ch" using chan(2) by (simp add: b2_def bind_client_def)
  then obtain ch3 where ch3: "b_chans b3 c = Some ch3" "\<not> ch_closing ch3" "ch_transport ch3 = ch_transport ch"
    using ch(2) by (cases "cp_keepalive cp > 0") (simp_all add: b3_def)
  then obtain ch4 where ch4: "b_chans b4 c = Some ch4" "\<not> ch_closing ch4" "ch_transport ch4 = transport_asyncSend [0x20, 0x02, 1, 0] (ch_transport ch)"
    using send_bytes_chan [OF encode_connack, of c True accepted "b3\<lparr>b_by_id := (b_by_id b3)(?cid \<mapsto> x)\<rparr>"]
    by (simp add: b4_def)
  have "open_channel x b4 = Some c" using ctx(1) ch4(1,2) by (simp add: open_channel_alt)
  from drain_sends [OF inv4 this ch4(1), of "onClose (Suc n) env" s]
  obtain k b5 bytes where b5: "outbox_drain b_outbox b_outbox_update (\<lambda>m q r. deliver (onClose (Suc n) env) x m q r True) s b4 = Ok k b5"
      "list_all2 (carries True) (outbox_queue (b_outbox b) s) bytes" "outbox_queue (b_outbox b5) s = []"
      "b_chans b5 c = Some (ch4\<lparr>ch_transport := fold transport_asyncSend bytes (ch_transport ch4)\<rparr>)"
    using ctx(2) by auto
  define b6 where "b6 = b5\<lparr>b_events := b_events b5 @ hooks_onClientConnected (env_hooks env) ?cid (cp_username cp)\<rparr>"
  have open3: "isClosing c (b3\<lparr>b_by_id := ids\<rparr>) = False" for ids using ch3(1,2) by (simp add: isClosing_def)
  have lock2: "lock_channel x b2 = Some (c, ch)" using chan2 chan(1) by (simp add: b2_def bind_client_def lock_channel_def)
  have keepalive: "whenP (cp_keepalive cp > 0) (channel_setKeepalive c (cp_keepalive cp)) b2 = Ok () b3"
    by (simp add: channel_setKeepalive_def b3_def)
  have "connect_finish env (onClose (Suc n) env) x cp ?cid True b2 = Ok () b6"
    using lock2 keepalive ok(2) b5(1) ctx(3) ch4(1)
    by (simp add: connect_finish_def bindP_apply [of _ _ b2] seqP_apply bindP_apply bindId_def channel_asyncSend_sendable [OF sendable_connack]
        open3 b6_def del: onClose.simps flip: b4_def)
  then have "connect_accept env (onClose (Suc n) env) x cp ?cid b = Ok () b6"
    using ok(2,3) s by (simp add: connect_accept_def connect_takeover_def getSession_def sessionExists_def byId_def seqP_apply bindP_apply
        del: onClose.simps flip: b2_def)
  then have handler: "ConnectHandler env (onClose (Suc n) env) x pkt b = Ok () b6"
    by (simp add: ConnectHandler_verdict [OF connect(1-4)] ok(1) del: onClose.simps)
  have "broker_inv b6"
    using wlp_OkD [OF engine.ConnectHandler_inv [OF inv] handler] connect(2,5,6) by simp
  then show ?thesis using handler b5(2-4) ch4(3) by (intro exI [of _ b6] exI [of _ bytes]) (auto simp: b6_def simp del: onClose.simps)
qed

lemma routed_tables: "b_sessions (routed msg maps xs b) = b_sessions b" "b_by_id (routed msg maps xs b) = b_by_id b"
proof -
  have "b_sessions (route_step msg maps cid b) = b_sessions b \<and> b_by_id (route_step msg maps cid b) = b_by_id b" for cid b
    by (simp add: route_step_def routed_one_def split: option.split)
  then show "b_sessions (routed msg maps xs b) = b_sessions b" "b_by_id (routed msg maps xs b) = b_by_id b"
    unfolding routed_fold by (induction xs arbitrary: b) simp_all
qed

text \<open>Routing leaves a connection alone that is not the one of an online client.\<close>

lemma routed_offline_endpoint:
  assumes inv: "broker_inv b" and x: "x = Suc c" "\<And>cid d. online cid b \<noteq> Some (x, d)"
  shows "endpoint_of x c (routed msg maps xs b) = endpoint_of x c b"
proof -
  have step: "endpoint_of x c (route_step msg maps cid b') = endpoint_of x c b'" if "same_status b b'" for cid b'
  proof (cases "online cid b")
    case None
    then show ?thesis using that
      by (auto simp: route_step_def routed_one_def same_status_def endpoint_of_def split: option.split)
  next
    case (Some p)
    obtain y d where p: "p = (y, d)" by (cases p)
    with Some have "y \<noteq> x" "d \<noteq> c" using x online_channel [OF inv, of cid y d] by auto
    then show ?thesis using Some that p
      by (simp add: route_step_def routed_one_def same_status_def endpoint_other split: option.split)
  qed
  have "same_status b b' \<Longrightarrow> endpoint_of x c (fold (route_step msg maps) xs b') = endpoint_of x c b'" for b'
    by (induction xs arbitrary: b') (simp_all add: step same_status_step)
  then show ?thesis by (simp add: routed_fold same_status_refl)
qed

text \<open>
  C5. A message for a client that is away reaches it. A message is routed while a persistent
  session with a matching subscription, at QoS 1 or 2, has no connection; when its client
  connects again and resumes the session, CONNACK is followed by a PUBLISH for every message that
  waited (the oldest is given up when the queue was full), in the order of their arrival, and
  last comes this message, at the quality of service
  the subscriptions grant; then the queue is empty.
\<close>

theorem offline_message_delivered:
  assumes inv: "broker_inv b" and order: "\<And>cids. mset (env_order env cids) = mset cids"
    and session: "b_sess b s = Some v" "s_client_id v = cp_client_id cp" "\<not> s_clean_session v" "byId (cp_client_id cp) b = None"
    and msg: "small_msg msg" "\<not> isTopicNameInvalid (m_topic msg)" "interests b msg (cp_client_id cp) \<noteq> {}"
      "Max (interests b msg (cp_client_id cp)) \<noteq> AtMostOnce"
    and ch: "lock_channel x b = Some (c, ch)" "\<not> ch_closing ch"
    and connect: "\<not> cc_connected (b_ctxs b x)" "pkt_body pkt = ConnectBody cp" "cp_protocol cp = ''MQTT''" "cp_client_id cp \<noteq> []"
      "length (cp_will_topic cp) < 65536" "length (cp_will_payload cp) < 65536"
      "connect_verdict env b cp = accepted" "\<not> cp_clean_session cp"
  shows "\<exists>b1 b2 ch' earlier bytes. route env on_close msg b = Ok () b1 \<and>
    ConnectHandler env (onClose (Suc n) env) x pkt b1 = Ok () b2 \<and> broker_inv b2 \<and>
    b_chans b2 c = Some ch' \<and>
    ch_transport ch' = fold transport_asyncSend ([0x20, 0x02, 1, 0] # earlier @ [bytes]) (ch_transport ch) \<and>
    list_all2 (carries True) (if length (outbox_queue (b_outbox b) s) \<ge> MaxQueueSize then tl (outbox_queue (b_outbox b) s)
      else outbox_queue (b_outbox b) s) earlier \<and>
    carries True \<lparr>om_msg = msg, om_granted_qos = Max (interests b msg (cp_client_id cp)), om_retained = False\<rparr> bytes \<and>
    outbox_queue (b_outbox b2) s = []"
proof -
  let ?cid = "cp_client_id cp" and ?m = "\<lparr>om_msg = msg, om_granted_qos = Max (interests b msg (cp_client_id cp)), om_retained = False\<rparr>"
  define b1 where "b1 = routed msg (best_maps b msg) (env_order env (map fst (fst (best_maps b msg)))) b"
  have run: "route env on_close msg b = Ok () b1" unfolding b1_def by (rule route_eq [OF msg(1)])
  have inv1: "broker_inv b1" using wp_OkD [OF wp_route_inv [OF inv msg(1)] run] by simp
  have "online ?cid b = None" using session(4) by (simp add: online_def)
  define q where "q = (if length (outbox_queue (b_outbox b) s) \<ge> MaxQueueSize then tl (outbox_queue (b_outbox b) s)
      else outbox_queue (b_outbox b) s)"
  have q: "outbox_queue (b_outbox b1) s = q @ [?m]"
    using \<open>online ?cid b = None\<close> route_queue [OF inv msg(2) session(1) order] msg(3,4) session(2,3) by (simp add: b1_def q_def queue_enqueue)
  have xc: "x = Suc c" using inv_channel_ref [OF inv lock_channel_ctx [OF ch(1)]] .
  have "online cid b \<noteq> Some (x, d)" for cid d using connect(1) by (auto simp: online_def split: option.splits)
  from routed_offline_endpoint [OF inv xc this] have same: "b_ctxs b1 x = b_ctxs b x" "b_chans b1 c = b_chans b c"
    by (simp_all add: b1_def endpoint_of_def)
  then have lock: "lock_channel x b1 = Some (c, ch)" using ch(1) by (auto simp: lock_channel_def split: option.splits)
  have tab: "map_of (b_sessions b1) ?cid = Some s" "byId ?cid b1 = None" "connect_verdict env b1 cp = accepted"
    using sessions_okD(2) [OF inv_sessions [OF inv] session(1)] session(2,4) connect(7)
    by (simp_all add: b1_def byId_def connect_verdict_def connectionCount_def routed_tables)
  obtain b2 ch' bytes where b2: "ConnectHandler env (onClose (Suc n) env) x pkt b1 = Ok () b2" "broker_inv b2"
      "list_all2 (carries True) (q @ [?m]) bytes" "outbox_queue (b_outbox b2) s = []" "b_chans b2 c = Some ch'"
      "ch_transport ch' = fold transport_asyncSend ([0x20, 0x02, 1, 0] # bytes) (ch_transport ch)"
    using connect_sends_queue [OF inv1 lock ch(2) _ connect(2-6) tab(3) connect(8) tab(2,1), of n] connect(1) same(1) q by auto
  obtain earlier bs where "bytes = earlier @ [bs]" "list_all2 (carries True) q earlier" "carries True ?m bs"
    using b2(3) by (auto simp: list_all2_append1 list_all2_Cons1)
  with run b2 show ?thesis
    unfolding q_def [symmetric] by (intro exI [of _ b1] exI [of _ b2] exI [of _ ch'] exI [of _ earlier] exI [of _ bs]) simp
qed

text \<open>The demonstration broker, and client \<open>b\<close> on a new connection.\<close>

definition demo_returning :: Broker where
  "demo_returning = demo_subscribed\<lparr>b_chans := (b_chans demo_subscribed)(4 \<mapsto> channel_new 64 0), b_channels := [0, 4],
     b_ctxs := (b_ctxs demo_subscribed)(5 := new_context 4), b_by_channel := AList.update 4 5 (b_by_channel demo_subscribed),
     b_next_ref := 6\<rparr>"

lemma demo_returning_inv: "broker_inv demo_returning"
proof -
  have "b_next_ref demo_subscribed = 4" by (simp add: demo_subscribed_def demo_subscribe_def demo_broker_def)
  from inv_add_channel [OF demo_subscribed_inv this [symmetric]] show ?thesis by (simp add: demo_returning_def)
qed

theorem offline_message_delivered_witness:
  "\<exists>b1 b2 ch' bytes. route demo_env (onClose (Suc 0) demo_env) demo_msg demo_returning = Ok () b1 \<and>
     ConnectHandler demo_env (onClose (Suc 0) demo_env) 5
       \<lparr>pkt_type = Connect, pkt_body = ConnectBody ((demo_connect 4)\<lparr>cp_client_id := ''b''\<rparr>)\<rparr> b1 = Ok () b2 \<and>
     b_chans b2 4 = Some ch' \<and> ch_transport ch' = transport_asyncSend bytes (transport_asyncSend [0x20, 0x02, 1, 0] transport_new) \<and>
     carries True \<lparr>om_msg = demo_msg, om_granted_qos = AtLeastOnce, om_retained = False\<rparr> bytes"
proof -
  let ?cp = "(demo_connect 4)\<lparr>cp_client_id := ''b''\<rparr>" and ?pkt = "\<lparr>pkt_type = Connect, pkt_body = ConnectBody ((demo_connect 4)\<lparr>cp_client_id := ''b''\<rparr>)\<rparr>"
  have order: "mset (env_order demo_env cids) = mset cids" for cids by (simp add: demo_env_def)
  have session: "b_sess demo_returning 3 = Some ((demo_session ''b'')\<lparr>s_subscriptions := [\<lparr>sb_filter = ''a/#'', sb_qos = AtLeastOnce\<rparr>]\<rparr>)"
      "byId ''b'' demo_returning = None"
    by (simp_all add: demo_returning_def demo_sess byId_def)
  have "interests demo_returning demo_msg ''b'' = interests demo_subscribed demo_msg ''b''"
    by (simp add: interests_def demo_returning_def)
  then have want: "interests demo_returning demo_msg ''b'' = {AtLeastOnce}" by (simp add: demo_interests)
  have ch: "lock_channel 5 demo_returning = Some (4, channel_new 64 0)" "\<not> cc_connected (b_ctxs demo_returning 5)"
    by (simp_all add: demo_returning_def lock_channel_def new_context_def)
  have verdict: "connect_verdict demo_env demo_returning ?cp = accepted"
    by (simp add: connect_verdict_def connectionCount_def demo_env_def demo_returning_def demo_subscribed_def demo_subscribe_def demo_broker_def
        authenticate_def canConnect_def registerSecurity_def addAuthenticator_def addAuthorizer_def SecurityChain_empty_def AllowAllAuthorizer_def AllowAllAuthenticator_def)
  have empty: "outbox_queue (b_outbox demo_returning) 3 = []" by (simp add: demo_returning_def outbox_queue_def)
  show ?thesis
    using offline_message_delivered [OF demo_returning_inv order session(1), of ?cp demo_msg 5 4 "channel_new 64 0" ?pkt "onClose (Suc 0) demo_env" 0]
      want verdict session(2) ch demo_topic
    by (fastforce simp: demo_session_def empty channel_new_def MaxQueueSize_def simp del: onClose.simps)
qed

section \<open>Retained messages\<close>

text \<open>What a granted subscription is owed: the retained messages that match, in the order of the store.\<close>

definition retained_for :: "Env \<Rightarrow> string \<Rightarrow> Message list \<Rightarrow> SubscribeEntry \<Rightarrow> OutboxMessage list" where
  "retained_for env cid msgs e =
     (if grant_code env cid e = 0x80 then []
      else map (\<lambda>m. \<lparr>om_msg = m, om_granted_qos = se_qos e, om_retained = True\<rparr>)
             (filter (\<lambda>m. isTopicMatchesFilter (se_filter e) (m_topic m)) msgs))"

lemma forP_whenP: "forP xs (\<lambda>x. whenP (P x) (f x)) = forP (filter P xs) f"
proof (induction xs)
  case (Cons x xs)
  then show ?case by (cases "P x") (simp_all add: fun_eq_iff [of "seqP _ _"] seqP_apply)
qed simp

lemma forP_map: "forP (map g xs) f = forP xs (\<lambda>x. f (g x))"
  by (induction xs) simp_all

text \<open>The subscriber's side between two entries.\<close>

definition subscribing :: "ctx_ref \<Rightarrow> chan_ref \<Rightarrow> string \<Rightarrow> RetainStore \<Rightarrow> Broker \<Rightarrow> bool" where
  "subscribing x c cid store b \<longleftrightarrow> open_channel x b = Some c \<and> cc_client_id (b_ctxs b x) = cid \<and> b_retains b = store \<and>
     lock_session x b \<noteq> None \<and> (\<forall>m \<in> set (retain_all store). small_msg m)"

lemma deliver_items_rest:
  "cc_client_id (b_ctxs (fold (deliver_item dup x c) q b) y) = cc_client_id (b_ctxs b y)"
  "cc_session (b_ctxs (fold (deliver_item dup x c) q b) y) = cc_session (b_ctxs b y)"
  "open_channel y (fold (deliver_item dup x c) q b) = open_channel y b"
  "b_retains (fold (deliver_item dup x c) q b) = b_retains b" "b_sess (fold (deliver_item dup x c) q b) = b_sess b"
proof -
  have "cc_client_id (b_ctxs (deliver_item dup x c m b) y) = cc_client_id (b_ctxs b y) \<and>
      cc_session (b_ctxs (deliver_item dup x c m b) y) = cc_session (b_ctxs b y)" for m b
    by (simp add: delivered_def Let_def)
  then show "cc_client_id (b_ctxs (fold (deliver_item dup x c) q b) y) = cc_client_id (b_ctxs b y)"
    "cc_session (b_ctxs (fold (deliver_item dup x c) q b) y) = cc_session (b_ctxs b y)"
    "open_channel y (fold (deliver_item dup x c) q b) = open_channel y b"
    "b_retains (fold (deliver_item dup x c) q b) = b_retains b" "b_sess (fold (deliver_item dup x c) q b) = b_sess b"
    by (induction q arbitrary: b) simp_all
qed

lemma subscribe_entry_sends:
  assumes sub: "subscribing x c cid store b" and ch: "b_chans b c = Some ch"
  shows "\<exists>b' bytes. subscribe_entry env on_close x e b = Ok (grant_code env cid e) b' \<and> subscribing x c cid store b' \<and>
    list_all2 (carries False) (retained_for env cid (retain_all store) e) bytes \<and>
    b_chans b' c = Some (ch\<lparr>ch_transport := fold transport_asyncSend bytes (ch_transport ch)\<rparr>)"
proof (cases "isTopicFilterInvalid (se_filter e) \<or> \<not> canSubscribe (env_security env) cid (se_filter e)")
  case True
  then show ?thesis
    using sub ch by (intro exI [of _ b] exI [of _ "[]"]) (auto simp: subscribe_entry_def subscribing_def retained_for_def grant_code_def bindP_apply)
next
  case False
  obtain s v where sv: "lock_session x b = Some (s, v)" using sub by (auto simp: subscribing_def)
  define b1 where "b1 = upd_sess s (\<lambda>v. v\<lparr>s_subscriptions := update_subscription (se_filter e) (se_qos e) (s_subscriptions v)\<rparr>)
      (b\<lparr>b_topics := topic_add (b_topics b) s (se_filter e) (se_qos e)\<rparr>)"
  define q where "q = retained_for env cid (retain_all store) e"
  have code: "grant_code env cid e = qos_val (se_qos e)" "grant_code env cid e \<noteq> 0x80"
    using False by (cases "se_qos e"; simp add: grant_code_def)+
  have b1: "subscribing x c cid store b1" "b_chans b1 c = Some ch"
    using sub ch sv by (simp_all add: subscribing_def b1_def open_channel_alt lock_session_def split: option.split_asm)
  have small: "\<forall>m \<in> set q. small_msg (om_msg m)" using sub by (auto simp: q_def retained_for_def subscribing_def)
  have "forP (retain_all store) (\<lambda>m. whenP (isTopicMatchesFilter (se_filter e) (m_topic m)) (deliver on_close x m (se_qos e) True False)) =
      forP q (\<lambda>m. deliver on_close x (om_msg m) (om_granted_qos m) (om_retained m) False)"
    using code(2) by (simp add: q_def retained_for_def forP_whenP forP_map)
  then have run: "subscribe_entry env on_close x e b = Ok (grant_code env cid e) (fold (deliver_item False x c) q b1)"
    using False sub sv forP_deliver [OF small, of x b1 c on_close False] b1(1)
    by (simp add: subscribe_entry_def bindP_apply seqP_apply subscribing_def code(1) b1_def)
  obtain bytes where "list_all2 (carries False) q bytes" "b_chans (fold (deliver_item False x c) q b1) c =
      Some (ch\<lparr>ch_transport := fold transport_asyncSend bytes (ch_transport ch)\<rparr>)"
    using deliver_items_chan [OF small b1(2)] by blast
  moreover have "subscribing x c cid store (fold (deliver_item False x c) q b1)"
    using b1(1) by (simp add: subscribing_def deliver_items_rest lock_session_def split: option.splits)
  ultimately show ?thesis using run by (auto simp: q_def)
qed


lemma subscribe_loop_sends:
  assumes "subscribing x c cid store b" "b_chans b c = Some ch"
  shows "\<exists>b' bytes. subscribe_loop env on_close x es granted b = Ok (granted @ map (grant_code env cid) es) b' \<and>
    subscribing x c cid store b' \<and> list_all2 (carries False) (concat (map (retained_for env cid (retain_all store)) es)) bytes \<and>
    b_chans b' c = Some (ch\<lparr>ch_transport := fold transport_asyncSend bytes (ch_transport ch)\<rparr>)"
  using assms
proof (induction es arbitrary: b ch granted)
  case Nil
  then show ?case by (intro exI [of _ b] exI [of _ "[]"]) simp
next
  case (Cons e es)
  obtain b1 bs1 where b1: "subscribe_entry env on_close x e b = Ok (grant_code env cid e) b1" "subscribing x c cid store b1"
      "list_all2 (carries False) (retained_for env cid (retain_all store) e) bs1"
      "b_chans b1 c = Some (ch\<lparr>ch_transport := fold transport_asyncSend bs1 (ch_transport ch)\<rparr>)"
    using subscribe_entry_sends [OF Cons.prems] by blast
  obtain b2 bs2 where "subscribe_loop env on_close x es (granted @ [grant_code env cid e]) b1 =
        Ok (granted @ map (grant_code env cid) (e # es)) b2" "subscribing x c cid store b2"
      "list_all2 (carries False) (concat (map (retained_for env cid (retain_all store)) es)) bs2"
      "b_chans b2 c = Some (ch\<lparr>ch_transport := fold transport_asyncSend (bs1 @ bs2) (ch_transport ch)\<rparr>)"
    using Cons.IH [OF b1(2,4), of "granted @ [grant_code env cid e]"] by auto
  then show ?case using b1(1,3) by (intro exI [of _ b2] exI [of _ "bs1 @ bs2"]) (simp add: bindP_apply list_all2_appendI)
qed

text \<open>
  C16. A new subscription receives the retained messages. What a SUBSCRIBE on an open connection
  hands to the transport is, for every granted entry in the order of the packet, one PUBLISH for
  each retained message whose topic matches the filter, in the order of the store, with the retain
  flag set and the lower of the two qualities of service, and SUBACK after them; a refused entry
  brings nothing.
\<close>

theorem subscribe_sends_retained:
  assumes inv: "broker_inv b" and client: "cc_connected (b_ctxs b x)" "lock_session x b = Some (s, v)"
    and ch: "lock_channel x b = Some (c, ch)" "\<not> ch_closing ch"
    and pkt: "pkt_body pkt = SubscribeBody sub" "sub_entries sub \<noteq> []"
  defines "cid \<equiv> cc_client_id (b_ctxs b x)"
  shows "\<exists>b' ch' retained suback. SubscribeHandler env on_close x pkt b = Ok () b' \<and>
    list_all2 (carries False) (concat (map (retained_for env cid (retain_all (b_retains b))) (sub_entries sub))) retained \<and>
    encode (suback_packet (sub_packet_id sub) (map (grant_code env cid) (sub_entries sub))) [] = Ret (True, suback) \<and>
    b_chans b' c = Some ch' \<and> ch_transport ch' = fold transport_asyncSend (retained @ [suback]) (ch_transport ch)"
proof -
  let ?suback = "suback_packet (sub_packet_id sub) (map (grant_code env cid) (sub_entries sub))"
  have chan: "cc_channel (b_ctxs b x) = Some c" "b_chans b c = Some ch"
    using ch(1) by (auto simp: lock_channel_def split: option.splits)
  have start: "subscribing x c cid (b_retains b) b"
    using inv client(2) chan ch(2) by (simp add: subscribing_def cid_def open_channel_alt broker_inv_def retains_ok_def)
  obtain b1 bytes where b1: "subscribe_loop env on_close x (sub_entries sub) [] b = Ok (map (grant_code env cid) (sub_entries sub)) b1"
      "subscribing x c cid (b_retains b) b1"
      "list_all2 (carries False) (concat (map (retained_for env cid (retain_all (b_retains b))) (sub_entries sub))) bytes"
      "b_chans b1 c = Some (ch\<lparr>ch_transport := fold transport_asyncSend bytes (ch_transport ch)\<rparr>)"
    using subscribe_loop_sends [OF start chan(2), of env on_close "sub_entries sub" "[]"] by auto
  obtain suback where suback: "encode ?suback [] = Ret (True, suback)" using sendable_suback unfolding sendable_def by blast
  have "SubscribeHandler env on_close x pkt b = Ok () (send_bytes c ?suback b1)"
    using client pkt b1(1,2) by (simp add: SubscribeHandler_def bindP_apply send_reply_eq [OF sendable_suback] reply_def subscribing_def)
  then show ?thesis
    using b1(3,4) suback by (intro exI [of _ "send_bytes c ?suback b1"] exI [of _ _] exI [of _ bytes] exI [of _ suback])
      (auto simp: send_bytes_chan [OF suback])
qed

text \<open>The demonstration broker with one retained message.\<close>

definition demo_retaining :: Broker where
  "demo_retaining = demo_broker\<lparr>b_retains := \<lparr>rs_messages = [demo_msg], rs_idx = [m_topic demo_msg \<mapsto> 0]\<rparr>\<rparr>"

lemma demo_retaining_inv: "broker_inv demo_retaining"
  using demo_inv demo_topic(2) by (simp add: demo_retaining_def broker_inv_def retains_ok_def retain_inv_def retain_all_def)

theorem subscribe_sends_retained_witness:
  "\<exists>b' ch' bytes. SubscribeHandler demo_env (onClose (Suc 0) demo_env) 1
      \<lparr>pkt_type = Subscribe, pkt_body = SubscribeBody \<lparr>sub_packet_id = 7, sub_entries = [\<lparr>se_filter = ''a/#'', se_qos = AtLeastOnce\<rparr>]\<rparr>\<rparr>
      demo_retaining = Ok () b' \<and>
    carries False \<lparr>om_msg = demo_msg, om_granted_qos = AtLeastOnce, om_retained = True\<rparr> bytes \<and>
    b_chans b' 0 = Some ch' \<and> ch_transport ch' = transport_asyncSend [0x90, 3, 0, 7, 1] (transport_asyncSend bytes transport_new)"
proof -
  let ?sub = "\<lparr>sub_packet_id = 7, sub_entries = [\<lparr>se_filter = ''a/#'', se_qos = AtLeastOnce\<rparr>]\<rparr>"
  have ctx: "cc_connected (b_ctxs demo_retaining 1)" "lock_session 1 demo_retaining = Some (2, demo_session ''a'')"
      "lock_channel 1 demo_retaining = Some (0, channel_new 64 0)"
    by (simp_all add: demo_retaining_def demo_broker_def demo_client_def lock_session_def lock_channel_def new_context_def)
  have code: "grant_code demo_env cid \<lparr>se_filter = ''a/#'', se_qos = AtLeastOnce\<rparr> = 1" for cid
    using sample_filters
    by (simp add: grant_code_def demo_env_def canSubscribe_def registerSecurity_def addAuthenticator_def addAuthorizer_def
        SecurityChain_empty_def AllowAllAuthorizer_def isTopicFilterInvalid_def)
  have match: "isTopicMatchesFilter ''a/#'' (m_topic demo_msg)" by code_simp
  have suback: "encode (suback_packet 7 [1]) [] = Ret (True, [0x90, 3, 0, 7, 1])" by code_simp
  show ?thesis
    using subscribe_sends_retained [OF demo_retaining_inv ctx(1-3), of "\<lparr>pkt_type = Subscribe, pkt_body = SubscribeBody ?sub\<rparr>" ?sub
        demo_env "onClose (Suc 0) demo_env"] match suback
    by (auto simp: code retained_for_def demo_retaining_def retain_all_def channel_new_def list_all2_Cons1 simp del: onClose.simps)
qed

end
