(* ===== verification/Config.thy ===== *)
theory Config
  imports Broker_Safety "HOL-Library.AList" "HOL-Library.List_Lexorder" "HOL-Library.Char_ord"
begin

text \<open>
  The configuration file (\<open>src/common/ConfigMgr.cpp\<close>), the options of the engine
  (\<open>include/jianm/api/BrokerEngine.hpp\<close>), how \<open>main\<close> fills them and what the engine's
  constructor makes of them. The file system is an argument: the current directory, which files
  exist and what can be read from them. The lemmas show what a loaded
  configuration looks like, that printing and loading are inverse, and at which width the
  values arrive in the broker.
\<close>

section \<open>Strings of the standard library\<close>

definition find_first_not_of :: "string \<Rightarrow> string \<Rightarrow> nat option" where
  "find_first_not_of str chars =
     (let pos = length (takeWhile (\<lambda>c. c \<in> set chars) str) in if pos = length str then None else Some pos)"

definition find_last_not_of :: "string \<Rightarrow> string \<Rightarrow> nat option" where
  "find_last_not_of str chars = map_option (\<lambda>pos. length str - 1 - pos) (find_first_not_of (rev str) chars)"

definition find_char :: "string \<Rightarrow> char \<Rightarrow> nat option" where
  "find_char str c = (let pos = length (takeWhile (\<lambda>d. d \<noteq> c) str) in if pos = length str then None else Some pos)"

definition substr :: "string \<Rightarrow> nat \<Rightarrow> nat \<Rightarrow> string" where
  "substr str pos n = take n (drop pos str)"

text \<open>
  The lines a \<open>while (std::getline(file, line))\<close> loop sees: a last piece without a newline
  counts when it is not empty.
\<close>

fun getlines :: "string \<Rightarrow> string list" where
  "getlines [] = []"
| "getlines (c # cs) =
     takeWhile (\<lambda>d. d \<noteq> CHR 0x0A) (c # cs) # getlines (drop (Suc (length (takeWhile (\<lambda>d. d \<noteq> CHR 0x0A) (c # cs)))) (c # cs))"

section \<open>ConfigMgr\<close>

type_synonym Configs = "(string \<times> string) list"

definition blanks :: string where
  "blanks = [CHR '' '', CHR 0x09, CHR 0x0D, CHR 0x0A]"

definition trim :: "string \<Rightarrow> string" where
  "trim str =
     (case find_first_not_of str blanks of
        None \<Rightarrow> []
      | Some start \<Rightarrow>
          (case find_last_not_of str blanks of
             None \<Rightarrow> []
           | Some end_pos \<Rightarrow> substr str start (end_pos - start + 1)))"

text \<open>One turn of the loop over the lines; a line without \<open>=\<close> is a switch.\<close>

definition config_line :: "string \<Rightarrow> Configs \<Rightarrow> Configs" where
  "config_line raw configs =
     (let line = trim raw in
      if line = [] \<or> hd line = CHR ''#'' \<or> hd line = CHR '';'' \<or> hd line = CHR ''['' then configs
      else case find_char line CHR ''='' of
             Some delimiterPos \<Rightarrow>
               AList.update (trim (substr line 0 delimiterPos)) (trim (drop (delimiterPos + 1) line)) configs
           | None \<Rightarrow> AList.update (trim line) ''true'' configs)"

text \<open>
  Where the file is looked for, and its text: \<open>None\<close> when it is missing or cannot be opened, two
  cases that differ only in what is logged.
\<close>

record Files =
  f_current_path :: string
  f_exists :: "string \<Rightarrow> bool"
  f_text :: "string \<Rightarrow> string option"

definition configFilePath :: "Files \<Rightarrow> string" where
  "configFilePath fs =
     (let currentDir = f_current_path fs
      in if currentDir = [] \<or> last currentDir = CHR ''/'' then currentDir @ ''jianm.conf'' else currentDir @ ''/jianm.conf'')"

definition open_config :: "Files \<Rightarrow> string option" where
  "open_config fs = (if \<not> f_exists fs (configFilePath fs) then None else f_text fs (configFilePath fs))"

definition ConfigMgr :: "string option \<Rightarrow> Configs" where
  "ConfigMgr file = (case file of None \<Rightarrow> [] | Some text \<Rightarrow> fold config_line (getlines text) [])"

definition config_get :: "Configs \<Rightarrow> string \<Rightarrow> string" where
  "config_get configs key = (case map_of configs key of None \<Rightarrow> [] | Some v \<Rightarrow> v)"

definition getAll :: "Configs \<Rightarrow> (string \<times> string) list" where
  "getAll configs = sort_key fst configs"

section \<open>Options\<close>

record Options =
  o_host :: string
  o_port :: u16
  o_admin_port :: u16
  o_log_level :: string
  o_tick_interval :: u32
  o_allow_anonymous :: bool
  o_max_connections :: u32
  o_max_packet_size :: byte
  o_transport_type :: TransportType
  o_ssl_cert_path :: string
  o_ssl_key_path :: string
  o_enable_websocket :: bool

definition default_options :: Options where
  "default_options = \<lparr>o_host = ''0.0.0.0'', o_port = 1883, o_admin_port = 10000, o_log_level = ''debug'',
     o_tick_interval = 1000, o_allow_anonymous = True, o_max_connections = 1024, o_max_packet_size = 16,
     o_transport_type = tcp, o_ssl_cert_path = [], o_ssl_key_path = [], o_enable_websocket = False\<rparr>"

definition DEFAULT_SERVER_PORT :: int where "DEFAULT_SERVER_PORT = 1883"
definition DEFAULT_ADMIN_PORT :: int where "DEFAULT_ADMIN_PORT = 10000"
definition DEFAULT_MAX_CONNECTIONS :: u32 where "DEFAULT_MAX_CONNECTIONS = 1024"
definition DEFAULT_MAX_PACKET_SIZE :: int where "DEFAULT_MAX_PACKET_SIZE = 16"

definition value_or :: "'a option \<Rightarrow> 'a \<Rightarrow> 'a" where
  "value_or o' d = (case o' of None \<Rightarrow> d | Some v \<Rightarrow> v)"

text \<open>The \<open>int\<close> values are stored in fields of 16 and 8 bits.\<close>

definition loadGlobalConfig :: "Configs \<Rightarrow> Options" where
  "loadGlobalConfig configs = default_options
     \<lparr>o_port := word_of_int (value_or (parse_int (config_get configs ''port'')) DEFAULT_SERVER_PORT),
      o_admin_port := word_of_int (value_or (parse_int (config_get configs ''admin_port'')) DEFAULT_ADMIN_PORT),
      o_allow_anonymous := value_or (parse_bool (config_get configs ''allow_anonymous'')) True,
      o_max_connections := value_or (parse_uint32 (config_get configs ''max_connections'')) DEFAULT_MAX_CONNECTIONS,
      o_max_packet_size := word_of_int (value_or (parse_int (config_get configs ''max_packet_size'')) DEFAULT_MAX_PACKET_SIZE)\<rparr>"

record FactoryConfig =
  fc_type :: TransportType
  fc_ssl_cert_path :: string
  fc_ssl_key_path :: string
  fc_enable_websocket :: bool

definition makeFactoryConfig :: "Options \<Rightarrow> FactoryConfig" where
  "makeFactoryConfig opts = \<lparr>fc_type = o_transport_type opts, fc_ssl_cert_path = o_ssl_cert_path opts,
     fc_ssl_key_path = o_ssl_key_path opts, fc_enable_websocket = o_enable_websocket opts\<rparr>"

text \<open>
  The receive buffer of a channel: \<open>buffer_.resize(configSize)\<close> converts a negative size to a
  huge \<open>size_t\<close> and throws.
\<close>

definition receive_buffer_size :: "Configs \<Rightarrow> nat outcome" where
  "receive_buffer_size configs =
     (let configSize = value_or (parse_int (config_get configs ''max_receive_size'')) (int DEFAULT_BUFFER_SIZE)
      in if configSize < 0 then Throw ''length_error'' else Ret (nat configSize))"

text \<open>
  What the constructor of \<open>BrokerEngine::Impl\<close> sets up for the rest of the broker;
  \<open>max_packet_size * 1024 * 1024\<close> is computed in \<open>int\<close>, where it fits.
\<close>

definition engine_env :: "Options \<Rightarrow> nat \<Rightarrow> HookRegistry \<Rightarrow> (string list \<Rightarrow> string list) \<Rightarrow> Env" where
  "engine_env opts buffer_size hooks order =
     \<lparr>env_security = registerSecurity (o_allow_anonymous opts) SecurityChain_empty, env_hooks = hooks,
      env_MaxConnections = o_max_connections opts,
      env_MaxPacketSize = word_of_int (uint (o_max_packet_size opts) * 1024 * 1024), env_order = order,
      env_transport_type = fc_type (makeFactoryConfig opts), env_max_receive_size = buffer_size\<rparr>"

definition log_settings :: "Configs \<Rightarrow> string \<times> string" where
  "log_settings configs =
     (let logLevel = config_get configs ''log_level''; logOutput = config_get configs ''log_output''
      in (if logLevel = [] then ''debug'' else logLevel, if logOutput = [] then ''console'' else logOutput))"

section \<open>Trimming\<close>

abbreviation blank :: "char \<Rightarrow> bool" where
  "blank c \<equiv> c \<in> set blanks"

text \<open>A string with nothing to trim.\<close>

definition trimmed :: "string \<Rightarrow> bool" where
  "trimmed s \<longleftrightarrow> s \<noteq> [] \<longrightarrow> \<not> blank (hd s) \<and> \<not> blank (last s)"

lemma trim_eq: "trim s = rev (dropWhile blank (rev (dropWhile blank s)))"
proof (cases "\<forall>c \<in> set s. blank c")
  case True
  then have all: "takeWhile blank s = s" "dropWhile blank s = []" by (simp_all add: takeWhile_eq_all_conv)
  show ?thesis unfolding trim_def find_first_not_of_def Let_def all by simp
next
  case False
  define lead where "lead = takeWhile blank s"
  define core where "core = dropWhile blank s"
  have s: "s = lead @ core" and core: "\<not> (\<forall>c \<in> set core. blank c)"
    using False by (auto simp: lead_def core_def) (metis in_set_conv_decomp set_takeWhileD takeWhile_dropWhile_id Un_iff set_append)
  define tail where "tail = takeWhile blank (rev core)"
  have tail: "takeWhile blank (rev s) = tail"
    using core by (auto simp: s tail_def takeWhile_append1)
  have "length tail < length core"
    using core takeWhile_eq_all_conv [of blank "rev core"] length_takeWhile_le [of blank "rev core"]
    by (metis (full_types) tail_def length_rev le_neq_implies_less set_rev takeWhile_eq_take take_all_iff order_refl)
  then have "trim s = take (length core - length tail) core"
    using tail by (simp add: trim_def find_first_not_of_def find_last_not_of_def substr_def Let_def
        flip: lead_def) (simp add: s Suc_diff_Suc)
  also have "\<dots> = rev (dropWhile blank (rev core))"
    by (simp add: dropWhile_eq_drop tail_def rev_drop flip: tail_def)
  finally show ?thesis by (simp add: core_def)
qed

lemma trimmed_trim: "trimmed (trim s)"
proof -
  have "\<not> blank (hd (dropWhile blank (rev (dropWhile blank s))))" if "dropWhile blank (rev (dropWhile blank s)) \<noteq> []"
    using hd_dropWhile [OF that] .
  moreover have "\<not> blank (hd (trim s))" if "trim s \<noteq> []"
  proof -
    obtain t where t: "dropWhile blank s = trim s @ t"
      unfolding trim_eq by (metis rev_append rev_rev_ident takeWhile_dropWhile_id)
    then have "dropWhile blank s \<noteq> []" "hd (dropWhile blank s) = hd (trim s)" using that by auto
    then show ?thesis using hd_dropWhile by metis
  qed
  ultimately show ?thesis by (simp add: trimmed_def trim_eq last_rev)
qed

lemma set_trim: "set (trim s) \<subseteq> set s"
  unfolding trim_eq by (auto dest!: set_dropWhileD)

lemma trim_pad:
  assumes "trimmed s" "\<forall>c \<in> set pre. blank c" "\<forall>c \<in> set post. blank c"
  shows "trim (pre @ s @ post) = s"
proof (cases "s = []")
  case True
  have none: "dropWhile blank (pre @ post) = []" using assms by auto
  show ?thesis unfolding True trim_eq append_Nil none by simp
next
  case False
  then have "dropWhile blank (pre @ s @ post) = s @ post"
    using assms by (cases s) (auto simp: dropWhile_append2 trimmed_def)
  moreover have "dropWhile blank (rev post @ rev s) = dropWhile blank (rev s)"
    using assms(3) by (intro dropWhile_append2) simp
  moreover have "dropWhile blank (rev s) = rev s"
    using assms(1) False by (cases s rule: rev_cases) (simp_all add: trimmed_def)
  ultimately show ?thesis by (simp add: trim_eq)
qed

lemma trim_id: "trimmed s \<Longrightarrow> trim s = s"
  using trim_pad [of s "[]" "[]"] by simp

section \<open>What the loader leaves\<close>

definition key_ok :: "string \<Rightarrow> bool" where
  "key_ok k \<longleftrightarrow> trimmed k \<and> CHR ''='' \<notin> set k \<and> CHR 0x0A \<notin> set k \<and>
     (k \<noteq> [] \<longrightarrow> hd k \<notin> {CHR ''#'', CHR '';'', CHR ''[''})"

definition value_ok :: "string \<Rightarrow> bool" where
  "value_ok v \<longleftrightarrow> trimmed v \<and> CHR 0x0A \<notin> set v"

definition configs_ok :: "Configs \<Rightarrow> bool" where
  "configs_ok configs \<longleftrightarrow> distinct (map fst configs) \<and> (\<forall>(k, v) \<in> set configs. key_ok k \<and> value_ok v)"

lemma configs_ok_Nil: "configs_ok []"
  by (simp add: configs_ok_def)

lemma set_alist_update: "set (AList.update k v c) \<subseteq> insert (k, v) (set c)"
  by (induction c) auto

lemma configs_ok_update:
  "configs_ok c \<Longrightarrow> key_ok k \<Longrightarrow> value_ok v \<Longrightarrow> configs_ok (AList.update k v c)"
  unfolding configs_ok_def using set_alist_update [of k v c] by (fastforce simp: distinct_update)

lemma length_takeWhile_eq: "length (takeWhile P s) = length s \<longleftrightarrow> (\<forall>c \<in> set s. P c)"
  by (induction s) auto

lemma notin_takeWhile: "c \<notin> set (takeWhile (\<lambda>d. d \<noteq> c) s)"
  by (auto dest: set_takeWhileD)

lemma find_char_Some: "find_char s c = Some i \<longleftrightarrow> c \<in> set s \<and> i = length (takeWhile (\<lambda>d. d \<noteq> c) s)"
  by (auto simp: find_char_def Let_def length_takeWhile_eq)

lemma find_char_None: "find_char s c = None \<longleftrightarrow> c \<notin> set s"
  by (auto simp: find_char_def Let_def length_takeWhile_eq)

lemma hd_trim_prefix:
  assumes "trimmed l" "trim (take n l) \<noteq> []"
  shows "hd (trim (take n l)) = hd l"
proof -
  have l: "l \<noteq> []" "n \<noteq> 0" using assms(2) by (auto simp: trim_eq intro: ccontr)
  then have "\<not> blank (hd (take n l))" using assms(1) by (simp add: trimmed_def hd_take)
  then have "dropWhile blank (take n l) = take n l" by (cases "take n l") auto
  then obtain t where "take n l = trim (take n l) @ t"
    unfolding trim_eq by (metis rev_append rev_rev_ident takeWhile_dropWhile_id)
  then show ?thesis using assms(2) using l by (metis hd_append2 hd_take gr_zeroI)
qed

lemma configs_ok_line:
  assumes "configs_ok c" "CHR 0x0A \<notin> set raw"
  shows "configs_ok (config_line raw c)"
proof -
  define line where "line = trim raw"
  have line: "trimmed line" "CHR 0x0A \<notin> set line"
    using trimmed_trim set_trim assms(2) by (auto simp: line_def)
  have keyed: "key_ok (trim (take n line))" if "CHR ''='' \<notin> set (take n line)" "hd line \<notin> {CHR ''#'', CHR '';'', CHR ''[''}" for n
    using that line trimmed_trim set_trim [of "take n line"] set_take_subset [of n line] hd_trim_prefix [OF line(1), of n]
    by (auto simp: key_ok_def)
  show ?thesis
  proof (cases "line = [] \<or> hd line \<in> {CHR ''#'', CHR '';'', CHR ''[''}")
    case True
    then show ?thesis using assms(1) by (auto simp: config_line_def Let_def simp flip: line_def)
  next
    case False
    show ?thesis
    proof (cases "find_char line CHR ''=''")
      case None
      then have "key_ok (trim line)" using keyed [of "length line"] False by (simp add: find_char_None)
      moreover have "value_ok ''true''" by (simp add: value_ok_def trimmed_def blanks_def)
      ultimately show ?thesis
        using None False assms(1) by (simp add: config_line_def Let_def configs_ok_update flip: line_def)
    next
      case (Some i)
      then have "take i line = takeWhile (\<lambda>d. d \<noteq> CHR ''='') line" by (simp add: find_char_Some flip: takeWhile_eq_take)
      then have "CHR ''='' \<notin> set (take i line)" using notin_takeWhile by simp
      then have "key_ok (trim (take i line))" using keyed False by simp
      moreover have "value_ok (trim (drop (i + 1) line))"
        using trimmed_trim set_trim [of "drop (i + 1) line"] line(2) set_drop_subset [of "i + 1" line]
        by (auto simp: value_ok_def)
      ultimately show ?thesis
        using Some False assms(1) by (simp add: config_line_def Let_def configs_ok_update substr_def flip: line_def)
    qed
  qed
qed

lemma getlines_no_newline: "l \<in> set (getlines s) \<Longrightarrow> CHR 0x0A \<notin> set l"
proof (induction s rule: getlines.induct)
  case (2 c cs)
  show ?case
  proof (cases "l = takeWhile (\<lambda>d. d \<noteq> CHR 0x0A) (c # cs)")
    case True
    show ?thesis unfolding True by (rule notin_takeWhile)
  next
    case False
    then show ?thesis using 2 by (metis getlines.simps(2) set_ConsD)
  qed
qed simp

lemma configs_ok_ConfigMgr: "configs_ok (ConfigMgr file)"
proof -
  have "configs_ok (fold config_line ls c)" if "configs_ok c" "\<forall>l \<in> set ls. CHR 0x0A \<notin> set l" for ls c
    using that by (induction ls arbitrary: c) (simp_all add: configs_ok_line)
  then show ?thesis
    using getlines_no_newline by (auto simp: ConfigMgr_def configs_ok_Nil split: option.split)
qed

section \<open>Printing and loading\<close>

text \<open>The lines in which an entry can be written: any blanks around key and value.\<close>

lemma config_line_entry:
  assumes "key_ok k" "value_ok v"
    and b: "\<forall>c \<in> set b1. blank c" "\<forall>c \<in> set b2. blank c" "\<forall>c \<in> set b3. blank c" "\<forall>c \<in> set b4. blank c"
  shows "config_line (b1 @ k @ b2 @ CHR ''='' # b3 @ v @ b4) c = AList.update k v c"
proof -
  define p where "p = (if k = [] then [] else k @ b2)"
  define q where "q = (if v = [] then [] else b3 @ v)"
  define line where "line = p @ CHR ''='' # q"
  have kv: "trimmed k" "CHR ''='' \<notin> set k" "trimmed v" using assms by (simp_all add: key_ok_def value_ok_def)
  have eq: "\<not> blank CHR ''=''" by (simp add: blanks_def)
  have line: "trimmed line"
    using kv eq by (auto simp: line_def p_def q_def trimmed_def)
  have raw: "b1 @ k @ b2 @ CHR ''='' # b3 @ v @ b4 =
      (if k = [] then b1 @ b2 else b1) @ line @ (if v = [] then b3 @ b4 else b4)"
    by (simp add: line_def p_def q_def)
  have trim: "trim (b1 @ k @ b2 @ CHR ''='' # b3 @ v @ b4) = line"
    unfolding raw using b by (intro trim_pad line) auto
  have p: "CHR ''='' \<notin> set p" using kv(2) b(2) eq by (auto simp: p_def)
  then have "takeWhile (\<lambda>d. d \<noteq> CHR ''='') line = p" unfolding line_def by (subst takeWhile_append2) auto
  then have pos: "find_char line CHR ''='' = Some (length p)"
    by (simp add: find_char_Some) (simp add: line_def)
  have "hd line = (if k = [] then CHR ''='' else hd k)" by (simp add: line_def p_def)
  then have front: "line \<noteq> []" "hd line \<noteq> CHR ''#''" "hd line \<noteq> CHR '';''" "hd line \<noteq> CHR ''[''"
    using assms(1) by (auto simp: key_ok_def line_def)
  have "trim p = k" "trim q = v"
    using trim_pad [OF kv(1), of "[]" b2] trim_pad [OF kv(3), of b3 "[]"] b kv trim_id by (auto simp: p_def q_def)
  then show ?thesis
    using front pos trim by (simp add: config_line_def Let_def substr_def) (simp add: line_def)
qed

lemma getlines_append:
  assumes "CHR 0x0A \<notin> set l"
  shows "getlines (l @ CHR 0x0A # r) = l # getlines r"
proof -
  have "takeWhile (\<lambda>d. d \<noteq> CHR 0x0A) (l @ CHR 0x0A # r) = l"
    using assms by (subst takeWhile_append2) auto
  then show ?thesis
    by (cases l) (simp_all del: takeWhile.simps)
qed

lemma fold_update_distinct:
  "distinct (map fst (c @ kvs)) \<Longrightarrow> fold (\<lambda>(k, v). AList.update k v) kvs c = c @ kvs"
proof (induction kvs arbitrary: c)
  case (Cons kv kvs)
  obtain k v where kv: "kv = (k, v)" by force
  have "AList.update k v c = c @ [kv]" if "k \<notin> fst ` set c" for c :: "('a \<times> 'b) list"
    using that by (induction c) (auto simp: kv)
  then show ?case using Cons.prems Cons.IH [of "c @ [kv]"] by (simp add: kv)
qed simp

lemma configs_ok_getAll: "configs_ok c \<Longrightarrow> configs_ok (getAll c)"
  by (simp add: configs_ok_def getAll_def distinct_map)

lemma getAll_getAll [simp]: "getAll (getAll c) = getAll c"
  by (simp add: getAll_def sort_key_id_if_sorted)

lemma config_get_getAll: "configs_ok c \<Longrightarrow> config_get (getAll c) k = config_get c k"
proof -
  assume "configs_ok c"
  then have "distinct (map fst c)" "distinct (map fst (getAll c))"
    using configs_ok_getAll by (auto simp: configs_ok_def)
  then have "map_of (getAll c) = map_of c" by (intro map_of_inject_set [THEN iffD2]) (auto simp: getAll_def)
  then show ?thesis by (simp add: config_get_def)
qed

section \<open>The width of the values\<close>

lemma parse_int_to_string: "parse_int (to_string n) = (if n \<le> 2147483647 then Some (int n) else None)"
  by (simp add: parse_int_def stoi_to_string)

lemma parse_uint32_to_string: "parse_uint32 (to_string n) = (if n \<le> 2147483647 then Some (of_nat n) else None)"
  by (simp add: parse_uint32_def stoi_to_string)

lemma parse_int_Nil: "parse_int [] = None"
  by (simp add: parse_int_def stoi_def)

lemma mebibytes:
  assumes "k < 256"
  shows "unat (word_of_int (int k * 1024 * 1024) :: u32) = k * 1048576"
proof -
  have "(word_of_int (int k * 1024 * 1024) :: u32) = word_of_int (int (k * 1048576))" by simp
  also have "\<dots> = of_nat (k * 1048576)" by (simp del: of_nat_mult)
  also have "unat \<dots> = k * 1048576" using assms by (intro unat_of_nat_u32) simp
  finally show ?thesis .
qed

text \<open>
  C31. A numeric setting written in decimal reaches the broker reduced to the width of its
  field: the port modulo 65536 and the packet limit modulo 256 mebibytes, so that
  \<open>max_packet_size = 256\<close> admits no packet at all; a number above the range of \<open>int\<close> is
  ignored and the default is used.
\<close>

theorem option_widths:
  assumes "config_get configs ''port'' = to_string p" "config_get configs ''max_packet_size'' = to_string m"
    "config_get configs ''max_connections'' = to_string c"
  shows "unat (o_port (loadGlobalConfig configs)) = (if p \<le> 2147483647 then p mod 65536 else 1883) \<and>
    unat (env_MaxPacketSize (engine_env (loadGlobalConfig configs) buf hooks order)) =
      (if m \<le> 2147483647 then m mod 256 else 16) * 1048576 \<and>
    unat (env_MaxConnections (engine_env (loadGlobalConfig configs) buf hooks order)) = (if c \<le> 2147483647 then c else 1024)"
proof (intro conjI)
  let ?opts = "loadGlobalConfig configs"
  show "unat (o_port ?opts) = (if p \<le> 2147483647 then p mod 65536 else 1883)"
    using assms by (simp add: loadGlobalConfig_def parse_int_to_string value_or_def DEFAULT_SERVER_PORT_def unat_of_nat)
  show "unat (env_MaxConnections (engine_env ?opts buf hooks order)) = (if c \<le> 2147483647 then c else 1024)"
    using assms by (simp add: loadGlobalConfig_def parse_uint32_to_string value_or_def engine_env_def
        DEFAULT_MAX_CONNECTIONS_def unat_of_nat)
  have "uint (o_max_packet_size ?opts) = (if m \<le> 2147483647 then int m mod 256 else 16)"
    using assms by (simp add: loadGlobalConfig_def parse_int_to_string value_or_def DEFAULT_MAX_PACKET_SIZE_def uint_word_of_int)
  then have limit: "uint (o_max_packet_size ?opts) = int (if m \<le> 2147483647 then m mod 256 else 16)"
    by (simp add: zmod_int)
  have "(if m \<le> 2147483647 then m mod 256 else 16) < (256::nat)" by simp
  then show "unat (env_MaxPacketSize (engine_env ?opts buf hooks order)) =
      (if m \<le> 2147483647 then m mod 256 else 16) * 1048576"
    unfolding engine_env_def limit using mebibytes by simp
qed

theorem option_widths_witness:
  "unat (env_MaxPacketSize (engine_env (loadGlobalConfig
     [(''port'', ''70000''), (''max_packet_size'', ''256''), (''max_connections'', ''9999999999'')]) 64 [] (\<lambda>x. x))) = 0"
proof -
  have "char_of (48::nat) = CHR ''0''" "char_of (50::nat) = CHR ''2''" "char_of (53::nat) = CHR ''5''"
      "char_of (54::nat) = CHR ''6''" "char_of (55::nat) = CHR ''7''" "char_of (57::nat) = CHR ''9''"
    using char_of_char [of "CHR ''0''"] char_of_char [of "CHR ''2''"] char_of_char [of "CHR ''5''"]
      char_of_char [of "CHR ''6''"] char_of_char [of "CHR ''7''"] char_of_char [of "CHR ''9''"] by simp_all
  then have "to_string 70000 = ''70000''" "to_string 256 = ''256''" "to_string 9999999999 = ''9999999999''"
    by (simp_all add: to_string.simps)
  then show ?thesis
    using option_widths [of "[(''port'', ''70000''), (''max_packet_size'', ''256''), (''max_connections'', ''9999999999'')]"
        70000 256 9999999999 64 "[]" "\<lambda>x. x"]
    by (simp add: config_get_def)
qed

end
