(* ===== verification/Admin.thy ===== *)
theory Admin
  imports Config
begin

text \<open>
  The administration console (\<open>src/management/AdminSession.cpp\<close>): the line protocol of one
  session. Commands read the broker and the configuration and change neither.

  \<open>doWrite\<close> hands \<open>async_write\<close> a buffer over a temporary string, which is gone when the command
  returns to the event loop. What the socket does with it is an argument: it takes the whole
  text at once, fails, or leaves some of it for later. In the last case the event loop goes on
  with a write from a string that no longer exists, unless the socket is closed before.
\<close>

datatype WriteResult = taken | failed | later

type_synonym socket_write = "string list \<Rightarrow> string \<Rightarrow> WriteResult" \<comment> \<open>after these texts, this one\<close>

record AdminSession =
  as_readBuf :: string
  as_peer :: string
  as_open :: bool
  as_writes :: "string list"
  as_pending :: bool

definition crlf :: string where
  "crlf = [CHR 0x0D, CHR 0x0A]"

text \<open>
  \<open>as_writes\<close> are the texts the socket has taken, \<open>as_pending\<close> says that it holds the buffer of a
  write that is not complete; a write behind such a one is left for later as well. A write on a
  closed socket fails, and the handler of a write that failed closes the socket.
\<close>

definition doWrite :: "socket_write \<Rightarrow> string \<Rightarrow> AdminSession \<Rightarrow> AdminSession" where
  "doWrite sock msg s =
     (if \<not> as_open s then s
      else if as_pending s then s
      else case sock (as_writes s) msg of
             taken \<Rightarrow> s\<lparr>as_writes := as_writes s @ [msg]\<rparr>
           | failed \<Rightarrow> s\<lparr>as_open := False\<rparr>
           | later \<Rightarrow> s\<lparr>as_pending := True\<rparr>)"

text \<open>A handler returns to the event loop.\<close>

definition resume :: "AdminSession \<Rightarrow> AdminSession outcome" where
  "resume s = (if as_pending s then UB else Ret s)"

text \<open>\<open>AdminSession::start\<close>, with \<open>None\<close> for a \<open>remote_endpoint\<close> that throws.\<close>

definition greeting :: string where
  "greeting = ''=== Jianm Admin Console ==='' @ crlf @ ''Type 'help' for available commands.'' @ crlf @ ''> ''"

definition admin_start :: "socket_write \<Rightarrow> (string \<times> nat) option \<Rightarrow> AdminSession \<Rightarrow> AdminSession outcome" where
  "admin_start sock endpoint s =
     (case endpoint of
        None \<Rightarrow> Ret s
      | Some (address, port) \<Rightarrow> resume (doWrite sock greeting (s\<lparr>as_peer := address @ '':'' @ to_string port\<rparr>)))"

section \<open>Commands\<close>

definition cmdHelp :: "socket_write \<Rightarrow> string \<Rightarrow> AdminSession \<Rightarrow> AdminSession" where
  "cmdHelp sock args = doWrite sock (''Available commands:'' @ crlf
     @ ''  help                Show this help message'' @ crlf
     @ ''  status              Show server status'' @ crlf
     @ ''  config              Show current server configuration'' @ crlf
     @ ''  sessions            List connected MQTT sessions'' @ crlf
     @ ''  kick <client_id>    Disconnect a client session'' @ crlf
     @ ''  quit / exit         Close admin connection'' @ crlf
     @ ''> '')"

definition cmdStatus :: "socket_write \<Rightarrow> Broker \<Rightarrow> string \<Rightarrow> AdminSession \<Rightarrow> AdminSession" where
  "cmdStatus sock b args = doWrite sock (''Server status:'' @ crlf
     @ ''  Connections: '' @ to_string (connectionCount b) @ crlf
     @ ''  Sessions:    '' @ to_string (sessionCount b) @ crlf
     @ ''  Received:    '' @ to_string (unat (b_received b)) @ crlf
     @ ''  Delivered:   '' @ to_string (unat (b_delivered b)) @ crlf
     @ ''> '')"

definition config_entry :: "string \<times> string \<Rightarrow> string" where
  "config_entry kv = (case kv of (key, value) \<Rightarrow> ''  '' @ key @ '' = '' @ value @ crlf)"

definition cmdConfig :: "socket_write \<Rightarrow> Configs \<Rightarrow> string \<Rightarrow> AdminSession \<Rightarrow> AdminSession" where
  "cmdConfig sock configs args =
     (let entries = getAll configs in
      doWrite sock (''Server configuration:'' @ crlf
        @ (if entries = [] then ''  (no config loaded '' @ [CHR 0xE2, CHR 0x80, CHR 0x94] @ '' using built-in defaults)'' @ crlf
           else concat (map config_entry entries))
        @ ''> ''))"

definition cmdSessions :: "socket_write \<Rightarrow> string \<Rightarrow> AdminSession \<Rightarrow> AdminSession" where
  "cmdSessions sock args = doWrite sock (''Session listing not yet implemented.'' @ crlf @ ''> '')"

definition cmdKick :: "socket_write \<Rightarrow> string \<Rightarrow> AdminSession \<Rightarrow> AdminSession" where
  "cmdKick sock args =
     (if args = [] then doWrite sock (''Usage: kick <client_id>'' @ crlf @ ''> '')
      else doWrite sock (''Kicked session: '' @ args @ crlf @ ''> ''))"

text \<open>
  Closing the socket cancels a write that is not complete: its text is lost and its buffer not
  used again.
\<close>

definition cmdQuit :: "socket_write \<Rightarrow> string \<Rightarrow> AdminSession \<Rightarrow> AdminSession" where
  "cmdQuit sock args s = (doWrite sock (''Bye.'' @ crlf) s)\<lparr>as_open := False, as_pending := False\<rparr>"

definition registerCommands :: "socket_write \<Rightarrow> Configs \<Rightarrow> Broker \<Rightarrow> string \<rightharpoonup> (string \<Rightarrow> AdminSession \<Rightarrow> AdminSession)" where
  "registerCommands sock configs b = [''help'' \<mapsto> cmdHelp sock, ''status'' \<mapsto> cmdStatus sock b,
     ''config'' \<mapsto> cmdConfig sock configs, ''sessions'' \<mapsto> cmdSessions sock, ''kick'' \<mapsto> cmdKick sock,
     ''quit'' \<mapsto> cmdQuit sock, ''exit'' \<mapsto> cmdQuit sock]"

text \<open>
  \<open>iss >> cmd\<close> skips white space and takes the next word, \<open>std::getline\<close> the rest of the line.
\<close>

definition processCommand :: "socket_write \<Rightarrow> Configs \<Rightarrow> Broker \<Rightarrow> string \<Rightarrow> AdminSession \<Rightarrow> AdminSession" where
  "processCommand sock configs b line s =
     (if line = [] \<or> find_first_not_of line [CHR '' '', CHR 0x09] = None then doWrite sock ''> '' s
      else
        let text = dropWhile is_space line;
            cmd = takeWhile (\<lambda>c. \<not> is_space c) text;
            rest = dropWhile (\<lambda>c. \<not> is_space c) text;
            args = (case find_first_not_of rest [CHR '' '', CHR 0x09] of Some pos \<Rightarrow> drop pos rest | None \<Rightarrow> [])
        in case registerCommands sock configs b cmd of
             Some command \<Rightarrow> command args s
           | None \<Rightarrow> doWrite sock (''Unknown command: '' @ cmd @ crlf @ ''Type 'help' for available commands.'' @ crlf @ ''> '') s)"

text \<open>
  The completion handler of \<open>async_read_until\<close>: the read completes as soon as the buffer holds a
  newline, also when the socket has been closed meanwhile. \<open>None\<close> means it is still waiting.
\<close>

definition admin_line :: "string \<Rightarrow> string" where
  "admin_line line = (if line \<noteq> [] \<and> last line = CHR 0x0D then butlast line else line)"

definition on_read_line :: "socket_write \<Rightarrow> Configs \<Rightarrow> Broker \<Rightarrow> AdminSession \<Rightarrow> AdminSession outcome option" where
  "on_read_line sock configs b s =
     (case find_char (as_readBuf s) CHR 0x0A of
        None \<Rightarrow> None
      | Some pos \<Rightarrow>
          Some (resume (processCommand sock configs b (admin_line (take pos (as_readBuf s)))
            (s\<lparr>as_readBuf := drop (pos + 1) (as_readBuf s)\<rparr>))))"

text \<open>\<open>doReadLine\<close> again after every line; \<open>bs\<close> are the states of the broker at the successive lines.\<close>

fun doReadLine :: "socket_write \<Rightarrow> Configs \<Rightarrow> Broker list \<Rightarrow> AdminSession \<Rightarrow> AdminSession outcome" where
  "doReadLine sock configs [] s = Ret s"
| "doReadLine sock configs (b # bs) s =
     (case on_read_line sock configs b s of None \<Rightarrow> Ret s | Some r \<Rightarrow> bind_out r (doReadLine sock configs bs))"

section \<open>One answer per line\<close>

text \<open>The command word of a line, and the lines that end the session.\<close>

definition command_word :: "string \<Rightarrow> string" where
  "command_word line = takeWhile (\<lambda>c. \<not> is_space c) (dropWhile is_space line)"

definition quits :: "string \<Rightarrow> bool" where
  "quits line \<longleftrightarrow> command_word (admin_line line) \<in> {''quit'', ''exit''}"

definition fresh_admin :: "string \<Rightarrow> AdminSession" where
  "fresh_admin buf = \<lparr>as_readBuf = buf, as_peer = [], as_open = True, as_writes = [], as_pending = False\<rparr>"

text \<open>The answer to one line on its own, on a socket that takes everything.\<close>

definition admin_reply :: "Configs \<Rightarrow> Broker \<Rightarrow> string \<Rightarrow> string" where
  "admin_reply configs b line = hd (as_writes (processCommand (\<lambda>_ _. taken) configs b (admin_line line) (fresh_admin [])))"

text \<open>The longest prefix of some texts that a socket takes at once, one after the other.\<close>

fun taken_prefix :: "socket_write \<Rightarrow> string list \<Rightarrow> string list \<Rightarrow> string list" where
  "taken_prefix sock ws [] = []"
| "taken_prefix sock ws (r # rs) = (if sock ws r = taken then r # taken_prefix sock (ws @ [r]) rs else [])"

text \<open>A command that writes one text, and closes the session when \<open>quit\<close> holds.\<close>

definition closed_by :: "bool \<Rightarrow> AdminSession \<Rightarrow> AdminSession" where
  "closed_by quit s = (if quit then s\<lparr>as_open := False, as_pending := False\<rparr> else s)"

definition answers :: "bool \<Rightarrow> string \<Rightarrow> (socket_write \<Rightarrow> AdminSession \<Rightarrow> AdminSession) \<Rightarrow> bool" where
  "answers quit reply f \<longleftrightarrow> (\<forall>sock s. f sock s = closed_by quit (doWrite sock reply s))"

lemma answers_doWrite: "answers False m (\<lambda>sock. doWrite sock m)"
  by (simp add: answers_def closed_by_def)

lemma answers_quit: "answers True (''Bye.'' @ crlf) (\<lambda>sock. cmdQuit sock args)"
  by (simp add: answers_def closed_by_def cmdQuit_def)

lemma answers_other:
  "\<exists>r. answers False r (\<lambda>sock. cmdHelp sock args)" "\<exists>r. answers False r (\<lambda>sock. cmdStatus sock b args)"
  "\<exists>r. answers False r (\<lambda>sock. cmdConfig sock configs args)" "\<exists>r. answers False r (\<lambda>sock. cmdSessions sock args)"
  "\<exists>r. answers False r (\<lambda>sock. cmdKick sock args)"
  unfolding cmdHelp_def cmdStatus_def cmdConfig_def cmdSessions_def cmdKick_def Let_def
  by (cases "args = []"; auto intro: answers_doWrite)+

lemma registered:
  "cmd \<in> {''quit'', ''exit''} \<and> (\<forall>sock. registerCommands sock configs b cmd = Some (cmdQuit sock)) \<or>
   cmd \<notin> {''quit'', ''exit''} \<and>
     ((\<forall>sock. registerCommands sock configs b cmd = None) \<or>
      (\<forall>sock. registerCommands sock configs b cmd = Some (cmdHelp sock)) \<or>
      (\<forall>sock. registerCommands sock configs b cmd = Some (cmdStatus sock b)) \<or>
      (\<forall>sock. registerCommands sock configs b cmd = Some (cmdConfig sock configs)) \<or>
      (\<forall>sock. registerCommands sock configs b cmd = Some (cmdSessions sock)) \<or>
      (\<forall>sock. registerCommands sock configs b cmd = Some (cmdKick sock)))"
  by (cases "cmd \<in> {''quit'', ''exit''}"; cases "cmd = ''help''"; cases "cmd = ''status''"; cases "cmd = ''config''";
      cases "cmd = ''sessions''"; cases "cmd = ''kick''") (auto simp: registerCommands_def)

lemma find_first_not_of_None: "find_first_not_of s cs = None \<longleftrightarrow> (\<forall>c \<in> set s. c \<in> set cs)"
  by (simp add: find_first_not_of_def Let_def length_takeWhile_eq)

lemma processCommand_answers:
  "\<exists>reply. answers (command_word line \<in> {''quit'', ''exit''}) reply (\<lambda>sock. processCommand sock configs b line) \<and>
     (command_word line \<in> {''quit'', ''exit''} \<longrightarrow> reply = ''Bye.'' @ crlf)"
proof (cases "line = [] \<or> find_first_not_of line [CHR '' '', CHR 0x09] = None")
  case True
  have "is_space c" if "c \<in> set line" for c
  proof -
    have "c \<in> set [CHR '' '', CHR 0x09]" using True that unfolding find_first_not_of_None by (metis empty_iff empty_set)
    then have "c = CHR '' '' \<or> c = CHR 0x09" by simp
    then show ?thesis by (elim disjE) (simp_all add: is_space_def)
  qed
  then have skip: "dropWhile is_space line = []" unfolding dropWhile_eq_Nil_conv by blast
  have "command_word line = []" unfolding command_word_def skip by simp
  then show ?thesis
    using True answers_doWrite [of "''> ''"] by (auto simp: answers_def processCommand_def)
next
  case False
  define rest where "rest = dropWhile (\<lambda>c. \<not> is_space c) (dropWhile is_space line)"
  define args where "args = (case find_first_not_of rest [CHR '' '', CHR 0x09] of Some pos \<Rightarrow> drop pos rest | None \<Rightarrow> [])"
  have run: "processCommand sock configs b line s =
      (case registerCommands sock configs b (command_word line) of Some command \<Rightarrow> command args s
       | None \<Rightarrow> doWrite sock (''Unknown command: '' @ command_word line @ crlf @ ''Type 'help' for available commands.'' @ crlf @ ''> '') s)" for sock s
    unfolding processCommand_def if_not_P [OF False] Let_def command_word_def args_def rest_def by (rule refl)
  show ?thesis
    using registered [of "command_word line" configs b]
  proof (elim disjE conjE)
    assume "command_word line \<in> {''quit'', ''exit''}" "\<forall>sock. registerCommands sock configs b (command_word line) = Some (cmdQuit sock)"
    then show ?thesis using answers_quit [of args] by (auto simp: answers_def run)
  qed (use answers_other [where args = args] answers_doWrite in \<open>auto simp: answers_def run\<close>)
qed

lemma processCommand_reply:
  "processCommand sock configs b (admin_line line) s = closed_by (quits line) (doWrite sock (admin_reply configs b line) s)"
  and admin_reply_quit: "quits line \<Longrightarrow> admin_reply configs b line = ''Bye.'' @ crlf"
proof -
  obtain reply where r: "\<And>sock s. processCommand sock configs b (admin_line line) s = closed_by (quits line) (doWrite sock reply s)"
      "quits line \<Longrightarrow> reply = ''Bye.'' @ crlf"
    using processCommand_answers [of "admin_line line" configs b] by (auto simp: answers_def quits_def)
  have "admin_reply configs b line = reply" by (simp add: admin_reply_def r(1) fresh_admin_def closed_by_def doWrite_def)
  then show "processCommand sock configs b (admin_line line) s = closed_by (quits line) (doWrite sock (admin_reply configs b line) s)"
    "quits line \<Longrightarrow> admin_reply configs b line = ''Bye.'' @ crlf"
    using r by simp_all
qed

lemma on_read_line_append:
  assumes "as_readBuf s = l @ CHR 0x0A # rest" "CHR 0x0A \<notin> set l"
  shows "on_read_line sock configs b s =
    Some (resume (closed_by (quits l) (doWrite sock (admin_reply configs b l) (s\<lparr>as_readBuf := rest\<rparr>))))"
proof -
  have "takeWhile (\<lambda>d. d \<noteq> CHR 0x0A) (as_readBuf s) = l"
    unfolding assms(1) using assms(2) by (subst takeWhile_append2) auto
  then have "find_char (as_readBuf s) CHR 0x0A = Some (length l)"
    using assms(1) by (simp add: find_char_Some)
  then show ?thesis using assms(1) by (simp add: on_read_line_def processCommand_reply)
qed

lemma doReadLine_closed:
  assumes "length bs = length ls" "\<forall>l \<in> set ls. CHR 0x0A \<notin> set l"
  shows "\<not> as_open s \<Longrightarrow> \<not> as_pending s \<Longrightarrow> as_readBuf s = concat (map (\<lambda>l. l @ [CHR 0x0A]) ls) \<Longrightarrow>
    doReadLine sock configs bs s = Ret (s\<lparr>as_readBuf := []\<rparr>)"
  using assms
proof (induction bs ls arbitrary: s rule: list_induct2)
  case (Cons b bs l ls)
  have same: "s\<lparr>as_readBuf := r, as_open := False, as_pending := False\<rparr> = s\<lparr>as_readBuf := r\<rparr>" for r
    using Cons.prems(1,2) by (cases s) simp
  have "on_read_line sock configs b s = Some (Ret (s\<lparr>as_readBuf := concat (map (\<lambda>l. l @ [CHR 0x0A]) ls)\<rparr>))"
    using on_read_line_append [of s l] Cons.prems by (simp add: doWrite_def closed_by_def resume_def same)
  then show ?case using Cons by simp
qed simp

text \<open>The outcome of a session whose lines have these answers, on a socket that has taken \<open>ws\<close> before.\<close>

definition answered :: "socket_write \<Rightarrow> string list \<Rightarrow> string list \<Rightarrow> bool \<Rightarrow> AdminSession outcome \<Rightarrow> bool" where
  "answered sock ws replies quit r =
     (let sent = taken_prefix sock ws replies in
      if length sent < length replies
      then case sock (ws @ sent) (replies ! length sent) of
          later \<Rightarrow> r = UB
        | _ \<Rightarrow> \<exists>s'. r = Ret s' \<and> \<not> as_open s' \<and> as_writes s' = ws @ sent
      else \<exists>s'. r = Ret s' \<and> as_open s' = (\<not> quit) \<and>
        as_writes s' = ws @ replies @ (if quit \<and> sock (ws @ replies) (''Bye.'' @ crlf) = taken then [''Bye.'' @ crlf] else []))"

lemma answered_Cons:
  "sock ws r = taken \<Longrightarrow> answered sock ws (r # rs) quit res = answered sock (ws @ [r]) rs quit res"
  by (cases "length (taken_prefix sock (ws @ [r]) rs) < length rs") (simp_all add: answered_def Let_def cong: WriteResult.case_cong)

lemma doReadLine_answered:
  assumes "length bs = length ls" "\<forall>l \<in> set ls. CHR 0x0A \<notin> set l"
    "as_open s" "\<not> as_pending s" "as_readBuf s = concat (map (\<lambda>l. l @ [CHR 0x0A]) ls)"
  shows "answered sock (as_writes s) (map2 (admin_reply configs) bs (takeWhile (\<lambda>l. \<not> quits l) ls)) (\<exists>l \<in> set ls. quits l)
    (doReadLine sock configs bs s)"
  using assms
proof (induction bs ls arbitrary: s rule: list_induct2)
  case Nil
  then show ?case by (simp add: answered_def)
next
  case (Cons b bs l ls)
  define r where "r = admin_reply configs b l"
  let ?s = "s\<lparr>as_readBuf := concat (map (\<lambda>l. l @ [CHR 0x0A]) ls)\<rparr>"
  have step: "doReadLine sock configs (b # bs) s = bind_out (resume (closed_by (quits l) (doWrite sock r ?s))) (doReadLine sock configs bs)"
    using on_read_line_append [of s l] Cons.prems by (simp add: r_def)
  have closed: "doReadLine sock configs bs s' = Ret (s'\<lparr>as_readBuf := []\<rparr>)"
    if "\<not> as_open s'" "\<not> as_pending s'" "as_readBuf s' = as_readBuf ?s" for s'
    using that Cons.hyps Cons.prems(1) by (intro doReadLine_closed [of bs ls]) simp_all
  show ?case
  proof (cases "quits l")
    case True
    then have "r = ''Bye.'' @ crlf" by (simp add: r_def admin_reply_quit)
    with True step closed show ?thesis
      using Cons.prems(2,3)
      by (cases "sock (as_writes s) r") (simp_all add: doWrite_def closed_by_def resume_def answered_def)
  next
    case open_: False
    show ?thesis
    proof (cases "sock (as_writes s) r")
      case taken
      let ?s1 = "?s\<lparr>as_writes := as_writes s @ [r]\<rparr>"
      have "doReadLine sock configs (b # bs) s = doReadLine sock configs bs ?s1"
        using step open_ taken Cons.prems(2,3) by (simp add: doWrite_def closed_by_def resume_def)
      with Cons.IH [of ?s1] Cons.prems open_ taken show ?thesis by (simp add: answered_Cons flip: r_def)
    next
      case failed
      then show ?thesis
        using step open_ closed Cons.prems(2,3) by (simp add: doWrite_def closed_by_def resume_def answered_def flip: r_def)
    next
      case later
      then show ?thesis
        using step open_ Cons.prems(2,3) by (simp add: doWrite_def closed_by_def resume_def answered_def flip: r_def)
    qed
  qed
qed

text \<open>
  C32. What the console answers. As long as the socket takes each answer at once, every line is
  answered once and in order, until a line whose first word is \<open>quit\<close> or \<open>exit\<close>: the connection
  is closed after it, its own answer is sent only if the socket takes it at once, and later lines
  that are already buffered get none. When the socket leaves an answer for later, the event loop
  goes on with the write after the text is destroyed, which is undefined behaviour; when it
  fails, the connection is closed and what was answered before is all there is.
\<close>

theorem admin_answers:
  fixes sock :: socket_write and configs :: Configs and bs :: "Broker list" and ls :: "string list" and s :: AdminSession
  assumes "length bs = length ls" "\<forall>l \<in> set ls. CHR 0x0A \<notin> set l"
    "as_open s" "\<not> as_pending s" "as_readBuf s = concat (map (\<lambda>l. l @ [CHR 0x0A]) ls)"
  defines "replies \<equiv> map2 (admin_reply configs) bs (takeWhile (\<lambda>l. \<not> quits l) ls)"
  defines "sent \<equiv> taken_prefix sock (as_writes s) replies"
  shows "if length sent < length replies
    then case sock (as_writes s @ sent) (replies ! length sent) of
        later \<Rightarrow> doReadLine sock configs bs s = UB
      | _ \<Rightarrow> \<exists>s'. doReadLine sock configs bs s = Ret s' \<and> \<not> as_open s' \<and> as_writes s' = as_writes s @ sent
    else \<exists>s'. doReadLine sock configs bs s = Ret s' \<and> as_open s' = (\<forall>l \<in> set ls. \<not> quits l) \<and>
      as_writes s' = as_writes s @ replies @
        (if (\<exists>l \<in> set ls. quits l) \<and> sock (as_writes s @ replies) (''Bye.'' @ crlf) = taken then [''Bye.'' @ crlf] else [])"
  using doReadLine_answered [OF assms(1-5), of sock configs]
  unfolding answered_def Let_def replies_def sent_def by (simp only: bex_simps not_not)

theorem admin_answers_witness:
  "(\<exists>s'. doReadLine (\<lambda>_ _. taken) [] [broker_init 0, broker_init 0, broker_init 0]
     (fresh_admin (''kick a'' @ crlf @ ''exit'' @ [CHR 0x0A] @ ''help'' @ [CHR 0x0A])) = Ret s' \<and>
     \<not> as_open s' \<and> as_writes s' = [''Kicked session: a'' @ crlf @ ''> '', ''Bye.'' @ crlf]) \<and>
   doReadLine (\<lambda>ws _. if ws = [] then later else taken) [] [broker_init 0, broker_init 0, broker_init 0]
     (fresh_admin (''kick a'' @ crlf @ ''exit'' @ [CHR 0x0A] @ ''help'' @ [CHR 0x0A])) = UB"
proof -
  let ?kick = "''kick a'' @ [CHR 0x0D]" and ?bs = "[broker_init 0, broker_init 0, broker_init 0]"
  let ?s = "fresh_admin (''kick a'' @ crlf @ ''exit'' @ [CHR 0x0A] @ ''help'' @ [CHR 0x0A])"
  have lines: "\<not> quits ?kick" "quits ''exit''"
    by (simp_all add: quits_def command_word_def admin_line_def is_space_def)
  have reply: "admin_reply [] b ?kick = ''Kicked session: a'' @ crlf @ ''> ''" for b
    by (simp add: admin_reply_def processCommand_def find_first_not_of_def registerCommands_def admin_line_def is_space_def
        cmdKick_def fresh_admin_def doWrite_def)
  have state: "as_readBuf ?s = concat (map (\<lambda>l. l @ [CHR 0x0A]) [?kick, ''exit'', ''help''])"
      "as_open ?s" "\<not> as_pending ?s" "as_writes ?s = []"
    by (simp_all add: fresh_admin_def crlf_def)
  note answers = admin_answers [OF _ _ state(2,3,1), of ?bs]
  show ?thesis
    using answers [of "\<lambda>_ _. taken" "[]"] answers [of "\<lambda>ws _. if ws = [] then later else taken" "[]"] lines reply state(4) by simp
qed

section \<open>The printed configuration\<close>

lemma load_entries:
  assumes "\<forall>(k, v) \<in> set kvs. key_ok k \<and> value_ok v"
  shows "fold config_line (getlines (concat (map config_entry kvs))) c = fold (\<lambda>(k, v). AList.update k v) kvs c"
  using assms
proof (induction kvs arbitrary: c)
  case (Cons kv kvs)
  obtain k v where kv: "kv = (k, v)" by force
  define l where "l = ''  '' @ k @ '' '' @ CHR ''='' # '' '' @ v @ [CHR 0x0D]"
  have ok: "key_ok k" "value_ok v" using Cons.prems by (auto simp: kv)
  then have nl: "CHR 0x0A \<notin> set l" by (simp add: l_def key_ok_def value_ok_def)
  have "config_entry kv = l @ [CHR 0x0A]" by (simp add: config_entry_def kv crlf_def l_def)
  then have "getlines (concat (map config_entry (kv # kvs))) = l # getlines (concat (map config_entry kvs))"
    using getlines_append [OF nl] by simp
  moreover have "config_line l c = AList.update k v c"
    unfolding l_def by (rule config_line_entry [OF ok]) (simp_all add: blanks_def)
  ultimately show ?case using Cons by (simp add: kv)
qed simp

text \<open>
  C30. The lines that the \<open>config\<close> command prints, saved as a configuration file, load to the
  same settings, whatever file the configuration came from: comments, sections, blanks,
  switches without a value and repeated keys included.
\<close>

theorem config_print_load:
  "ConfigMgr (Some (concat (map config_entry (getAll (ConfigMgr file))))) = getAll (ConfigMgr file) \<and>
   config_get (ConfigMgr (Some (concat (map config_entry (getAll (ConfigMgr file)))))) key = config_get (ConfigMgr file) key"
proof -
  have ok: "configs_ok (ConfigMgr file)" "configs_ok (getAll (ConfigMgr file))"
    by (simp_all add: configs_ok_ConfigMgr configs_ok_getAll)
  then have "ConfigMgr (Some (concat (map config_entry (getAll (ConfigMgr file))))) = getAll (ConfigMgr file)"
    using load_entries [of "getAll (ConfigMgr file)" "[]"] fold_update_distinct [of "[]" "getAll (ConfigMgr file)"]
    by (simp add: ConfigMgr_def [of "Some _"] configs_ok_def)
  then show ?thesis using ok by (simp add: config_get_getAll)
qed

end
