(* ===== verification/Lifecycle.thy ===== *)
theory Lifecycle
  imports Admin Liveness
begin

text \<open>
  The two services around the engine: the tick service (\<open>src/broker/TickServiice.hpp\<close>) and the
  console server (\<open>src/management/AdminServer.cpp\<close>). What the timer and the event loop do is
  an argument of the definitions that use it.
\<close>

section \<open>The tick service\<close>

type_synonym TickCallback = "Env \<Rightarrow> int \<Rightarrow> unit brokerP"

record TickService =
  ts_interval_ms :: int
  ts_expiry :: int
  ts_cancelled :: bool
  ts_tick_count :: u64
  ts_callbacks :: "TickCallback list"

definition TickService_new :: "int \<Rightarrow> int \<Rightarrow> TickService" where
  "TickService_new now interval_ms =
     \<lparr>ts_interval_ms = interval_ms, ts_expiry = now + interval_ms * 1000000, ts_cancelled = False, ts_tick_count = 0,
      ts_callbacks = []\<rparr>"

definition registerTask :: "TickCallback \<Rightarrow> TickService \<Rightarrow> TickService" where
  "registerTask callback ts = ts\<lparr>ts_callbacks := ts_callbacks ts @ [callback]\<rparr>"

definition setInterval :: "int \<Rightarrow> int \<Rightarrow> TickService \<Rightarrow> TickService" where
  "setInterval now interval_ms ts = ts\<lparr>ts_interval_ms := interval_ms, ts_expiry := now + interval_ms * 1000000\<rparr>"

text \<open>
  The engine's two tasks. \<open>snapshot\<close>, \<open>chan_order\<close> and \<open>pid_order\<close> are the orders in which the
  hash maps \<open>channels_\<close>, \<open>by_channel_\<close> and \<open>out_inflight\<close> of a state are iterated.
\<close>

definition registerTickTasks ::
  "nat \<Rightarrow> (Broker \<Rightarrow> chan_ref list) \<Rightarrow> (Broker \<Rightarrow> chan_ref list) \<Rightarrow> (Broker \<Rightarrow> ctx_ref \<Rightarrow> u16 list) \<Rightarrow>
   TickService \<Rightarrow> TickService" where
  "registerTickTasks n snapshot chan_order pid_order =
     registerTask (\<lambda>env now. bindP (getP chan_order) (\<lambda>channels. bindP (getP pid_order) (\<lambda>pids.
       checkRetransmission (onClose n env) now channels pids))) \<circ>
     registerTask (\<lambda>env now. bindP (getP snapshot) (\<lambda>channels. checkKeepalive (onClose n env) now channels))"

text \<open>Cancelling the timer completes the pending wait with an error.\<close>

definition tick_stop :: "TickService \<Rightarrow> TickService" where
  "tick_stop ts = ts\<lparr>ts_cancelled := True\<rparr>"

text \<open>The completion handler of \<open>async_wait\<close>; it logs an error and waits again on the same timer.\<close>

definition tick_callbacks :: "Env \<Rightarrow> int \<Rightarrow> TickCallback list \<Rightarrow> unit brokerP" where
  "tick_callbacks env now callbacks = forP callbacks (\<lambda>callback. catchP (callback env now) (\<lambda>_. returnP ()))"

definition on_tick :: "Env \<Rightarrow> int \<Rightarrow> TickService \<Rightarrow> TickService brokerP" where
  "on_tick env now ts =
     seqP (tick_callbacks env now (ts_callbacks ts))
          (returnP (ts\<lparr>ts_tick_count := ts_tick_count ts + 1, ts_cancelled := False\<rparr>))"

text \<open>
  \<open>due expiry now\<close> says whether a wait on a timer with that expiry completes at \<open>now\<close>. The ticks
  that complete at the given times, or \<open>None\<close> when one of them does not.
\<close>

fun ticks :: "(int \<Rightarrow> int \<Rightarrow> bool) \<Rightarrow> Env \<Rightarrow> int list \<Rightarrow> TickService \<Rightarrow> TickService option brokerP" where
  "ticks due env [] ts b = Ok (Some ts) b"
| "ticks due env (now # nows) ts b =
     (if ts_cancelled ts \<or> due (ts_expiry ts) now then bindP (on_tick env now ts) (ticks due env nows) b else Ok None b)"

text \<open>
  With the tasks of the engine a tick is the one of the step relation: the second task sees the
  orders of the state that the first one leaves.
\<close>

lemma tick_callbacks_doTick:
  assumes keepalive: "catchP (checkKeepalive (onClose n env) (b_now b) (snapshot b)) (\<lambda>_. returnP ()) b = Ok () b1"
  shows "tick_callbacks env (b_now b) (ts_callbacks (registerTickTasks n snapshot chan_order pid_order (TickService_new t ms))) b =
     doTick (onClose n env) (snapshot b) (chan_order b1) (pid_order b1) b"
proof -
  let ?keepalive = "catchP (checkKeepalive (onClose n env) (b_now b) (snapshot b)) (\<lambda>_. returnP ())"
  have keeps: "keeps queue_state ?keepalive" using queue.checkKeepalive_keeps by auto
  have now: "b_now b1 = b_now b"
    using keepsD(1) [OF keeps keepalive] by (simp add: queue_state_def)
  have orders: "catchP (bindP (getP chan_order) (\<lambda>channels. bindP (getP pid_order) (\<lambda>pids.
      checkRetransmission (onClose n env) t channels pids))) (\<lambda>_. returnP ()) b1 =
    catchP (checkRetransmission (onClose n env) t (chan_order b1) (pid_order b1)) (\<lambda>_. returnP ()) b1" for t
    by (simp add: catchP_def bindP_apply getP_def)
  have first: "catchP (bindP (getP snapshot) (\<lambda>channels. checkKeepalive (onClose n env) (b_now b) channels)) (\<lambda>_. returnP ()) b = Ok () b1"
    using keepalive by (simp add: catchP_def bindP_apply getP_def)
  have unit: "seqP m (returnP ()) = m" for m :: "unit brokerP"
    by (simp add: fun_eq_iff seqP_apply split: res.split)
  have read: "bindP (getP f) k s = k (f s) s" for f :: "Broker \<Rightarrow> int" and k :: "int \<Rightarrow> unit brokerP" and s
    by (simp add: bindP_apply getP_def)
  show ?thesis
    using keepalive first
    by (simp add: tick_callbacks_def registerTickTasks_def registerTask_def TickService_new_def unit seqP_apply orders
        doTick_def tick_keepalive_def tick_retransmission_def read now del: bindP_prim prog_apply)
qed

text \<open>
  The expiry is never renewed: once the first interval is over, any number of ticks complete
  at one and the same instant, whatever the interval is.
\<close>

lemma ticks_without_interval:
  assumes timer: "\<And>expiry now. expiry \<le> now \<Longrightarrow> due expiry now" and late: "ts_expiry ts \<le> now"
    and tasks: "\<And>b. \<exists>b'. tick_callbacks env now (ts_callbacks ts) b = Ok () b'"
    and "\<not> ts_cancelled ts"
  shows "\<exists>b'. ticks due env (replicate k now) ts b = Ok (Some (ts\<lparr>ts_tick_count := ts_tick_count ts + of_nat k\<rparr>)) b'"
  using late tasks assms(4)
proof (induction k arbitrary: ts b)
  case (Suc k)
  obtain b1 where b1: "tick_callbacks env now (ts_callbacks ts) b = Ok () b1" using Suc.prems(2) by blast
  have same: "ts\<lparr>ts_tick_count := n, ts_cancelled := False\<rparr> = ts\<lparr>ts_tick_count := n\<rparr>" for n
    using Suc.prems(3) by (cases ts) simp
  let ?ts = "ts\<lparr>ts_tick_count := ts_tick_count ts + 1\<rparr>"
  obtain b2 where "ticks due env (replicate k now) ?ts b1 = Ok (Some (?ts\<lparr>ts_tick_count := ts_tick_count ?ts + of_nat k\<rparr>)) b2"
    using Suc.IH [of ?ts b1] Suc.prems by auto
  then show ?case
    using Suc.prems(1,3) b1 by (simp add: timer on_tick_def bindP_apply seqP_apply add.assoc same)
qed simp

text \<open>Stopping the service causes one more tick at once, and the service goes on.\<close>

lemma tick_stop_ticks:
  assumes "tick_callbacks env now (ts_callbacks ts) b = Ok () b'" "\<not> ts_cancelled ts"
  shows "ticks due env [now] (tick_stop ts) b = Ok (Some (ts\<lparr>ts_tick_count := ts_tick_count ts + 1\<rparr>)) b'"
  using assms by (cases ts) (simp add: tick_stop_def on_tick_def bindP_apply seqP_apply)

section \<open>The console server\<close>

text \<open>
  The state of \<open>AdminServer\<close>: whether its event loop has been stopped, whether its thread runs,
  the session waiting in \<open>async_accept\<close> and the sessions that were accepted.
\<close>

record AdminServer =
  sv_stopped :: bool
  sv_thread :: bool
  sv_waiting :: "AdminSession option"
  sv_sessions :: "AdminSession list"

definition AdminServer_new :: AdminServer where
  "AdminServer_new = \<lparr>sv_stopped = False, sv_thread = False, sv_waiting = None, sv_sessions = []\<rparr>"

definition doAccept :: "AdminServer \<Rightarrow> AdminServer" where
  "doAccept sv = sv\<lparr>sv_waiting := Some (fresh_admin [])\<rparr>"

text \<open>The completion handler, with the error flag, the peer and the socket of the new connection.\<close>

type_synonym admin_accept = "bool \<times> (string \<times> nat) option \<times> socket_write"

definition on_admin_accept :: "admin_accept \<Rightarrow> AdminServer \<Rightarrow> AdminServer outcome" where
  "on_admin_accept ev sv =
     (case (ev, sv_waiting sv) of
        (_, None) \<Rightarrow> Ret sv
      | ((ec, endpoint, sock), Some session) \<Rightarrow>
          if ec then Ret (doAccept sv)
          else bind_out (admin_start sock endpoint session) (\<lambda>session.
               Ret (doAccept (sv\<lparr>sv_sessions := sv_sessions sv @ [session]\<rparr>))))"

text \<open>
  \<open>listen\<close>, the body of the thread: \<open>io_context_.run()\<close> calls the handlers of what completes.
  \<open>runs stopped\<close> says whether it calls any when the loop has been stopped before.
\<close>

fun admin_run :: "admin_accept list \<Rightarrow> AdminServer \<Rightarrow> AdminServer outcome" where
  "admin_run [] sv = Ret sv"
| "admin_run (ev # events) sv = bind_out (on_admin_accept ev sv) (admin_run events)"

definition admin_listen :: "(bool \<Rightarrow> bool) \<Rightarrow> admin_accept list \<Rightarrow> AdminServer \<Rightarrow> AdminServer outcome" where
  "admin_listen runs events sv =
     (let sv = doAccept sv in if runs (sv_stopped sv) then admin_run events sv else Ret sv)"

text \<open>Assigning to a \<open>std::thread\<close> that still runs ends the program; it has no result either.\<close>

definition admin_server_start :: "(bool \<Rightarrow> bool) \<Rightarrow> admin_accept list \<Rightarrow> AdminServer \<Rightarrow> AdminServer outcome" where
  "admin_server_start runs events sv =
     (if sv_thread sv then UB else admin_listen runs events (sv\<lparr>sv_thread := True\<rparr>))"

definition admin_server_stop :: "AdminServer \<Rightarrow> AdminServer" where
  "admin_server_stop sv = sv\<lparr>sv_stopped := True, sv_thread := False\<rparr>"

text \<open>The sessions the console has greeted, one for every connection that came without an error.\<close>

definition greeted :: "admin_accept list \<Rightarrow> AdminSession list \<Rightarrow> bool" where
  "greeted events ss \<longleftrightarrow>
     list_all2 (\<lambda>(ec, endpoint, sock) s. admin_start sock endpoint (fresh_admin []) = Ret s) (filter (\<lambda>(ec, _). \<not> ec) events) ss"

lemma admin_start_returns:
  "sock [] greeting \<noteq> later \<Longrightarrow> \<exists>s. admin_start sock endpoint (fresh_admin []) = Ret s"
  by (cases "sock [] greeting") (simp_all add: admin_start_def resume_def doWrite_def fresh_admin_def split: option.split)

lemma admin_run_greets:
  assumes "sv_waiting sv = Some (fresh_admin [])" "\<forall>(ec, endpoint, sock) \<in> set events. sock [] greeting \<noteq> later"
  shows "\<exists>ss. admin_run events sv = Ret (sv\<lparr>sv_sessions := sv_sessions sv @ ss\<rparr>) \<and> greeted events ss"
  using assms
proof (induction events arbitrary: sv)
  case Nil
  then show ?case by (simp add: greeted_def)
next
  case (Cons ev events)
  obtain ec endpoint sock where ev: "ev = (ec, endpoint, sock)" by (cases ev)
  have wait: "sv\<lparr>sv_waiting := Some (fresh_admin [])\<rparr> = sv" using Cons.prems(1) by (cases sv) simp
  obtain s where s: "admin_start sock endpoint (fresh_admin []) = Ret s"
    using admin_start_returns Cons.prems(2) ev by fastforce
  show ?case
  proof (cases ec)
    case True
    then show ?thesis
      using Cons.IH [OF Cons.prems(1)] Cons.prems by (simp add: ev on_admin_accept_def doAccept_def greeted_def wait)
  next
    case False
    let ?sv = "sv\<lparr>sv_sessions := sv_sessions sv @ [s]\<rparr>"
    obtain ss where "admin_run events ?sv = Ret (?sv\<lparr>sv_sessions := sv_sessions ?sv @ ss\<rparr>)" "greeted events ss"
      using Cons.IH [of ?sv] Cons.prems by auto
    moreover have same: "sv\<lparr>sv_sessions := xs, sv_waiting := Some (fresh_admin [])\<rparr> = sv\<lparr>sv_sessions := xs\<rparr>" for xs
      using Cons.prems(1) by (cases sv) simp
    ultimately show ?thesis
      using False s Cons.prems(1) by (intro exI [of _ "s # ss"]) (simp add: ev on_admin_accept_def doAccept_def greeted_def same)
  qed
qed

text \<open>
  The console server keeps accepting: started once, after any sequence of completed
  accepts it has greeted every connection that came without an error, in order and each as a
  session of its own, an error has cost none of the later ones, and the next accept is pending;
  provided that no socket leaves the greeting for later.
\<close>

lemma admin_server_accepts:
  assumes "runs False" "\<forall>(ec, endpoint, sock) \<in> set events. sock [] greeting \<noteq> later"
  shows "\<exists>sv. admin_server_start runs events AdminServer_new = Ret sv \<and> sv_waiting sv \<noteq> None \<and> greeted events (sv_sessions sv)"
  using admin_run_greets [of "doAccept (AdminServer_new\<lparr>sv_thread := True\<rparr>)" events] assms
  by (auto simp: admin_server_start_def admin_listen_def AdminServer_new_def doAccept_def)

text \<open>
  A server that was stopped and is started again accepts nobody: nothing restarts its event
  loop, which returns at once (\<open>BrokerEngine::start\<close> after \<open>stop\<close>).
\<close>

lemma admin_server_restart:
  assumes "\<not> runs True"
  shows "\<exists>sv'. admin_server_start runs events (admin_server_stop sv) = Ret sv' \<and> sv_sessions sv' = sv_sessions sv"
  using assms by (simp add: admin_server_start_def admin_server_stop_def admin_listen_def doAccept_def)

end
