(* ===== verification/Server.thy ===== *)
theory Server
  imports Lifecycle Reading
begin

text \<open>
  The program around the engine: the logger's set-up (\<open>src/common/Logger.cpp\<close>), the constructor
  of the channel factory, the engine object of \<open>src/broker/BrokerEngine.cpp\<close> with the services
  it owns (tick service, console server, worker thread), the event loop with the engine's
  completion handlers, and \<open>main\<close>. What the log library, the sockets and the event loop of the
  console do is an argument.
\<close>

section \<open>The logger\<close>

text \<open>
  \<open>logger_init\<close>. The registry of the log library is a map from names to loggers; how it reads a
  level is the argument \<open>from_str\<close>, its level \<open>warn\<close> is the argument of that name, and
  \<open>open_error\<close> gives the error with which opening a log file fails.
\<close>

datatype sink = stdout_color | basic_file string

record 'lvl logger =
  lg_sink :: sink
  lg_pattern :: string
  lg_level :: 'lvl
  lg_flush_on :: 'lvl

record 'lvl Logging =
  lo_registry :: "string \<rightharpoonup> 'lvl logger"
  lo_thread_pool :: "(nat \<times> nat) option"
  lo_flush_every :: nat
  lo_default :: "string option"

definition logger_init ::
  "(string \<Rightarrow> 'lvl) \<Rightarrow> 'lvl \<Rightarrow> (string \<Rightarrow> string option) \<Rightarrow> string \<Rightarrow> string \<Rightarrow> 'lvl Logging \<Rightarrow> 'lvl Logging outcome" where
  "logger_init from_str warn open_error level output lo =
     (if lo_registry lo ''jianm'' \<noteq> None then Ret lo
      else
        let pool = (if lo_thread_pool lo = None then Some (8192, 1) else lo_thread_pool lo);
            console = (output = ''console'' \<or> output = []);
            logger = \<lparr>lg_sink = (if console then stdout_color else basic_file output),
                      lg_pattern = ''[%Y-%m-%d %H:%M:%S.%e] '' @ (if console then ''[%^%l%$]'' else ''[%l]'') @ '' [%s:%#] %v'',
                      lg_level = from_str level, lg_flush_on = warn\<rparr>
        in case if console then None else open_error output of
             Some e \<Rightarrow> Throw e
           | None \<Rightarrow> Ret \<lparr>lo_registry = (lo_registry lo)(''jianm'' \<mapsto> logger), lo_thread_pool = pool, lo_flush_every = 3,
                          lo_default = Some ''jianm''\<rparr>)"

text \<open>The first call that succeeds decides; later ones change nothing.\<close>

lemma logger_init_registers:
  assumes "logger_init from_str warn open_error level output lo = Ret lo'"
  shows "lo_registry lo' ''jianm'' \<noteq> None"
proof (cases "lo_registry lo ''jianm'' \<noteq> None")
  case True
  then show ?thesis using assms by (simp add: logger_init_def)
next
  case False
  define failure where "failure = (if output = ''console'' \<or> output = [] then None else open_error output)"
  show ?thesis
    using assms False by (cases failure) (simp_all add: logger_init_def Let_def flip: failure_def, clarsimp)
qed

lemma logger_init_once:
  assumes "logger_init from_str warn open_error level output lo = Ret lo'"
  shows "logger_init from_str warn open_error level' output' lo' = Ret lo'"
  using logger_init_registers [OF assms] by (simp add: logger_init_def)

section \<open>The channel factory\<close>

text \<open>The constructor in a build without OpenSSL: the configuration is kept, and the warning it logs.\<close>

definition ChannelFactory_new :: "FactoryConfig \<Rightarrow> FactoryConfig \<times> string list" where
  "ChannelFactory_new cfg =
     (cfg, if fc_ssl_cert_path cfg \<noteq> [] then [''TLS configured bt OPENSSL not available - TLS disabled''] else [])"

section \<open>The engine object\<close>

text \<open>
  What the platform answers: the error, if any, of binding a port when some are bound already,
  how the log library reads levels and opens files, and whether a stopped event loop runs.
\<close>

record 'lvl Platform =
  bind_error :: "u16 list \<Rightarrow> u16 \<Rightarrow> string option"
  from_str :: "string \<Rightarrow> 'lvl"
  warn_level :: 'lvl
  open_error :: "string \<Rightarrow> string option"
  loop_runs :: "bool \<Rightarrow> bool"

text \<open>
  The members of \<open>BrokerEngine::Impl\<close> that change; \<open>be_waits\<close> counts the waits on the tick timer,
  \<open>be_worker\<close> says whether the worker thread can be joined.
\<close>

record BrokerEngine =
  be_opts :: Options
  be_configs :: Configs
  be_factory :: FactoryConfig
  be_env :: Env
  be_broker :: Broker
  be_tick :: TickService
  be_waits :: nat
  be_admin :: AdminServer
  be_worker :: bool

text \<open>
  The iteration orders of the hash maps: those of the routing table, of \<open>channels_\<close>, of
  \<open>by_channel_\<close> and of the inflight tables.
\<close>

record Orders =
  recipient_order :: "string list \<Rightarrow> string list"
  channel_order :: "Broker \<Rightarrow> chan_ref list"
  by_channel_order :: "Broker \<Rightarrow> chan_ref list"
  inflight_order :: "Broker \<Rightarrow> ctx_ref \<Rightarrow> u16 list"

definition engine_services :: "Orders \<Rightarrow> Configs \<Rightarrow> Options \<Rightarrow> Env" where
  "engine_services orders configs opts =
     engine_env opts (case receive_buffer_size configs of Ret sz \<Rightarrow> sz | _ \<Rightarrow> 0) [] (recipient_order orders)"

text \<open>The constructor: the members in their order, then the logger, the handlers and the tick tasks.\<close>

definition BrokerEngine_new ::
  "'lvl Platform \<Rightarrow> Orders \<Rightarrow> nat \<Rightarrow> int \<Rightarrow> Configs \<Rightarrow> Options \<Rightarrow> 'lvl Logging \<Rightarrow> (BrokerEngine \<times> 'lvl Logging) outcome" where
  "BrokerEngine_new host orders n now configs opts lo =
     (case bind_error host [] (o_port opts) of
        Some e \<Rightarrow> Throw e
      | None \<Rightarrow>
          let factory = fst (ChannelFactory_new (makeFactoryConfig opts));
              tick = TickService_new now (sint (o_tick_interval opts))
          in case bind_error host [o_port opts] (o_admin_port opts) of
               Some e \<Rightarrow> Throw e
             | None \<Rightarrow>
                 let (logLevel, logOutput) = log_settings configs
                 in bind_out (logger_init (from_str host) (warn_level host) (open_error host) logLevel logOutput lo) (\<lambda>lo.
                    Ret (\<lparr>be_opts = opts, be_configs = configs, be_factory = factory,
                          be_env = engine_services orders configs opts, be_broker = broker_init now,
                          be_tick = registerTickTasks n (channel_order orders) (by_channel_order orders) (inflight_order orders) tick,
                          be_waits = 0, be_admin = AdminServer_new, be_worker = False\<rparr>, lo)))"

text \<open>
  \<open>start\<close>. The constructor of the first channel, in \<open>listen\<close>, throws when the receive buffer has
  no size. Starting a thread over one that was not joined ends the program, here \<open>Undef\<close>.
\<close>

definition BrokerEngine_start ::
  "'lvl Platform \<Rightarrow> admin_accept list \<Rightarrow> (bool, BrokerEngine) prog" where
  "BrokerEngine_start host events be =
     (if b_started (be_broker be) then Ok True be
      else let be = be\<lparr>be_waits := be_waits be + 1\<rparr>
      in case admin_server_start (loop_runs host) events (be_admin be) of
           UB \<Rightarrow> Undef
         | Throw e \<Rightarrow> Exn e be
         | Ret sv \<Rightarrow>
             let be = be\<lparr>be_admin := sv\<rparr>
             in case receive_buffer_size (be_configs be) of
                  Ret _ \<Rightarrow>
                    (case engine_start (be_env be) (be_broker be) of
                       Ok _ b \<Rightarrow> if be_worker be then Undef else Ok True (be\<lparr>be_broker := b, be_worker := True\<rparr>)
                     | Exn e b \<Rightarrow> Exn e (be\<lparr>be_broker := b\<rparr>)
                     | Undef \<Rightarrow> Undef)
                | Throw e \<Rightarrow> Exn e be
                | UB \<Rightarrow> Undef)"

definition BrokerEngine_stop :: "(unit, BrokerEngine) prog" where
  "BrokerEngine_stop be =
     (if \<not> b_started (be_broker be) then Ok () be
      else case engine_stop (be_broker be) of
             Ok _ b \<Rightarrow> Ok () (be\<lparr>be_broker := b, be_admin := admin_server_stop (be_admin be), be_worker := False\<rparr>)
           | Exn e b \<Rightarrow> Exn e (be\<lparr>be_broker := b\<rparr>)
           | Undef \<Rightarrow> Undef)"

definition running :: "BrokerEngine \<Rightarrow> bool" where
  "running be = b_started (be_broker be)"

definition addPlugin :: "IPlugin \<Rightarrow> BrokerEngine \<Rightarrow> BrokerEngine" where
  "addPlugin plugin be = be\<lparr>be_env := (be_env be)\<lparr>env_hooks := hooks_add plugin (env_hooks (be_env be))\<rparr>\<rparr>"

section \<open>The program\<close>

text \<open>
  What happens while \<open>ctx.run()\<close> runs: an accept completes, for the channel that waited in it; reads
  of a channel complete; a write of a channel ends; the tick timer expires; the worker thread
  takes a turn; time passes; a channel that nothing owns any more is destroyed. The reads of a
  packet are run together when the last of them completes: until then they only fill the
  channel's own buffer.
\<close>

datatype Completion =
    Accepted bool "(string \<times> nat) option" chan_ref
  | ReadDone chan_ref "ReadEvent list"
  | WriteEnded chan_ref bool
  | TimerExpired
  | WorkerTurn
  | Elapsed nat
  | Released chan_ref

definition on_broker :: "'a brokerP \<Rightarrow> (unit, BrokerEngine) prog" where
  "on_broker m be =
     (case m (be_broker be) of
        Ok _ b \<Rightarrow> Ok () (be\<lparr>be_broker := b\<rparr>) | Exn e b \<Rightarrow> Exn e (be\<lparr>be_broker := b\<rparr>) | Undef \<Rightarrow> Undef)"

fun run_handler :: "nat \<Rightarrow> Completion \<Rightarrow> (unit, BrokerEngine) prog" where
  "run_handler n (Accepted ec endpoint c) be = on_broker (on_accept (be_env be) ec endpoint c) be"
| "run_handler n (ReadDone c evs) be = on_broker (read_loop (be_env be) (onClose n (be_env be)) c evs) be"
| "run_handler n (WriteEnded c error) be =
     on_broker (modP (upd_chan c (\<lambda>ch. ch\<lparr>ch_transport := transport_step (WriteDone error) (ch_transport ch)\<rparr>))) be"
| "run_handler n TimerExpired be =
     (case on_tick (be_env be) (b_now (be_broker be)) (be_tick be) (be_broker be) of
        Ok ts b \<Rightarrow> Ok () (be\<lparr>be_tick := ts, be_broker := b\<rparr>) | Exn e b \<Rightarrow> Exn e (be\<lparr>be_broker := b\<rparr>) | Undef \<Rightarrow> Undef)"
| "run_handler n WorkerTurn be =
     on_broker (handlePacket 1 (registerHandlers Map.empty) (be_env be) (onClose n (be_env be))) be"
| "run_handler n (Elapsed d) be = on_broker (modP (\<lambda>b. b\<lparr>b_now := b_now b + int d\<rparr>)) be"
| "run_handler n (Released c) be =
     on_broker (modP (\<lambda>b. if c \<in> set (b_channels b) then b else b\<lparr>b_chans := (b_chans b)(c := None)\<rparr>)) be"

datatype LoopEvent = Handler Completion | Signal bool

text \<open>
  \<open>ctx.run()\<close> on the events in the order in which they happen; a signal comes with its error flag.
  The handler of the signal stops the loop unless it reports an error; it is not armed again, so
  that later signals find none. An exception of a handler leaves the loop.
\<close>

fun io_run :: "nat \<Rightarrow> bool \<Rightarrow> LoopEvent list \<Rightarrow> (unit, BrokerEngine) prog" where
  "io_run n armed [] be = Ok () be"
| "io_run n armed (Handler ev # events) be =
     (case run_handler n ev be of Ok _ be \<Rightarrow> io_run n armed events be | Exn e be \<Rightarrow> Exn e be | Undef \<Rightarrow> Undef)"
| "io_run n armed (Signal error # events) be =
     (if \<not> armed then io_run n armed events be else if error then io_run n False events be else Ok () be)"

text \<open>
  The end of \<open>main\<close>: the engine was not made; or it is gone while the thread of the console still
  runs; or it is stopped. The accept that is pending owns the console server, so that only
  \<open>stop\<close> ends its thread.
\<close>

datatype MainResult = NotStarted | ConsoleLeft AdminServer | Stopped BrokerEngine

text \<open>The destructor of the engine stops it, which does nothing when it is stopped or was never started.\<close>

definition BrokerEngine_destroy :: "BrokerEngine \<Rightarrow> MainResult option" where
  "BrokerEngine_destroy be =
     (case BrokerEngine_stop be of
        Ok _ be \<Rightarrow> Some (if sv_thread (be_admin be) then ConsoleLeft (be_admin be) else Stopped be)
      | _ \<Rightarrow> None)"

text \<open>
  \<open>main\<close>: the exit code and what is left. An exception, wherever it comes from, is logged and
  leaves the block that owns the engine. \<open>None\<close> is undefined behaviour.
\<close>

definition server_main ::
  "'lvl Platform \<Rightarrow> Orders \<Rightarrow> nat \<Rightarrow> int \<Rightarrow> Files \<Rightarrow> 'lvl Logging \<Rightarrow> LoopEvent list \<Rightarrow> (nat \<times> MainResult) option" where
  "server_main host orders n now fs lo events =
     (let configs = ConfigMgr (open_config fs);
          finish = (\<lambda>code be. map_option (Pair code) (BrokerEngine_destroy be))
      in case BrokerEngine_new host orders n now configs (loadGlobalConfig configs) lo of
        Ret (be, _) \<Rightarrow>
          (case BrokerEngine_start host [] be of
             Ok ok be \<Rightarrow>
               if \<not> ok then finish 1 be
               else (case io_run n True events be of
                       Ok _ be \<Rightarrow> (case BrokerEngine_stop be of Ok _ be \<Rightarrow> finish 0 be | Exn _ be \<Rightarrow> finish 0 be | Undef \<Rightarrow> None)
                     | Exn _ be \<Rightarrow> finish 0 be
                     | Undef \<Rightarrow> None)
           | Exn _ be \<Rightarrow> finish 0 be
           | Undef \<Rightarrow> None)
      | Throw _ \<Rightarrow> Some (0, NotStarted)
      | UB \<Rightarrow> None)"

section \<open>Starting and stopping\<close>

lemma engine_stop_eq: "engine_stop b = Ok () (b\<lparr>b_started := False\<rparr>)"
  by (cases "b_started b") (simp_all add: engine_stop_def)

lemma BrokerEngine_stop_returns:
  "\<exists>be'. BrokerEngine_stop be = Ok () be' \<and> \<not> running be' \<and> b_requests (be_broker be') = b_requests (be_broker be)"
  by (simp add: BrokerEngine_stop_def engine_stop_eq running_def)

lemma BrokerEngine_destroy_stopped:
  "\<not> running be \<Longrightarrow> BrokerEngine_destroy be = Some (if sv_thread (be_admin be) then ConsoleLeft (be_admin be) else Stopped be)"
  by (simp add: BrokerEngine_destroy_def BrokerEngine_stop_def running_def)

text \<open>
  A new engine starts unless the receive buffer has no size: its state is one from which the
  results about reachable states hold, one wait on the tick timer and one on the console's port
  are pending and the worker runs. If the receive buffer has none, the exception finds the
  console running already.
\<close>

lemma BrokerEngine_start_new:
  assumes new: "BrokerEngine_new host orders n now configs opts lo = Ret (be, lo')" and tcp: "o_transport_type opts \<noteq> ssl"
  shows "case receive_buffer_size configs of
      Ret _ \<Rightarrow> \<exists>be'. BrokerEngine_start host [] be = Ok True be' \<and> running be' \<and> be_worker be' \<and> be_waits be' = 1 \<and>
        sv_thread (be_admin be') \<and> sv_waiting (be_admin be') \<noteq> None \<and> be_env be' = engine_services orders configs opts \<and>
        ts_callbacks (be_tick be') = ts_callbacks (registerTickTasks n (channel_order orders) (by_channel_order orders)
          (inflight_order orders) (TickService_new 0 0)) \<and>
        reachable (be_env be') d (be_broker be')
    | Throw e \<Rightarrow> \<exists>be'. BrokerEngine_start host [] be = Exn e be' \<and> \<not> running be' \<and> sv_thread (be_admin be') \<and> sv_waiting (be_admin be') \<noteq> None
    | UB \<Rightarrow> False"
proof -
  obtain tick where be: "be = \<lparr>be_opts = opts, be_configs = configs, be_factory = makeFactoryConfig opts,
      be_env = engine_services orders configs opts, be_broker = broker_init now, be_tick = tick,
      be_waits = 0, be_admin = AdminServer_new, be_worker = False\<rparr>"
    and tick: "ts_callbacks tick = ts_callbacks (registerTickTasks n (channel_order orders) (by_channel_order orders)
      (inflight_order orders) (TickService_new 0 0))"
    using new by (auto simp: BrokerEngine_new_def Let_def ChannelFactory_new_def bind_out_eq_Ret registerTickTasks_def registerTask_def
      TickService_new_def split: option.splits prod.splits)
  obtain sv where sv: "admin_server_start (loop_runs host) [] AdminServer_new = Ret sv" "sv_waiting sv \<noteq> None" "sv_thread sv"
    by (simp add: admin_server_start_def AdminServer_new_def admin_listen_def doAccept_def Let_def)
  show ?thesis
  proof (cases "receive_buffer_size configs")
    case (Ret sz)
    define env where "env = engine_services orders configs opts"
    have "env_transport_type env \<noteq> ssl"
      using tcp by (simp add: env_def engine_services_def engine_env_def makeFactoryConfig_def)
    from listen_eq [OF this, of "broker_init now"]
    obtain b where b: "engine_start env (broker_init now) = Ok () b" "b_started b"
      by (simp add: engine_start_def bindP_apply seqP_apply broker_init_def)
    then have "engine_step env d (broker_init now) b" by (simp add: engine_step_def step_start)
    then have "reachable env d b" by (blast intro: reachable_step reachable_init)
    with Ret b sv tick show ?thesis
      by (simp add: be BrokerEngine_start_def running_def env_def broker_init_def [of now])
  next
    case (Throw e)
    then show ?thesis using sv by (simp add: be BrokerEngine_start_def running_def broker_init_def)
  next
    case UB
    then show ?thesis by (simp add: receive_buffer_size_def Let_def split: if_splits)
  qed
qed

text \<open>
  Every engine that was started, stopped and is started again: the event loop of the console
  stays stopped and accepts nobody, and the tick timer has one wait more.
\<close>

lemma BrokerEngine_restart:
  assumes "\<not> loop_runs host True" "running be" "BrokerEngine_stop be = Ok () be1"
    "BrokerEngine_start host events be1 = Ok r be2"
  shows "sv_sessions (be_admin be2) = sv_sessions (be_admin be) \<and> be_waits be2 = be_waits be + 1"
  using assms
  by (auto simp: BrokerEngine_stop_def BrokerEngine_start_def running_def engine_stop_eq Let_def admin_server_start_def
      admin_server_stop_def admin_listen_def doAccept_def split: outcome.splits res.splits)

section \<open>The event loop\<close>

text \<open>What the standard library documents of the hash maps: an iteration visits every entry once.\<close>

definition orders_ok :: "Orders \<Rightarrow> bool" where
  "orders_ok orders \<longleftrightarrow> (\<forall>b. mset (channel_order orders b) = mset (b_channels b) \<and>
     mset (by_channel_order orders b) = mset (map fst (b_by_channel b)))"

text \<open>An engine at work: without plugins, with the tick tasks of its constructor, in a reachable state.\<close>

definition serving :: "nat \<Rightarrow> Orders \<Rightarrow> Env \<Rightarrow> BrokerEngine \<Rightarrow> bool" where
  "serving n orders env be \<longleftrightarrow> be_env be = env \<and>
     ts_callbacks (be_tick be) = ts_callbacks (registerTickTasks n (channel_order orders) (by_channel_order orders)
       (inflight_order orders) (TickService_new 0 0)) \<and>
     reachable env n (be_broker be) \<and> running be"

text \<open>No handler stops the engine.\<close>

lemma keeps_started: "keeps queue_state m \<Longrightarrow> keeps b_started m"
  by (auto simp: keeps_def queue_state_def intro: wlp_mono)

lemma on_accept_started: "on_accept env ec endpoint c b = Ok r b' \<Longrightarrow> b_started b \<Longrightarrow> b_started b'"
proof -
  have k: "keeps b_started (listen env)" by (auto simp: listen_def addChannel_def split: option.split)
  show "on_accept env ec endpoint c b = Ok r b' \<Longrightarrow> b_started b \<Longrightarrow> b_started b'"
    by (auto simp: on_accept_def engine_start_def channel_start_def catchP_apply bindP_apply seqP_apply
        dest!: keepsD(1) [OF k] keepsD(2) [OF k] split: if_splits option.splits res.splits)
qed

lemma receive_frame_keeps: "keeps b_started (receive_frame env (onClose n env) c)"
  by (auto simp: receive_frame_def channel_on_packet_def onPacket_def keeps_started [OF queue.requestClose_keeps] split: option.split)

lemma read_loop_started: "read_loop env (onClose n env) c evs b = Ok r b' \<Longrightarrow> b_started b' = b_started b"
proof (induction "length evs" arbitrary: evs b rule: less_induct)
  case less
  show ?case
  proof (cases "\<exists>ch buf evs'. b_chans b c = Some ch \<and> \<not> ch_closing ch \<and> \<not> tr_closing (ch_transport ch) \<and>
      asyncReadHead False (ch_buffer ch) evs = Frame buf evs'")
    case True
    then obtain ch buf evs' where f: "b_chans b c = Some ch" "\<not> ch_closing ch" "\<not> tr_closing (ch_transport ch)"
      "asyncReadHead False (ch_buffer ch) evs = Frame buf evs'" by blast
    obtain b1 where b1: "receive_frame env (onClose n env) c (upd_chan c (\<lambda>ch. ch\<lparr>ch_buffer := buf\<rparr>) b) = Ok () b1"
        "read_loop env (onClose n env) c evs' b1 = Ok r b'"
      using less.prems by (auto simp: read_loop_frame [OF f] split: res.splits)
    show ?thesis
      using less.hyps [OF asyncReadHead_consumes [OF f(4)] b1(2)] keepsD(1) [OF receive_frame_keeps b1(1)] by simp
  next
    case False
    then show ?thesis
      using less.prems
      by (subst (asm) read_loop.simps)
         (auto simp: seqP_apply split: option.splits if_splits ReadResult.splits res.splits
           dest: keepsD(1) [OF keeps_started [OF queue.requestClose_keeps]])
  qed
qed

lemma on_accept_returns:
  assumes "env_transport_type env \<noteq> ssl"
  shows "\<exists>b'. on_accept env ec endpoint c b = Ok () b'"
  by (auto simp: on_accept_def engine_start_def channel_start_def listen_eq [OF assms] catchP_apply bindP_apply seqP_apply
      split: option.split)

text \<open>The handler of the timer is the tick of the step relation.\<close>

lemma on_tick_step:
  assumes serving: "serving (Suc n) orders env be" and orders: "orders_ok orders" and hooks: "hooks_keep_topic (env_hooks env)"
  shows "on_tick env (b_now (be_broker be)) (be_tick be) (be_broker be) = Undef \<or>
    (\<exists>ts b'. on_tick env (b_now (be_broker be)) (be_tick be) (be_broker be) = Ok ts b' \<and> ts_callbacks ts = ts_callbacks (be_tick be) \<and>
       reachable env (Suc n) b' \<and> b_started b')"
proof -
  define b where "b = be_broker be"
  have reach: "reachable env (Suc n) b" using serving by (simp add: serving_def b_def)
  then have inv: "broker_inv b" using hooks by (rule reachable_inv)
  obtain b1 where b1: "checkKeepalive (onClose (Suc n) env) (b_now b) (channel_order orders b) b = Ok () b1" "broker_inv b1"
    using wp_Ok_unit [OF engine.checkKeepalive_inv [OF inv]] by blast
  then have keep: "catchP (checkKeepalive (onClose (Suc n) env) (b_now b) (channel_order orders b)) (\<lambda>_. returnP ()) b = Ok () b1"
    by (simp add: catchP_apply)
  then have task1: "tick_keepalive (onClose (Suc n) env) (channel_order orders b) b = Ok () b1"
    by (simp add: tick_keepalive_def bindP_apply)
  let ?task2 = "tick_retransmission (onClose (Suc n) env) (by_channel_order orders b1) (inflight_order orders b1) b1"
  have run: "tick_callbacks env (b_now b) (ts_callbacks (be_tick be)) b = ?task2"
    using serving tick_callbacks_doTick [where snapshot = "channel_order orders" and chan_order = "by_channel_order orders" and
        pid_order = "inflight_order orders" and b = b and n = "Suc n" and env = env and t = 0 and ms = 0, OF keep] task1
    by (simp add: serving_def doTick_def seqP_apply)
  have "\<nexists>e b'. ?task2 = Exn e b'" by (auto simp: tick_retransmission_def bindP_apply catchP_apply split: res.splits)
  then consider "?task2 = Undef" | b' where "?task2 = Ok () b'" by (cases ?task2) auto
  then show ?thesis
  proof cases
    case 1
    then show ?thesis using run by (simp add: on_tick_def seqP_apply flip: b_def)
  next
    case 2
    have "io_step env (Suc n) b b'"
      using orders by (intro step_tick [OF _ task1 _ 2]) (simp_all add: orders_ok_def)
    then have "reachable env (Suc n) b'" using reachable_step [OF reach] by (simp add: engine_step_def)
    moreover have "b_started b'"
      using keepsD(1) [OF keeps_started [OF queue.doTick_keeps] doTick_Ok [OF task1 2]] serving
      by (simp add: serving_def running_def b_def)
    ultimately show ?thesis using run 2 by (simp add: on_tick_def seqP_apply flip: b_def)
  qed
qed

lemma on_broker_serving:
  assumes "serving n orders env be"
    "m (be_broker be) = Undef \<or> (\<exists>r b'. m (be_broker be) = Ok r b' \<and> reachable env n b' \<and> b_started b')"
  shows "on_broker m be = Undef \<or> (\<exists>be'. on_broker m be = Ok () be' \<and> serving n orders env be')"
  using assms by (auto simp: on_broker_def serving_def running_def)

text \<open>Every handler finds a reachable state and leaves one, or has undefined behaviour; none throws.\<close>

lemma run_handler_serving:
  assumes serving: "serving (Suc n) orders env be" and orders: "orders_ok orders" and hooks: "hooks_keep_topic (env_hooks env)"
  shows "run_handler (Suc n) ev be = Undef \<or> (\<exists>be'. run_handler (Suc n) ev be = Ok () be' \<and> serving (Suc n) orders env be')"
proof -
  have env: "be_env be = env" and reach: "reachable env (Suc n) (be_broker be)" and on: "b_started (be_broker be)"
    using serving by (simp_all add: serving_def running_def)
  have inv: "broker_inv (be_broker be)" using reach hooks by (rule reachable_inv)
  have step: "reachable env (Suc n) b'" if "io_step env (Suc n) (be_broker be) b'" for b'
    using reachable_step [OF reach] that by (simp add: engine_step_def)
  show ?thesis
  proof (cases ev)
    case (Accepted ec endpoint c)
    have "\<nexists>e b'. on_accept env ec endpoint c (be_broker be) = Exn e b'"
      by (auto simp: on_accept_def catchP_apply split: res.splits)
    then have "on_accept env ec endpoint c (be_broker be) = Undef \<or> (\<exists>r b'. on_accept env ec endpoint c (be_broker be) = Ok r b' \<and>
        reachable env (Suc n) b' \<and> b_started b')"
      using step [OF step_accept] on_accept_started [OF _ on] by (cases "on_accept env ec endpoint c (be_broker be)") auto
    from on_broker_serving [where m = "on_accept env ec endpoint c", OF serving this] show ?thesis by (simp add: Accepted env)
  next
    case (ReadDone c evs)
    have "read_loop env (onClose (Suc n) env) c evs (be_broker be) = Undef \<or>
        (\<exists>r b'. read_loop env (onClose (Suc n) env) c evs (be_broker be) = Ok r b' \<and> reachable env (Suc n) b' \<and> b_started b')"
      using read_loop_returns [OF inv] read_loop_reachable [OF reach] read_loop_started on by blast
    from on_broker_serving [where m = "read_loop env (onClose (Suc n) env) c evs", OF serving this]
    show ?thesis by (simp add: ReadDone env del: onClose.simps)
  next
    case (WriteEnded c error)
    show ?thesis
      unfolding WriteEnded run_handler.simps
      by (rule on_broker_serving [OF serving]) (simp add: step [OF step_written [OF HOL.refl]] on del: transport_step.simps)
  next
    case TimerExpired
    show ?thesis
      using on_tick_step [OF serving orders hooks] serving by (auto simp: TimerExpired env serving_def running_def)
  next
    case WorkerTurn
    let ?turn = "handleRequest (registerHandlers Map.empty) env (onClose (Suc n) env) (be_broker be)"
    have "wlp (handleRequest (registerHandlers Map.empty) env (onClose (Suc n) env)) (\<lambda>_. broker_inv) never (be_broker be)"
      by (rule engine.handleRequest_inv [OF inv hooks])
    then have "\<nexists>e b'. ?turn = Exn e b'" by (auto simp: wlp_def simp del: onClose.simps)
    then have "?turn = Undef \<or> (\<exists>b'. ?turn = Ok () b' \<and> reachable env (Suc n) b' \<and> b_started b')"
      using reachable_step [OF reach] worker_step_queue(2) [of env "Suc n" "be_broker be"] on
      by (cases ?turn) (auto simp: engine_step_def worker_step_def)
    then have "handlePacket 1 (registerHandlers Map.empty) env (onClose (Suc n) env) (be_broker be) = Undef \<or>
        (\<exists>r b'. handlePacket 1 (registerHandlers Map.empty) env (onClose (Suc n) env) (be_broker be) = Ok r b' \<and> reachable env (Suc n) b' \<and> b_started b')"
      using on by (auto simp: bindP_apply seqP_apply simp del: onClose.simps)
    from on_broker_serving [where m = "handlePacket 1 (registerHandlers Map.empty) env (onClose (Suc n) env)", OF serving this]
    show ?thesis by (simp add: WorkerTurn env del: onClose.simps handlePacket.simps)
  next
    case (Elapsed d)
    show ?thesis
      unfolding Elapsed run_handler.simps
      by (rule on_broker_serving [OF serving]) (simp add: step [OF step_time] on)
  next
    case (Released c)
    show ?thesis
      unfolding Released run_handler.simps
      by (rule on_broker_serving [OF serving]) (simp add: step [OF step_expire] reach on)
  qed
qed

lemma io_run_serving:
  assumes "serving (Suc n) orders env be" "orders_ok orders" "hooks_keep_topic (env_hooks env)"
  shows "io_run (Suc n) armed events be = Undef \<or>
    (\<exists>be'. io_run (Suc n) armed events be = Ok () be' \<and> serving (Suc n) orders env be')"
  using assms
proof (induction events arbitrary: armed be)
  case (Cons ev events)
  show ?case
  proof (cases ev)
    case (Handler h)
    consider "run_handler (Suc n) h be = Undef"
      | be' where "run_handler (Suc n) h be = Ok () be'" "serving (Suc n) orders env be'"
      using run_handler_serving [OF Cons.prems, of h] by blast
    then show ?thesis
    proof cases
      case 2
      then show ?thesis using Cons.IH [OF 2(2) Cons.prems(2,3), of armed] by (simp add: Handler del: run_handler.simps)
    qed (simp add: Handler del: run_handler.simps)
  next
    case (Signal error)
    then show ?thesis using Cons by simp
  qed
qed simp

text \<open>After the signal the loop runs no handler.\<close>

lemma io_run_signal:
  "\<forall>err. Signal err \<notin> set events \<Longrightarrow> io_run n True (events @ Signal False # rest) be = io_run n True events be"
proof (induction events arbitrary: be)
  case (Cons ev events)
  then show ?case by (cases ev) (auto simp del: run_handler.simps split: res.split)
qed simp

lemma BrokerEngine_stop_reachable:
  assumes "reachable (be_env be) d (be_broker be)"
  shows "\<exists>be'. BrokerEngine_stop be = Ok () be' \<and> \<not> running be' \<and> be_env be' = be_env be \<and> reachable (be_env be) d (be_broker be')"
proof -
  have "engine_step (be_env be) d (be_broker be) ((be_broker be)\<lparr>b_started := False\<rparr>)"
    by (simp add: engine_step_def io_step.step_stop engine_stop_eq)
  with assms show ?thesis
    by (auto simp: BrokerEngine_stop_def engine_stop_eq running_def intro: reachable_step)
qed

lemma BrokerEngine_new_outcomes:
  assumes fresh: "lo_registry lo ''jianm'' = None"
  shows "if bind_error host [] (o_port opts) = None \<and> bind_error host [o_port opts] (o_admin_port opts) = None \<and>
      (snd (log_settings configs) = ''console'' \<or> open_error host (snd (log_settings configs)) = None)
    then \<exists>be lo'. BrokerEngine_new host orders n now configs opts lo = Ret (be, lo')
    else \<exists>e. BrokerEngine_new host orders n now configs opts lo = Throw e"
proof -
  have "snd (log_settings configs) \<noteq> []" by (simp add: log_settings_def Let_def)
  with fresh show ?thesis
    by (auto simp: BrokerEngine_new_def Let_def logger_init_def split: option.splits prod.splits)
qed

text \<open>
  C27. How the program runs and ends. When a port cannot be bound or the log file cannot be
  opened, nothing comes up. When both can, but the receive buffer configured in \<open>jianm.conf\<close> is
  negative, \<open>start\<close> throws after the console has been started: the engine is destroyed and the
  thread of the console goes on without it. In every other case the engine starts, with worker
  and console running and no plugins. Then, whatever accepts, reads, writes, timers, requests and
  signals happen and in whatever order, every handler of the event loop finds a state that is
  reachable in the step relation, so that the results about reachable states hold of the program
  with any configuration file; none throws; and unless one of them runs into undefined behaviour,
  the engine is stopped at the end, console and worker included, in a reachable state. The exit
  code is 0 in each of these cases. (The iterations of the hash maps visit every entry once.)
\<close>

theorem server_main_outcomes:
  fixes host :: "'lvl Platform" and orders :: Orders and fs :: Files and lo :: "'lvl Logging"
  defines "configs \<equiv> ConfigMgr (open_config fs)"
  defines "opts \<equiv> loadGlobalConfig configs"
  defines "log_output \<equiv> snd (log_settings configs)"
  defines "env \<equiv> engine_services orders configs opts"
  assumes fresh: "lo_registry lo ''jianm'' = None" and orders: "orders_ok orders"
  shows "if bind_error host [] (o_port opts) = None \<and> bind_error host [o_port opts] (o_admin_port opts) = None \<and>
      (log_output = ''console'' \<or> open_error host log_output = None)
    then case receive_buffer_size configs of
        Ret _ \<Rightarrow> \<exists>be0 lo' be. BrokerEngine_new host orders (Suc n) now configs opts lo = Ret (be0, lo') \<and>
          BrokerEngine_start host [] be0 = Ok True be \<and> running be \<and> be_worker be \<and> sv_thread (be_admin be) \<and> sv_waiting (be_admin be) \<noteq> None \<and>
          be_env be = env \<and> env_hooks env = [] \<and> reachable env (Suc n) (be_broker be) \<and>
          (case io_run (Suc n) True events be of
             Ok _ be1 \<Rightarrow> reachable env (Suc n) (be_broker be1) \<and>
               (\<exists>be'. BrokerEngine_stop be1 = Ok () be' \<and> server_main host orders (Suc n) now fs lo events = Some (0, Stopped be') \<and>
                 \<not> running be' \<and> reachable env (Suc n) (be_broker be'))
           | Exn _ _ \<Rightarrow> False
           | Undef \<Rightarrow> server_main host orders (Suc n) now fs lo events = None)
      | _ \<Rightarrow> \<exists>sv. server_main host orders (Suc n) now fs lo events = Some (0, ConsoleLeft sv) \<and> sv_thread sv
    else server_main host orders (Suc n) now fs lo events = Some (0, NotStarted)"
proof -
  have tcp: "o_transport_type opts \<noteq> ssl" by (simp add: opts_def loadGlobalConfig_def default_options_def)
  have no_hooks: "env_hooks env = []" by (simp add: env_def engine_services_def engine_env_def)
  then have hooks: "hooks_keep_topic (env_hooks env)" by (simp add: hooks_keep_topic_def)
  note new = BrokerEngine_new_outcomes [OF fresh, of host opts configs orders "Suc n" now, folded log_output_def]
  show ?thesis
  proof (cases "\<exists>be lo'. BrokerEngine_new host orders (Suc n) now configs opts lo = Ret (be, lo')")
    case False
    then have "server_main host orders (Suc n) now fs lo events = Some (0, NotStarted)"
      using new by (auto simp: server_main_def Let_def simp flip: configs_def opts_def split: if_splits)
    with False new show ?thesis by argo
  next
    case True
    then obtain be lo' where be: "BrokerEngine_new host orders (Suc n) now configs opts lo = Ret (be, lo')" by blast
    note start = BrokerEngine_start_new [OF be tcp, of "Suc n"]
    have up: "bind_error host [] (o_port opts) = None \<and> bind_error host [o_port opts] (o_admin_port opts) = None \<and>
        (log_output = ''console'' \<or> open_error host log_output = None)" using new be by (auto split: if_splits)
    show ?thesis
    proof (cases "receive_buffer_size configs")
      case (Ret sz)
      then obtain be1 where be1: "BrokerEngine_start host [] be = Ok True be1" "running be1" "be_worker be1" "sv_thread (be_admin be1)"
          "sv_waiting (be_admin be1) \<noteq> None" "be_env be1 = env" "serving (Suc n) orders env be1"
        using start by (auto simp: env_def serving_def)
      have "case io_run (Suc n) True events be1 of
          Ok _ be2 \<Rightarrow> reachable env (Suc n) (be_broker be2) \<and>
            (\<exists>be'. BrokerEngine_stop be2 = Ok () be' \<and> server_main host orders (Suc n) now fs lo events = Some (0, Stopped be') \<and>
              \<not> running be' \<and> reachable env (Suc n) (be_broker be'))
        | Exn _ _ \<Rightarrow> False
        | Undef \<Rightarrow> server_main host orders (Suc n) now fs lo events = None"
        using io_run_serving [OF be1(7) orders hooks, of True events]
      proof (elim disjE exE conjE)
        assume "io_run (Suc n) True events be1 = Undef"
        then show ?thesis using be be1(1) by (simp add: server_main_def Let_def flip: configs_def opts_def)
      next
        fix be2 assume be2: "io_run (Suc n) True events be1 = Ok () be2" "serving (Suc n) orders env be2"
        obtain be3 where be3: "BrokerEngine_stop be2 = Ok () be3" "\<not> running be3" "reachable env (Suc n) (be_broker be3)"
          using BrokerEngine_stop_reachable [of be2 "Suc n"] be2(2) by (auto simp: serving_def)
        have "\<not> sv_thread (be_admin be3)"
          using be3(1) be2(2) by (auto simp: serving_def running_def BrokerEngine_stop_def engine_stop_eq admin_server_stop_def)
        then have "server_main host orders (Suc n) now fs lo events = Some (0, Stopped be3)"
          using be be1(1) be2(1) be3(1) BrokerEngine_destroy_stopped [OF be3(2)]
          by (simp add: server_main_def Let_def flip: configs_def opts_def)
        then show ?thesis using be2 be3 by (simp add: serving_def)
      qed
      then show ?thesis using be be1 no_hooks Ret up by (auto simp: serving_def)
    next
      case (Throw e)
      then obtain be1 where "BrokerEngine_start host [] be = Exn e be1" "\<not> running be1" "sv_thread (be_admin be1)" using start by auto
      then have "server_main host orders (Suc n) now fs lo events = Some (0, ConsoleLeft (be_admin be1))"
        using be by (simp add: server_main_def Let_def BrokerEngine_destroy_stopped flip: configs_def opts_def)
      with \<open>sv_thread (be_admin be1)\<close> Throw up show ?thesis by simp
    next
      case UB
      then show ?thesis using start by simp
    qed
  qed
qed

text \<open>A run in an empty directory: a client connects, time passes, a signal arrives, and the timer after it finds no loop.\<close>

definition demo_platform :: "string Platform" where
  "demo_platform = \<lparr>bind_error = (\<lambda>bound p. if p \<in> set bound then Some ''bind: Address already in use'' else None),
     from_str = id, warn_level = ''warning'', open_error = (\<lambda>_. None), loop_runs = Not\<rparr>"

definition demo_orders :: Orders where
  "demo_orders = \<lparr>recipient_order = id, channel_order = b_channels, by_channel_order = map fst \<circ> b_by_channel,
     inflight_order = (\<lambda>_ _. [])\<rparr>"

definition demo_loop :: "LoopEvent list" where
  "demo_loop = [Handler (Accepted False (Some (''10.0.0.1'', 4711)) 0), Handler (Elapsed 1000), Signal False, Handler TimerExpired]"

theorem server_main_outcomes_witness:
  "\<exists>be. server_main demo_platform demo_orders (Suc 0) 0 \<lparr>f_current_path = ''/srv'', f_exists = (\<lambda>_. False), f_text = (\<lambda>_. None)\<rparr>
      \<lparr>lo_registry = Map.empty, lo_thread_pool = None, lo_flush_every = 0, lo_default = None\<rparr> demo_loop = Some (0, Stopped be) \<and>
     \<not> running be"
proof -
  let ?fs = "\<lparr>f_current_path = ''/srv'', f_exists = (\<lambda>_. False), f_text = (\<lambda>_. None)\<rparr>"
  have none: "open_config ?fs = None" by (simp add: open_config_def)
  have ports: "o_port (loadGlobalConfig (ConfigMgr None)) = 1883" "o_admin_port (loadGlobalConfig (ConfigMgr None)) = 10000"
    and buffer: "receive_buffer_size (ConfigMgr None) = Ret 1024"
    and log: "snd (log_settings (ConfigMgr None)) = ''console''"
    by code_simp+
  have ok: "orders_ok demo_orders" by (simp add: orders_ok_def demo_orders_def)
  define env where "env = engine_services demo_orders (ConfigMgr None) (loadGlobalConfig (ConfigMgr None))"
  have tcp: "env_transport_type env \<noteq> ssl"
    by (simp add: env_def engine_services_def engine_env_def makeFactoryConfig_def loadGlobalConfig_def default_options_def)
  have run: "\<exists>be1. io_run (Suc 0) True demo_loop be = Ok () be1" if "be_env be = env" for be
    using on_accept_returns [OF tcp, of False "Some (''10.0.0.1'', 4711)" 0 "be_broker be"] that
    by (auto simp: demo_loop_def on_broker_def)
  show ?thesis
    using server_main_outcomes [where lo = "\<lparr>lo_registry = Map.empty, lo_thread_pool = None, lo_flush_every = 0, lo_default = None\<rparr>"
        and orders = demo_orders and host = demo_platform and fs = ?fs and n = 0 and events = demo_loop and now = 0, OF _ ok] ports buffer log none run
    by (fastforce simp: demo_platform_def env_def simp del: io_run.simps)
qed

end
