(* ===== verification/Spec2Isabelle.thy ===== *)
theory Spec2Isabelle
  imports Prelude Utils Packet_Model Topic TopicTree RetainStore Outbox Codec Codec_Proofs Effects
    Security Transport Channel Broker_State SessionManager Router Handlers Engine Broker_Inv Broker_Proofs
    Delivery Scenario Broker_Safety Routing Protocol Connect Availability Broker_Spec Refinement Liveness Reading EndToEnd
    Forwarding
    Config Admin Lifecycle Server
begin

text \<open>
  A verification development of Jianm, an MQTT 3.1.1 broker in C++17. File names below are
  relative to the repository.

  \<^bold>\<open>The program.\<close> A connection is a \<open>Channel\<close> (\<open>src/net/Channel.cpp\<close>) over a \<open>TcpTransport\<close>
  (\<open>src/net/TcpTransport.cpp\<close>). The channel cuts the byte stream into packets, the \<open>Codec\<close>
  (\<open>src/protocol/Codec.cpp\<close>) decodes them, and the engine (\<open>src/broker/BrokerEngine.cpp\<close>) queues
  them with the \<open>ClientContext\<close> of the channel. A worker takes one request at a time and
  dispatches it to the handler of its type (\<open>src/broker/Handlers.cpp\<close>). Handlers use the
  \<open>SessionManager\<close> (contexts by channel and by client identifier, sessions), the \<open>TopicTree\<close>
  (subscriptions), the \<open>RetainStore\<close>, the \<open>Outbox\<close> (messages for clients that are offline), the
  \<open>SecurityChain\<close> and the plugins (\<open>HookRegistry\<close>), and the \<open>Router\<close> for delivery. A timer runs
  the keep-alive check and the retransmission pass. Closing a channel ends in
  \<open>BrokerEngine::Impl::onClose\<close>, which publishes the will and removes the context and a clean
  session. The settings come from \<open>jianm.conf\<close> (\<open>src/common/ConfigMgr.cpp\<close>, \<open>src/main.cpp\<close>); a
  telnet console (\<open>src/management/AdminSession.cpp\<close>, served by \<open>AdminServer.cpp\<close>) shows the state.

  \<^bold>\<open>The model.\<close>
  \<^item> \<open>Prelude\<close>: bytes, words, the outcome type (result, exception, undefined behaviour) and the
    lemmas on lists, options and words that the components share. \<open>Effects\<close>: the state-passing
    programs in which the broker is written, with their weakest precondition calculus (\<open>wp\<close>
    excludes undefined behaviour, \<open>wlp\<close> permits it) and the frame calculus \<open>keeps\<close>.
  \<^item> \<open>Utils\<close>: \<open>src/common/Utils.hpp\<close>. \<open>Packet_Model\<close> and \<open>Topic\<close>: the headers under
    \<open>include/jianm/model\<close>. \<open>TopicTree\<close>, \<open>RetainStore\<close>, \<open>Outbox\<close>, \<open>Security\<close>, \<open>Transport\<close>, \<open>Channel\<close>: the
    classes of these names, plugins with \<open>Security\<close>. A transport lists the writes in flight, so that
    overlapping writes can be told from successive ones; a plugin may keep state and throw. \<open>Codec\<close>
    holds every reader, writer, decoder and encoder, \<open>Codec_Proofs\<close> the results on them.
  \<^item> \<open>Broker_State\<close>: the broker as one record. Shared and weak pointers are references into
    stores of contexts, sessions and channels; a session or channel that nobody owns any more is
    absent from its store, which is what \<open>weak_ptr::lock\<close> sees. \<open>Env\<close> holds what does not change while
    the broker runs: security chain, plugins, limits, and the iteration order of hash tables as a
    function. \<open>SessionManager\<close>, \<open>Router\<close>, \<open>Handlers\<close> and \<open>Engine\<close> follow the source function by
    function. \<open>io_step\<close> is the relation of everything the event loop may do next: accepting, bytes
    and frames arriving, a peer closing, ticks, completed writes, time passing, destruction of
    channels nobody owns, starting and stopping; \<open>worker_step\<close> is a turn of the worker, and
    \<open>engine_step\<close> is either. \<open>read_loop\<close> in \<open>Reading\<close> is the chain of reads of one channel
    (\<open>asyncReadHead\<close>, \<open>asyncRemainingLen\<close>, \<open>asyncReadPayload\<close> and again) on a sequence of socket reads.
  \<^item> \<open>Broker_Spec\<close>: the broker as a client sees it, a map from client identifiers to sessions with
    their subscriptions and queues, and the retained messages; \<open>spec_of\<close> reads it off the state.
  \<^item> \<open>Config\<close> and \<open>Admin\<close>: the configuration file, the options and the console, whose writes the
    socket takes, fails or leaves for later. \<open>Lifecycle\<close>: the tick service and the console's server.
    \<open>Server\<close>: the logger's set-up, the engine object with all it owns, its constructor, \<open>start\<close>, \<open>stop\<close>,
    destructor and plugins, the completion handlers of the event loop (\<open>run_handler\<close>, \<open>io_run\<close>) and \<open>main\<close>.

  \<^bold>\<open>What is shown.\<close>
  \<^item> Codec: PUBLISH and the acknowledgements survive encoding and decoding, CONNECT, SUBSCRIBE and
    UNSUBSCRIBE are decoded to the fields they were written from, replies have the bytes of the
    protocol, decoded packets are well formed, remaining lengths are bounded. Frames too short for
    their fixed fields make the decoder read past its buffer (\<open>decode_reads_past_end\<close>), and it does
    not check the identifiers of SUBSCRIBE and UNSUBSCRIBE (\<open>decode_subscribe_unchecked\<close>).
  \<^item> Transport: writes are started one at a time and written in order (\<open>transport_fifo\<close>), and what is
    queued when the transport closes stays behind.
  \<^item> Topics: the matcher is the wildcard relation of the protocol, the tree returns exactly the
    matching subscriptions, and its updates change one entry. The locale of the tree's contract,
    the maps of the retain store and the queues of the outbox are interpreted on the code's
    definitions, and the broker's proofs rest on them.
  \<^item> Broker (\<open>Broker_Inv\<close>, \<open>Broker_Proofs\<close>, \<open>Broker_Safety\<close>): an invariant that ties topic tree,
    sessions, queues, contexts, channels and retained messages together; every operation keeps it.
    The handlers are verified once in the locale \<open>closing\<close> over what they need of the callback
    that closes a channel; \<open>onClose\<close> interprets it.
  \<^item> Undefined behaviour. \<open>getSession\<close> passes a reference into the session table to \<open>dropSession\<close>, which
    erases that entry and goes on using the reference: a CONNECT with clean session under an
    identifier that has a session is undefined (\<open>connect_accepted\<close>). For the worker this is the only
    case: every other request, every closing and every keep-alive pass returns
    (\<open>broker_operations_return\<close> in \<open>Availability\<close>). The retransmission pass removes from the table it
    iterates over when it gives up on a message (\<open>retransmission_limit_undefined\<close>) and returns
    otherwise (\<open>retransmission_returns\<close>). The decoder reads past short frames, and the console's
    writes refer to a string that is gone when the socket does not take them at once
    (\<open>admin_answers\<close>).
  \<^item> Protocol (\<open>Delivery\<close>, \<open>Routing\<close>, \<open>Protocol\<close>, \<open>Connect\<close>): recipients and quality of service of a
    routed message, exactly-once handling of QoS 2, wills, session lifetime, keep-alive, the
    outcomes of CONNECT and of SUBSCRIBE, and that one connection may end up with two client
    identifiers (\<open>reconnect_two_identifiers\<close>).
  \<^item> Refinement (\<open>Refinement\<close>): every request, legal or not, except the CONNECT that is undefined, and
    every closing of a connection change the abstract broker as its specification says
    (\<open>request_refines_spec\<close>, \<open>close_refines_spec\<close>).
  \<^item> The path of a message. \<open>Reading\<close>: the packets of a byte stream are queued complete and in
    order, however the socket cuts it, and a malformed one closes the channel where it stands
    (\<open>stream_queued\<close>, \<open>malformed_packet_closes\<close>). \<open>EndToEnd\<close> follows a PUBLISH from the publisher's
    socket over the read loop, the worker and the router to the bytes given to the subscriber's
    transport. \<open>Forwarding\<close>: a message for a client that is away is sent when it comes back, and
    a new subscription is sent the matching retained messages (\<open>offline_message_delivered\<close>,
    \<open>subscribe_sends_retained\<close>).
  \<^item> Liveness (\<open>Liveness\<close>): in a run in which the worker has its turns every request is handled, in
    the order of arrival. The locale \<open>queue_frame\<close> states what the closing callback leaves of the
    queue; \<open>onClose\<close> interprets it.
  \<^item> The program (\<open>Server\<close>): when \<open>main\<close> comes up, when it leaves the console running without an engine,
    that the handlers of its event loop are steps of \<open>engine_step\<close> and do not throw, and that the
    engine is stopped after the signal (\<open>server_main_outcomes\<close>); ticks without a pause and a console
    that does not survive a restart (\<open>ticks_without_interval\<close>, \<open>BrokerEngine_restart\<close>).
  \<^item> Configuration and console: printing and loading are inverse, the width of numeric settings,
    one answer per line as long as the socket takes them (\<open>admin_answers\<close>). \<open>Scenario\<close> holds a small
    broker on which the theorems are instantiated.

  \<^bold>\<open>Bounds.\<close> \<open>onClose\<close> calls the code that closes other channels, so it takes the number of nested
  calls allowed; with 0 it is undefined. One level is enough in every state that satisfies the
  invariant, and a larger number gives the same result (\<open>onClose_depth\<close>,
  \<open>broker_operations_return\<close>). All other recursion is over lists or has a measure.

  \<^bold>\<open>Assumptions.\<close> What a plugin answers may depend on everything it has been told before; it may
  change a message or throw when it is asked about one, but results that speak of the broker's
  state assume that it keeps the topic (\<open>hooks_keep_topic\<close>): without it the retain store breaks
  (\<open>retain_store_foreign_topic\<close>). The other calls of a plugin only notify it and are assumed to
  return. \<open>main\<close> registers no plugin. Iteration orders of hash tables are permutations. The
  refinement assumes that the wills due at a closing have a valid topic (\<open>wills_routable\<close>), which
  the broker does not check. Liveness assumes that the worker is scheduled again and again
  (\<open>fair\<close>). What the file system, the timers, the console's event loop, the sockets' \<open>bind\<close> and the log
  library answer are arguments.

  \<^bold>\<open>Not modelled.\<close> Threads and mutexes: an operation runs to its end before the next one starts,
  so data races between the network thread, the worker and the console are outside; in \<open>main\<close> the
  console has no clients, which only read the broker (\<open>Admin\<close> is about them). Sockets,
  signals and timers of asio are events; TLS (a build without OpenSSL) and the text of log
  messages, with the functions that only forward it, are left out, and so is the singleton
  template, which nothing instantiates. The scope guard \<open>Defer\<close> has one use, the rejection of a
  CONNECT, and is written out there. Memory is not bounded.
\<close>

end
